(* ===== verification/Prelude.thy ===== *)
theory Prelude
  imports Main "HOL-Library.Word"
begin

unbundle bit_operations_syntax

text \<open>
  Shared ground of the development: the result type of Go functions, the machine
  integer types of the source with their conversions, a model of
  \<^verbatim>\<open>bytes.Reader\<close> as the list of unread bytes, and the generic lemmas on
  these that the component theories use.
\<close>

section \<open>Results of Go functions\<close>

text \<open>
  A Go function returns a value and an \<^verbatim>\<open>error\<close>, or panics. The errors are
  the sentinel values of the \<^verbatim>\<open>io\<close> package, errors made with
  \<^verbatim>\<open>errors.New\<close> or \<^verbatim>\<open>fmt.Errorf\<close> (of which the model keeps the
  fixed text, not the formatted numbers), the \<^verbatim>\<open>qerr.TransportError\<close>
  struct with its frame type, error code and the error it wraps the message of, and the
  \<^verbatim>\<open>quic.StreamError\<close> struct.
\<close>

datatype go_error =
    EOF
  | UnexpectedEOF
  | ErrorString string
  | TransportError (te_FrameType: "64 word") (te_ErrorCode: "64 word") (te_ErrorMessage: string)
  | StreamError (se_StreamID: int) (se_ErrorCode: "64 word") (se_Remote: bool)

datatype 'a outcome =
    Ok 'a
  | Err go_error
  | Panic string

primrec bindr :: "'a outcome \<Rightarrow> ('a \<Rightarrow> 'b outcome) \<Rightarrow> 'b outcome" where
  "bindr (Ok x) f = f x"
| "bindr (Err e) f = Err e"
| "bindr (Panic m) f = Panic m"

text \<open>The text of an error, as \<^verbatim>\<open>err.Error()\<close> gives it.\<close>

primrec Error :: "go_error \<Rightarrow> string" where
  "Error EOF = ''EOF''"
| "Error UnexpectedEOF = ''unexpected EOF''"
| "Error (ErrorString m) = m"
| "Error (TransportError ft ec m) = m"
| "Error (StreamError sid ec remote) = (if remote then ''stream canceled by remote'' else ''stream canceled by local'')"

primrec is_ok :: "'a outcome \<Rightarrow> bool" where
  "is_ok (Ok x) = True"
| "is_ok (Err e) = False"
| "is_ok (Panic m) = False"

primrec is_panic :: "'a outcome \<Rightarrow> bool" where
  "is_panic (Ok x) = False"
| "is_panic (Err e) = False"
| "is_panic (Panic m) = True"

lemma bindr_eq_Ok_iff: "bindr m f = Ok y \<longleftrightarrow> (\<exists>x. m = Ok x \<and> f x = Ok y)"
  by (cases m) auto

lemma bindr_eq_Panic_iff:
  "bindr m f = Panic s \<longleftrightarrow> m = Panic s \<or> (\<exists>x. m = Ok x \<and> f x = Panic s)"
  by (cases m) auto

lemma bindr_eq_Err_iff:
  "bindr m f = Err e \<longleftrightarrow> m = Err e \<or> (\<exists>x. m = Ok x \<and> f x = Err e)"
  by (cases m) auto

lemma bindr_assoc: "bindr (bindr m f) g = bindr m (\<lambda>x. bindr (f x) g)"
  by (cases m) auto

lemma is_panic_bindr:
  "is_panic (bindr m f) \<longleftrightarrow> is_panic m \<or> (\<exists>x. m = Ok x \<and> is_panic (f x))"
  by (cases m) auto

lemma is_ok_iff: "is_ok m \<longleftrightarrow> (\<exists>x. m = Ok x)"
  by (cases m) auto

section \<open>Machine integers\<close>

text \<open>
  Unsigned Go integers are words. The signed 64-bit types of the source
  (\<^verbatim>\<open>protocol.ByteCount\<close>, \<^verbatim>\<open>protocol.StreamID\<close>,
  \<^verbatim>\<open>protocol.PacketNumber\<close>, \<^verbatim>\<open>time.Duration\<close>, \<^verbatim>\<open>int\<close>) are
  integers: the values that reach them come from varints, which are below
  \<open>2 ^ 62\<close>, or are lengths of slices. The conversions between the two are explicit:
  \<open>to_u64\<close> is Go's \<^verbatim>\<open>uint64(x)\<close>, \<open>to_i64\<close> is \<^verbatim>\<open>int64(x)\<close>.
\<close>

type_synonym byte = "8 word"
type_synonym u64 = "64 word"

definition to_u64 :: "int \<Rightarrow> u64" where
  "to_u64 x = word_of_int x"

definition to_i64 :: "u64 \<Rightarrow> int" where
  "to_i64 x = sint x"

lemma uint_to_u64 [simp]: "0 \<le> x \<Longrightarrow> x < 2 ^ 64 \<Longrightarrow> uint (to_u64 x) = x"
  by (simp add: to_u64_def uint_word_of_int_eq take_bit_int_eq_self)

lemma to_i64_uint: "uint x < 2 ^ 63 \<Longrightarrow> to_i64 x = uint x"
proof -
  assume less: "uint x < 2 ^ 63"
  have "- (2 ^ 63) \<le> uint x"
    by (rule order_trans [of _ 0]) simp_all
  then have "signed_take_bit 63 (uint x) = uint x"
    using less by (rule signed_take_bit_int_eq_self)
  then show ?thesis
    by (simp add: to_i64_def sint_uint)
qed

lemma to_i64_to_u64 [simp]: "- (2 ^ 63) \<le> x \<Longrightarrow> x < 2 ^ 63 \<Longrightarrow> to_i64 (to_u64 x) = x"
  by (simp add: to_i64_def to_u64_def sint_sbintrunc' signed_take_bit_int_eq_self)

lemma to_u64_to_i64 [simp]: "to_u64 (to_i64 x) = x"
  by (simp add: to_u64_def to_i64_def)

lemma to_i64_0 [simp]: "to_i64 0 = 0"
  by (simp add: to_i64_def)

lemma uint_word_of_nat_64: "n < 2 ^ 64 \<Longrightarrow> uint (word_of_nat n :: u64) = int n"
  by (simp add: take_bit_nat_eq_self unsigned_of_nat uint_nat unat_of_nat)

subsection \<open>Words as integers, big-endian byte strings\<close>

lemma uint_drop_bit: "uint (drop_bit k (w :: 'a::len word)) = uint w div 2 ^ k"
proof -
  have "uint (drop_bit k w) = drop_bit k (take_bit LENGTH('a) (uint w))"
    by (rule unsigned_drop_bit_eq)
  also have "take_bit LENGTH('a) (uint w) = uint w"
    by (rule take_bit_int_eq_self) simp_all
  finally show ?thesis
    by (simp only: drop_bit_eq_div)
qed

lemma uint_take_bit: "uint (take_bit k (w :: 'a::len word)) = uint w mod 2 ^ k"
  by (rule trans [OF unsigned_take_bit_eq take_bit_eq_mod])

lemma unat_less_iff_uint: "unat w < n \<longleftrightarrow> uint w < int n"
  by (simp only: uint_nat of_nat_less_iff)

lemma unat_byte_less: "unat (b :: byte) < 256"
  using uint_bounded [of b] by (simp add: unat_less_iff_uint)

lemma byte_of_word: "(ucast (drop_bit k w :: u64) :: byte) = word_of_int (uint w div 2 ^ k)"
  by (simp only: ucast_eq uint_drop_bit)

text \<open>The value of a big-endian byte string, and the \<open>k\<close> low bytes of a number.\<close>

fun be_val :: "byte list \<Rightarrow> int" where
  "be_val [] = 0"
| "be_val (b # bs) = uint b * 256 ^ length bs + be_val bs"

primrec be_bytes :: "nat \<Rightarrow> int \<Rightarrow> byte list" where
  "be_bytes 0 n = []"
| "be_bytes (Suc k) n = word_of_int (n div 256 ^ k) # be_bytes k n"

lemma be_bytes_numeral [simp]:
  "be_bytes (numeral k) n = word_of_int (n div 256 ^ pred_numeral k) # be_bytes (pred_numeral k) n"
  by (simp add: numeral_eq_Suc)

lemma length_be_bytes [simp]: "length (be_bytes k n) = k"
  by (induction k) simp_all

lemma be_val_append: "be_val (xs @ ys) = be_val xs * 256 ^ length ys + be_val ys"
  by (induction xs) (auto simp: algebra_simps power_add)

lemma be_val_nonneg [simp]: "0 \<le> be_val bs"
  by (induction bs) simp_all

lemma be_val_less: "be_val bs < 256 ^ length bs"
proof (induction bs)
  case (Cons b bs)
  have "uint b \<le> 255"
    using uint_bounded [of b] by simp
  then have "uint b * 256 ^ length bs \<le> 255 * 256 ^ length bs"
    by (rule mult_right_mono) simp
  with Cons show ?case
    by (simp only: be_val.simps list.size power_Suc2 add_Suc_right add_0_right)
qed simp

lemma be_val_be_bytes: "be_val (be_bytes k n) = n mod 256 ^ k"
proof (induction k)
  case (Suc k)
  have "n mod (256 ^ k * 256) = 256 ^ k * (n div 256 ^ k mod 256) + n mod 256 ^ k"
    by (rule zmod_zmult2_eq) simp
  with Suc show ?case
    by (simp add: uint_word_of_int mult.commute)
qed simp

lemma be_val_be_bytes_less [simp]: "0 \<le> n \<Longrightarrow> n < 256 ^ k \<Longrightarrow> be_val (be_bytes k n) = n"
  by (simp add: be_val_be_bytes)

lemma be_bytes_be_val: "be_bytes (length bs) (be_val bs) = bs"
proof (induction bs)
  case (Cons b bs)
  have bytes_mod: "be_bytes k (m * 256 ^ k + n) = be_bytes k n" for k and m n :: int
  proof (induction k arbitrary: m)
    case (Suc k)
    have split: "m * 256 ^ Suc k + n = n + m * 256 * 256 ^ k" by (simp add: algebra_simps)
    have "(n + m * 256 * 256 ^ k) div 256 ^ k = m * 256 + n div 256 ^ k"
      by (subst div_mult_self1) simp_all
    then have "(word_of_int ((n + m * 256 * 256 ^ k) div 256 ^ k) :: byte) = word_of_int (n div 256 ^ k)"
      by (simp only: word_of_int_eq_iff take_bit_eq_mod) simp
    with Suc [of "m * 256"] show ?case
      by (simp only: split be_bytes.simps) (simp add: add.commute)
  qed simp
  have "(uint b * 256 ^ length bs + be_val bs) div 256 ^ length bs = uint b"
    using be_val_less [of bs] by simp
  with Cons bytes_mod [of "length bs" "uint b" "be_val bs"] show ?case by simp
qed simp

subsection \<open>Division\<close>

lemma int_div_less: "(n :: int) < c * p \<Longrightarrow> 0 < p \<Longrightarrow> n div p < c"
proof (rule ccontr)
  assume "n < c * p" "0 < p" "\<not> n div p < c"
  then have "c * p \<le> n div p * p" by simp
  also have "\<dots> \<le> n"
    using \<open>0 < p\<close> by (simp add: div_times_less_eq_dividend minus_mod_eq_div_mult [symmetric])
  finally show False using \<open>n < c * p\<close> by simp
qed

text \<open>Go's integer division and remainder truncate towards zero.\<close>

definition go_div :: "int \<Rightarrow> int \<Rightarrow> int" where
  "go_div a b = sgn a * sgn b * (\<bar>a\<bar> div \<bar>b\<bar>)"

definition go_mod :: "int \<Rightarrow> int \<Rightarrow> int" where
  "go_mod a b = a - b * go_div a b"

lemma go_div_nonneg [simp]: "0 \<le> a \<Longrightarrow> 0 < b \<Longrightarrow> go_div a b = a div b"
  by (cases "a = 0") (simp_all add: go_div_def)

lemma go_mod_nonneg [simp]: "0 \<le> a \<Longrightarrow> 0 < b \<Longrightarrow> go_mod a b = a mod b"
  by (simp add: go_mod_def minus_mult_div_eq_mod)

section \<open>Readers\<close>

text \<open>
  A \<^verbatim>\<open>bytes.Reader\<close> is the list of the bytes not read yet: \<^verbatim>\<open>r.Len()\<close>
  is its length. \<^verbatim>\<open>io.ReadFull(r, buf)\<close> for a buffer of \<open>n\<close> bytes fails
  with \<^verbatim>\<open>io.EOF\<close> when nothing is left and \<open>n > 0\<close>, and with
  \<^verbatim>\<open>io.ErrUnexpectedEOF\<close> when something but not enough is left.
\<close>

type_synonym reader = "byte list"

fun ReadByte :: "reader \<Rightarrow> (byte \<times> reader) outcome" where
  "ReadByte [] = Err EOF"
| "ReadByte (b # r) = Ok (b, r)"

definition ReadFull :: "reader \<Rightarrow> nat \<Rightarrow> (byte list \<times> reader) outcome" where
  "ReadFull r n =
     (if n \<le> length r then Ok (take n r, drop n r)
      else if r = [] then Err EOF
      else Err UnexpectedEOF)"

lemma ReadFull_append [simp]: "length xs = n \<Longrightarrow> ReadFull (xs @ r) n = Ok (xs, r)"
  by (simp add: ReadFull_def)

lemma ReadFull_all [simp]: "ReadFull xs (length xs) = Ok (xs, [])"
  by (simp add: ReadFull_def)

lemma ReadFull_0 [simp]: "ReadFull r 0 = Ok ([], r)"
  by (simp add: ReadFull_def)

lemma ReadFull_Ok_iff:
  "ReadFull r n = Ok (xs, r') \<longleftrightarrow> r = xs @ r' \<and> length xs = n"
proof -
  have "take n r @ drop n r = r" by simp
  then show ?thesis by (auto simp: ReadFull_def)
qed

lemma ReadFull_no_panic [simp]: "\<not> is_panic (ReadFull r n)"
  by (simp add: ReadFull_def)

lemma ReadByte_Ok_iff: "ReadByte r = Ok (b, r') \<longleftrightarrow> r = b # r'"
  by (cases r) auto

lemma ReadByte_no_panic [simp]: "\<not> is_panic (ReadByte r)"
  by (cases r) auto

section \<open>Collections of rewrite rules\<close>

named_theorems wire_defs \<open>definitions of the append, length and parse functions of the wire format\<close>
named_theorems no_panic \<open>facts stating that an operation does not panic\<close>

declare ReadFull_no_panic [no_panic] ReadByte_no_panic [no_panic]

section \<open>Loops that may fail\<close>

text \<open>A loop that appends one result per element and stops at the first error.\<close>

fun mapr :: "('a \<Rightarrow> 'b outcome) \<Rightarrow> 'a list \<Rightarrow> 'b list outcome" where
  "mapr f [] = Ok []"
| "mapr f (x # xs) = bindr (f x) (\<lambda>y. bindr (mapr f xs) (\<lambda>ys. Ok (y # ys)))"

lemma mapr_Ok: "(\<And>x. x \<in> set xs \<Longrightarrow> f x = Ok (g x)) \<Longrightarrow> mapr f xs = Ok (map g xs)"
  by (induction xs) auto

end
