(* ===== verification/RingBuffer.thy ===== *)
theory RingBuffer
  imports Prelude
begin

text \<open>
  The ring buffer (\<^verbatim>\<open>internal/utils/ringbuffer/ringbuffer.go\<close>) that backs the queues of
  the connection. Its contract is the locale \<open>fifo\<close>: an abstraction to lists under which
  \<^verbatim>\<open>PushBack\<close> appends and \<^verbatim>\<open>PopFront\<close> removes the head. The zero value of the
  element type, which \<^verbatim>\<open>make\<close> fills a slice with, is the parameter \<open>z\<close>.
\<close>

section \<open>The buffer\<close>

record 'a RingBuffer =
  rb_ring :: "'a list"
  rb_headPos :: nat
  rb_tailPos :: nat
  rb_full :: bool

definition newRingBuffer :: "'a RingBuffer" where
  "newRingBuffer = \<lparr>rb_ring = [], rb_headPos = 0, rb_tailPos = 0, rb_full = False\<rparr>"

definition RingBuffer_Init :: "'a \<Rightarrow> 'a RingBuffer \<Rightarrow> nat \<Rightarrow> 'a RingBuffer" where
  "RingBuffer_Init z r sz = r\<lparr>rb_ring := replicate sz z\<rparr>"

definition RingBuffer_Len :: "'a RingBuffer \<Rightarrow> int" where
  "RingBuffer_Len r =
     (if rb_full r then int (length (rb_ring r))
      else if rb_tailPos r \<ge> rb_headPos r then int (rb_tailPos r) - int (rb_headPos r)
      else int (rb_tailPos r) - int (rb_headPos r) + int (length (rb_ring r)))"

definition RingBuffer_Empty :: "'a RingBuffer \<Rightarrow> bool" where
  "RingBuffer_Empty r \<longleftrightarrow> \<not> rb_full r \<and> rb_headPos r = rb_tailPos r"

definition RingBuffer_grow :: "'a \<Rightarrow> 'a RingBuffer \<Rightarrow> 'a RingBuffer" where
  "RingBuffer_grow z r =
     (let oldRing = rb_ring r;
          newSize = (if length oldRing * 2 = 0 then 1 else length oldRing * 2);
          front = drop (rb_headPos r) oldRing;
          back = take (rb_headPos r) oldRing
      in \<lparr>rb_ring = front @ back @ replicate (newSize - (length front + length back)) z,
          rb_headPos = 0, rb_tailPos = length oldRing, rb_full = False\<rparr>)"

definition RingBuffer_PushBack :: "'a \<Rightarrow> 'a RingBuffer \<Rightarrow> 'a \<Rightarrow> 'a RingBuffer outcome" where
  "RingBuffer_PushBack z r t =
     (let r = (if rb_full r \<or> length (rb_ring r) = 0 then RingBuffer_grow z r else r) in
      if rb_tailPos r \<ge> length (rb_ring r) then Panic ''index out of range''
      else
        let r = r\<lparr>rb_ring := (rb_ring r)[rb_tailPos r := t], rb_tailPos := rb_tailPos r + 1\<rparr>;
            r = (if rb_tailPos r = length (rb_ring r) then r\<lparr>rb_tailPos := 0\<rparr> else r)
        in Ok (if rb_tailPos r = rb_headPos r then r\<lparr>rb_full := True\<rparr> else r))"

definition RingBuffer_PopFront :: "'a \<Rightarrow> 'a RingBuffer \<Rightarrow> ('a \<times> 'a RingBuffer) outcome" where
  "RingBuffer_PopFront z r =
     (if RingBuffer_Empty r then Panic ''pop from an empty queue''
      else if rb_headPos r \<ge> length (rb_ring r) then Panic ''index out of range''
      else
        let t = rb_ring r ! rb_headPos r;
            r = r\<lparr>rb_full := False, rb_ring := (rb_ring r)[rb_headPos r := z], rb_headPos := rb_headPos r + 1\<rparr>
        in Ok (t, if rb_headPos r = length (rb_ring r) then r\<lparr>rb_headPos := 0\<rparr> else r))"

definition RingBuffer_PeekFront :: "'a RingBuffer \<Rightarrow> 'a outcome" where
  "RingBuffer_PeekFront r =
     (if RingBuffer_Empty r then Panic ''peek from an empty queue''
      else if rb_headPos r \<ge> length (rb_ring r) then Panic ''index out of range''
      else Ok (rb_ring r ! rb_headPos r))"

definition RingBuffer_Clear :: "'a \<Rightarrow> 'a RingBuffer \<Rightarrow> 'a RingBuffer" where
  "RingBuffer_Clear z r =
     \<lparr>rb_ring = map (\<lambda>_. z) (rb_ring r), rb_headPos = 0, rb_tailPos = 0, rb_full = False\<rparr>"

section \<open>The contract of a queue\<close>

locale fifo =
  fixes push :: "'q \<Rightarrow> 'a \<Rightarrow> 'q outcome" and pop :: "'q \<Rightarrow> ('a \<times> 'q) outcome" and peek :: "'q \<Rightarrow> 'a outcome"
    and len :: "'q \<Rightarrow> int" and is_empty :: "'q \<Rightarrow> bool" and invar :: "'q \<Rightarrow> bool" and contents :: "'q \<Rightarrow> 'a list"
  assumes push_law: "invar q \<Longrightarrow> \<exists>q'. push q x = Ok q' \<and> invar q' \<and> contents q' = contents q @ [x]"
    and pop_law: "invar q \<Longrightarrow> contents q = x # xs \<Longrightarrow> \<exists>q'. pop q = Ok (x, q') \<and> invar q' \<and> contents q' = xs"
    and peek_law: "invar q \<Longrightarrow> contents q = x # xs \<Longrightarrow> peek q = Ok x"
    and len_law: "invar q \<Longrightarrow> len q = int (length (contents q))"
    and empty_law: "invar q \<Longrightarrow> is_empty q \<longleftrightarrow> contents q = []"
begin

fun push_all :: "'q \<Rightarrow> 'a list \<Rightarrow> 'q outcome" where
  "push_all q [] = Ok q"
| "push_all q (x # xs) = bindr (push q x) (\<lambda>q. push_all q xs)"

fun pop_many :: "nat \<Rightarrow> 'q \<Rightarrow> ('a list \<times> 'q) outcome" where
  "pop_many 0 q = Ok ([], q)"
| "pop_many (Suc n) q = bindr (pop q) (\<lambda>(x, q). bindr (pop_many n q) (\<lambda>(xs, q). Ok (x # xs, q)))"

lemma push_all_contents:
  "invar q \<Longrightarrow> \<exists>q'. push_all q xs = Ok q' \<and> invar q' \<and> contents q' = contents q @ xs"
proof (induction xs arbitrary: q)
  case (Cons x xs)
  obtain q1 where q1: "push q x = Ok q1" "invar q1" "contents q1 = contents q @ [x]"
    using push_law [OF Cons.prems, of x] by blast
  then show ?case
    using Cons.IH [OF q1(2)] by auto
qed auto

lemma pop_many_contents:
  "invar q \<Longrightarrow> contents q = xs @ ys \<Longrightarrow> \<exists>q'. pop_many (length xs) q = Ok (xs, q') \<and> invar q' \<and> contents q' = ys"
proof (induction xs arbitrary: q)
  case (Cons x xs)
  obtain q1 where q1: "pop q = Ok (x, q1)" "invar q1" "contents q1 = xs @ ys"
    using pop_law [of q x "xs @ ys"] Cons.prems by auto
  then show ?case
    using Cons.IH [OF q1(2,3)] by auto
qed auto

lemma first_in_first_out:
  assumes "invar q" "contents q = []"
  shows "\<exists>q' q''. push_all q xs = Ok q' \<and> pop_many (length xs) q' = Ok (xs, q'') \<and> contents q'' = []"
proof -
  obtain q' where "push_all q xs = Ok q'" "invar q'" "contents q' = xs"
    using push_all_contents [OF assms(1), of xs] assms(2) by auto
  moreover from this obtain q'' where "pop_many (length xs) q' = Ok (xs, q'')" "contents q'' = []"
    using pop_many_contents [of q' xs "[]"] by auto
  ultimately show ?thesis
    by blast
qed

end

section \<open>The ring buffer satisfies it\<close>

definition RingBuffer_inv :: "'a RingBuffer \<Rightarrow> bool" where
  "RingBuffer_inv r \<longleftrightarrow>
     (rb_ring r = [] \<longrightarrow> rb_headPos r = 0 \<and> rb_tailPos r = 0 \<and> \<not> rb_full r)
     \<and> (rb_ring r \<noteq> [] \<longrightarrow> rb_headPos r < length (rb_ring r) \<and> rb_tailPos r < length (rb_ring r))
     \<and> (rb_full r \<longrightarrow> rb_headPos r = rb_tailPos r)"

definition RingBuffer_list :: "'a RingBuffer \<Rightarrow> 'a list" where
  "RingBuffer_list r =
     (if rb_full r \<or> rb_tailPos r < rb_headPos r
      then drop (rb_headPos r) (rb_ring r) @ take (rb_tailPos r) (rb_ring r)
      else drop (rb_headPos r) (take (rb_tailPos r) (rb_ring r)))"

lemma RingBuffer_new: "RingBuffer_inv newRingBuffer" "RingBuffer_list newRingBuffer = []"
  by (simp_all add: RingBuffer_inv_def RingBuffer_list_def newRingBuffer_def)

lemma RingBuffer_grow_law:
  assumes inv: "RingBuffer_inv r" and "rb_full r \<or> rb_ring r = []"
  shows "RingBuffer_inv (RingBuffer_grow z r)" "RingBuffer_list (RingBuffer_grow z r) = RingBuffer_list r"
    "rb_ring (RingBuffer_grow z r) \<noteq> []" "\<not> rb_full (RingBuffer_grow z r)"
proof -
  let ?n = "length (rb_ring r)"
  let ?xs = "drop (rb_headPos r) (rb_ring r) @ take (rb_headPos r) (rb_ring r)"
  have len: "length ?xs = ?n"
    using inv by (auto simp: RingBuffer_inv_def)
  have ring: "rb_ring (RingBuffer_grow z r) = ?xs @ replicate (if ?n = 0 then 1 else ?n) z"
    using len by (simp add: RingBuffer_grow_def Let_def mult_2_right)
  have pos: "rb_headPos (RingBuffer_grow z r) = 0" "rb_tailPos (RingBuffer_grow z r) = ?n" "\<not> rb_full (RingBuffer_grow z r)"
    by (simp_all add: RingBuffer_grow_def Let_def)
  show "RingBuffer_inv (RingBuffer_grow z r)"
    using ring pos len by (auto simp: RingBuffer_inv_def)
  show "RingBuffer_list (RingBuffer_grow z r) = RingBuffer_list r"
    using ring pos len assms by (auto simp: RingBuffer_list_def RingBuffer_inv_def)
  show "rb_ring (RingBuffer_grow z r) \<noteq> []" "\<not> rb_full (RingBuffer_grow z r)"
    using ring pos by auto
qed

text \<open>One element written behind the last one of a buffer that is not full.\<close>

lemma RingBuffer_put_law:
  fixes r :: "'a RingBuffer" and x :: 'a
  assumes inv: "RingBuffer_inv r" and ne: "rb_ring r \<noteq> []" and nf: "\<not> rb_full r"
  defines "t \<equiv> if rb_tailPos r + 1 = length (rb_ring r) then 0 else rb_tailPos r + 1"
  defines "r' \<equiv> \<lparr>rb_ring = (rb_ring r)[rb_tailPos r := x], rb_headPos = rb_headPos r, rb_tailPos = t,
    rb_full = (t = rb_headPos r)\<rparr>"
  shows "RingBuffer_inv r'" "RingBuffer_list r' = RingBuffer_list r @ [x]"
proof -
  have pos: "rb_headPos r < length (rb_ring r)" "rb_tailPos r < length (rb_ring r)"
    using inv ne by (simp_all add: RingBuffer_inv_def)
  show "RingBuffer_inv r'"
    using pos ne by (auto simp: RingBuffer_inv_def r'_def t_def)
  show "RingBuffer_list r' = RingBuffer_list r @ [x]"
  proof (cases "rb_tailPos r < rb_headPos r")
    case True
    then show ?thesis
      using pos nf by (auto simp: RingBuffer_list_def r'_def t_def take_Suc_conv_app_nth)
  next
    case False
    then show ?thesis
      using pos nf
      by (auto simp: RingBuffer_list_def r'_def t_def upd_conv_take_nth_drop)
  qed
qed

lemma RingBuffer_push_law:
  assumes "RingBuffer_inv r"
  shows "\<exists>r'. RingBuffer_PushBack z r x = Ok r' \<and> RingBuffer_inv r' \<and> RingBuffer_list r' = RingBuffer_list r @ [x]"
proof -
  define g where "g = (if rb_full r \<or> length (rb_ring r) = 0 then RingBuffer_grow z r else r)"
  have g: "RingBuffer_inv g" "RingBuffer_list g = RingBuffer_list r" "rb_ring g \<noteq> []" "\<not> rb_full g"
    using RingBuffer_grow_law [OF assms, of z] assms by (auto simp: g_def)
  have "rb_tailPos g < length (rb_ring g)"
    using g by (simp add: RingBuffer_inv_def)
  then have "RingBuffer_PushBack z r x = Ok \<lparr>rb_ring = (rb_ring g)[rb_tailPos g := x], rb_headPos = rb_headPos g,
      rb_tailPos = (if rb_tailPos g + 1 = length (rb_ring g) then 0 else rb_tailPos g + 1),
      rb_full = ((if rb_tailPos g + 1 = length (rb_ring g) then 0 else rb_tailPos g + 1) = rb_headPos g)\<rparr>"
    using g(4) unfolding RingBuffer_PushBack_def Let_def g_def [symmetric] by (cases g) auto
  then show ?thesis
    using RingBuffer_put_law [OF g(1,3,4), of x] g(2) by simp
qed

lemma RingBuffer_front:
  assumes "RingBuffer_inv r" "RingBuffer_list r = x # xs"
  shows "\<not> RingBuffer_Empty r" "rb_headPos r < length (rb_ring r)" "rb_ring r ! rb_headPos r = x"
proof -
  show "\<not> RingBuffer_Empty r"
    using assms by (auto simp: RingBuffer_Empty_def RingBuffer_list_def)
  show h: "rb_headPos r < length (rb_ring r)"
    using assms by (auto simp: RingBuffer_inv_def RingBuffer_list_def split: if_splits)
  show "rb_ring r ! rb_headPos r = x"
    using assms(2) by (simp add: RingBuffer_list_def drop_take take_Cons'
        Cons_nth_drop_Suc [OF h, symmetric] split: if_splits)
qed

lemma RingBuffer_pop_law:
  assumes inv: "RingBuffer_inv r" and l: "RingBuffer_list r = x # xs"
  shows "\<exists>r'. RingBuffer_PopFront z r = Ok (x, r') \<and> RingBuffer_inv r' \<and> RingBuffer_list r' = xs"
proof -
  note f = RingBuffer_front [OF inv l]
  define h where "h = (if rb_headPos r + 1 = length (rb_ring r) then 0 else rb_headPos r + 1)"
  define r' where "r' = \<lparr>rb_ring = (rb_ring r)[rb_headPos r := z], rb_headPos = h, rb_tailPos = rb_tailPos r, rb_full = False\<rparr>"
  have "RingBuffer_PopFront z r = Ok (x, r')"
    using f by (auto simp: RingBuffer_PopFront_def Let_def r'_def h_def)
  moreover have "RingBuffer_inv r'"
    using inv f(2) by (auto simp: RingBuffer_inv_def r'_def h_def)
  moreover have "RingBuffer_list r' = xs"
  proof -
    note d = Cons_nth_drop_Suc [OF f(2), symmetric]
    have "RingBuffer_list r = rb_ring r ! rb_headPos r # RingBuffer_list r'"
    proof (cases "rb_full r \<or> rb_tailPos r < rb_headPos r")
      case True
      then have "rb_tailPos r \<le> rb_headPos r"
        using inv by (auto simp: RingBuffer_inv_def)
      then show ?thesis
        using True f(2) by (auto simp: RingBuffer_list_def r'_def h_def d)
    next
      case False
      then have "rb_headPos r < rb_tailPos r" "rb_tailPos r < length (rb_ring r)"
        using inv f(1,2) by (auto simp: RingBuffer_inv_def RingBuffer_Empty_def)
      then show ?thesis
        using False by (simp add: RingBuffer_list_def r'_def h_def drop_take d take_Cons')
    qed
    then show ?thesis
      using l by simp
  qed
  ultimately show ?thesis
    by blast
qed

lemma RingBuffer_Len_law: "RingBuffer_inv r \<Longrightarrow> RingBuffer_Len r = int (length (RingBuffer_list r))"
  by (auto simp: RingBuffer_Len_def RingBuffer_list_def RingBuffer_inv_def)

lemma RingBuffer_Empty_law: "RingBuffer_inv r \<Longrightarrow> RingBuffer_Empty r \<longleftrightarrow> RingBuffer_list r = []"
  by (auto simp: RingBuffer_Empty_def RingBuffer_list_def RingBuffer_inv_def)

interpretation ring: fifo "RingBuffer_PushBack z" "RingBuffer_PopFront z" RingBuffer_PeekFront RingBuffer_Len
  RingBuffer_Empty RingBuffer_inv RingBuffer_list for z :: 'a
proof
  fix q :: "'a RingBuffer" and x xs
  assume inv: "RingBuffer_inv q"
  show "\<exists>q'. RingBuffer_PushBack z q x = Ok q' \<and> RingBuffer_inv q' \<and> RingBuffer_list q' = RingBuffer_list q @ [x]"
    by (rule RingBuffer_push_law [OF inv])
  show "RingBuffer_Len q = int (length (RingBuffer_list q))" "RingBuffer_Empty q \<longleftrightarrow> RingBuffer_list q = []"
    by (rule RingBuffer_Len_law [OF inv], rule RingBuffer_Empty_law [OF inv])
  show "\<exists>q'. RingBuffer_PopFront z q = Ok (x, q') \<and> RingBuffer_inv q' \<and> RingBuffer_list q' = xs"
    if "RingBuffer_list q = x # xs"
    by (rule RingBuffer_pop_law [OF inv that])
  show "RingBuffer_PeekFront q = Ok x" if "RingBuffer_list q = x # xs"
    using RingBuffer_front [OF inv that] by (simp add: RingBuffer_PeekFront_def)
qed

lemma RingBuffer_Init_law: "RingBuffer_inv (RingBuffer_Init z newRingBuffer n)"
  "RingBuffer_list (RingBuffer_Init z newRingBuffer n) = []"
  by (simp_all add: RingBuffer_Init_def newRingBuffer_def RingBuffer_inv_def RingBuffer_list_def)

lemma RingBuffer_Clear_law: "RingBuffer_inv (RingBuffer_Clear z r)" "RingBuffer_list (RingBuffer_Clear z r) = []"
  by (simp_all add: RingBuffer_Clear_def RingBuffer_inv_def RingBuffer_list_def)

text \<open>
  C28 (ring-refines). The ring buffer implements a queue of any length: from a buffer in a
  valid state every operation does on the slice with its two positions what the list
  operation does on the list, whether or not the contents wrap around the end of the slice
  and whether or not the slice has to grow. Pushing never fails; popping and peeking panic
  exactly on the empty queue.
\<close>

theorem RingBuffer_refines_list:
  assumes "RingBuffer_inv r"
  shows "(\<exists>r'. RingBuffer_PushBack z r x = Ok r' \<and> RingBuffer_inv r' \<and> RingBuffer_list r' = RingBuffer_list r @ [x])
    \<and> (case RingBuffer_list r of
           [] \<Rightarrow> is_panic (RingBuffer_PopFront z r) \<and> is_panic (RingBuffer_PeekFront r)
         | y # ys \<Rightarrow> RingBuffer_PeekFront r = Ok y
             \<and> (\<exists>r'. RingBuffer_PopFront z r = Ok (y, r') \<and> RingBuffer_inv r' \<and> RingBuffer_list r' = ys))
    \<and> RingBuffer_Len r = int (length (RingBuffer_list r)) \<and> (RingBuffer_Empty r \<longleftrightarrow> RingBuffer_list r = [])
    \<and> RingBuffer_inv (RingBuffer_Clear z r) \<and> RingBuffer_list (RingBuffer_Clear z r) = []"
proof (cases "RingBuffer_list r")
  case Nil
  then have "RingBuffer_Empty r"
    using ring.empty_law [OF assms] by simp
  then show ?thesis
    using Nil ring.push_law [OF assms] ring.len_law [OF assms]
    by (simp add: RingBuffer_PopFront_def RingBuffer_PeekFront_def RingBuffer_Clear_law)
next
  case (Cons y ys)
  then show ?thesis
    using ring.peek_law [OF assms Cons] ring.pop_law [OF assms Cons, of z] ring.push_law [OF assms]
      ring.len_law [OF assms] ring.empty_law [OF assms] by (simp add: RingBuffer_Clear_law)
qed

theorem RingBuffer_refines_list_witness:
  "\<exists>r'. RingBuffer_PushBack 0 \<lparr>rb_ring = [3, 1, 2], rb_headPos = 1, rb_tailPos = 1, rb_full = True\<rparr> (4 :: nat) = Ok r'
     \<and> RingBuffer_list r' = [1, 2, 3, 4]"
proof -
  let ?r = "\<lparr>rb_ring = [3, 1, 2], rb_headPos = 1, rb_tailPos = 1, rb_full = True\<rparr> :: nat RingBuffer"
  have "RingBuffer_inv ?r" "RingBuffer_list ?r = [1, 2, 3]"
    by (simp_all add: RingBuffer_inv_def RingBuffer_list_def)
  then show ?thesis
    using RingBuffer_refines_list [of ?r 0 4] by auto
qed

end
