(* ===== verification/Varint.thy ===== *)
theory Varint
  imports Prelude
begin

text \<open>
  Package \<^verbatim>\<open>quicvarint\<close> (\<^verbatim>\<open>quicvarint/varint.go\<close>): the
  variable-length integer format of QUIC. The encoding functions panic on values
  above \<open>2 ^ 62 - 1\<close>. The theory ends with the lemmas the frame codecs rest on:
  every number that fits is written in \<open>Len\<close> bytes and read back as it is.
\<close>

section \<open>The code\<close>

definition maxVarInt1 :: u64 where
  "maxVarInt1 = 63"

definition maxVarInt2 :: u64 where
  "maxVarInt2 = 16383"

definition maxVarInt4 :: u64 where
  "maxVarInt4 = 1073741823"

definition maxVarInt8 :: u64 where
  "maxVarInt8 = 4611686018427387903"

definition quicvarint_Read :: "reader \<Rightarrow> (u64 \<times> reader) outcome" where
  "quicvarint_Read r =
     bindr (ReadByte r) (\<lambda>(firstByte, r).
     let len = (1 :: int) * 2 ^ unat (drop_bit 6 (firstByte AND 0xc0));
         b1 = firstByte AND (0xff - 0xc0) in
     if len = 1 then Ok (ucast b1, r) else
     bindr (ReadByte r) (\<lambda>(b2, r).
     if len = 2 then Ok (ucast b2 + push_bit 8 (ucast b1), r) else
     bindr (ReadByte r) (\<lambda>(b3, r).
     bindr (ReadByte r) (\<lambda>(b4, r).
     if len = 4 then
       Ok (ucast b4 + push_bit 8 (ucast b3) + push_bit 16 (ucast b2) + push_bit 24 (ucast b1), r) else
     bindr (ReadByte r) (\<lambda>(b5, r).
     bindr (ReadByte r) (\<lambda>(b6, r).
     bindr (ReadByte r) (\<lambda>(b7, r).
     bindr (ReadByte r) (\<lambda>(b8, r).
     Ok (ucast b8 + push_bit 8 (ucast b7) + push_bit 16 (ucast b6) + push_bit 24 (ucast b5)
         + push_bit 32 (ucast b4) + push_bit 40 (ucast b3) + push_bit 48 (ucast b2)
         + push_bit 56 (ucast b1), r)))))))))"

definition quicvarint_Append :: "byte list \<Rightarrow> u64 \<Rightarrow> byte list outcome" where
  "quicvarint_Append b i =
     (if i \<le> maxVarInt1 then Ok (b @ [ucast i])
      else if i \<le> maxVarInt2 then Ok (b @ [ucast (drop_bit 8 i) OR 0x40, ucast i])
      else if i \<le> maxVarInt4 then
        Ok (b @ [ucast (drop_bit 24 i) OR 0x80, ucast (drop_bit 16 i), ucast (drop_bit 8 i), ucast i])
      else if i \<le> maxVarInt8 then
        Ok (b @ [ucast (drop_bit 56 i) OR 0xc0, ucast (drop_bit 48 i), ucast (drop_bit 40 i),
                 ucast (drop_bit 32 i), ucast (drop_bit 24 i), ucast (drop_bit 16 i),
                 ucast (drop_bit 8 i), ucast i])
      else Panic ''doesn't fit into 62 bits'')"

definition quicvarint_Len :: "u64 \<Rightarrow> int outcome" where
  "quicvarint_Len i =
     (if i \<le> maxVarInt1 then Ok 1
      else if i \<le> maxVarInt2 then Ok 2
      else if i \<le> maxVarInt4 then Ok 4
      else if i \<le> maxVarInt8 then Ok 8
      else Panic ''value doesn't fit into 62 bits: '')"

text \<open>
  The two loops of \<^verbatim>\<open>AppendWithLen\<close>: \<open>length - l - 1\<close> zero bytes, then the
  low \<open>l\<close> bytes of the number, the highest one first.
\<close>

definition quicvarint_AppendWithLen :: "byte list \<Rightarrow> u64 \<Rightarrow> int \<Rightarrow> byte list outcome" where
  "quicvarint_AppendWithLen b i len =
     (if len \<noteq> 1 \<and> len \<noteq> 2 \<and> len \<noteq> 4 \<and> len \<noteq> 8 then Panic ''invalid varint length''
      else bindr (quicvarint_Len i) (\<lambda>l.
        if l = len then quicvarint_Append b i
        else if l > len then Panic ''cannot encode''
        else
          let b = (if len = 2 then b @ [0x40]
                   else if len = 4 then b @ [0x80]
                   else if len = 8 then b @ [0xc0]
                   else b);
              b = b @ map (\<lambda>j. 0) [1 ..< nat (len - l)];
              b = b @ map (\<lambda>j. ucast (drop_bit (8 * (nat l - 1 - j)) i)) [0 ..< nat l]
          in Ok b))"

section \<open>Reading what was written\<close>

lemmas maxVarInt_defs = maxVarInt1_def maxVarInt2_def maxVarInt4_def maxVarInt8_def

subsection \<open>The first byte: two length bits and six value bits\<close>

lemma length_bits: "unat (drop_bit 6 (x AND 0xc0)) = unat (x :: byte) div 64"
proof -
  have "drop_bit 6 (x AND 0xc0) = take_bit 2 (drop_bit 6 x)"
    by (simp add: take_bit_eq_mask mask_eq_exp_minus_1)
  also have "\<dots> = drop_bit 6 (take_bit 8 x)"
    by (simp add: take_bit_drop_bit)
  also have "take_bit 8 x = x"
    using take_bit_length_eq [of x] by simp
  finally have "uint (drop_bit 6 (x AND 0xc0)) = uint x div 64"
    by (simp only: uint_drop_bit) simp
  then show ?thesis
    by (simp only: unat_eq_nat_uint)
qed

lemma value_bits: "uint ((x :: byte) AND 0x3f) = uint x mod 64"
proof -
  have "x AND 0x3f = take_bit 6 x"
    by (simp add: take_bit_eq_mask mask_eq_exp_minus_1)
  then show ?thesis
    by (simp only: uint_take_bit) simp
qed

lemma or_length_bits:
  assumes "uint (x :: byte) < 64" and "0 \<le> c" and "c < 4"
  shows "uint (x OR push_bit 6 (word_of_int c)) = uint x + 64 * c"
proof -
  have "uint (take_bit 6 x) = uint x"
    using assms(1) by (simp only: uint_take_bit) simp
  then have "take_bit 6 x = x" by (rule word_uint_eqI)
  then have "\<not> bit x n \<or> \<not> bit (push_bit 6 (word_of_int c)) n" for n
    by (metis bit_push_bit_iff bit_take_bit_iff leD)
  then have "x OR push_bit 6 (word_of_int c) = x + push_bit 6 (word_of_int c)"
    by (rule disjunctive_add [symmetric])
  also have "\<dots> = word_of_int (uint x + 64 * c)"
    by (simp add: push_bit_eq_mult)
  also have "uint \<dots> = uint x + 64 * c"
    using assms by (simp only: uint_word_of_int_eq) (simp add: take_bit_int_eq_self)
  finally show ?thesis .
qed

lemma first_byte_bits:
  assumes "uint (x :: byte) < 64" and "0 \<le> c" and "c < 4"
  shows "(x OR push_bit 6 (word_of_int c)) AND 0x3f = x"
    and "unat (x OR push_bit 6 (word_of_int c)) div 64 = nat c"
proof -
  note or = or_length_bits [OF assms]
  show "(x OR push_bit 6 (word_of_int c)) AND 0x3f = x"
    by (rule word_uint_eqI) (use assms in \<open>simp only: value_bits or mod_mult_self2, simp\<close>)
  have "uint (x OR push_bit 6 (word_of_int c)) div 64 = c"
    using assms by (simp only: or) simp
  then show "unat (x OR push_bit 6 (word_of_int c)) div 64 = nat c"
    by (simp only: unat_eq_nat_uint)
qed

lemma first_byte_numeral:
  assumes "uint (x :: byte) < 64"
  shows "(x OR 0x40) AND 0x3f = x" and "unat (x OR 0x40) div 64 = 1"
    and "(x OR 0x80) AND 0x3f = x" and "unat (x OR 0x80) div 64 = 2"
    and "(x OR 0xc0) AND 0x3f = x" and "unat (x OR 0xc0) div 64 = 3"
  using first_byte_bits [OF assms, of 1] first_byte_bits [OF assms, of 2]
    first_byte_bits [OF assms, of 3]
  by simp_all

subsection \<open>The pure encoding\<close>

definition varint :: "u64 \<Rightarrow> byte list" where
  "varint i = (case quicvarint_Append [] i of Ok e \<Rightarrow> e | _ \<Rightarrow> [])"

lemma quicvarint_Append_Ok [simp]:
  "i \<le> maxVarInt8 \<Longrightarrow> quicvarint_Append b i = Ok (b @ varint i)"
  by (simp add: quicvarint_Append_def varint_def)

lemma quicvarint_Len_Ok [simp]:
  "i \<le> maxVarInt8 \<Longrightarrow> quicvarint_Len i = Ok (int (length (varint i)))"
  by (simp add: quicvarint_Append_def varint_def quicvarint_Len_def)

lemma quicvarint_Append_panic:
  "maxVarInt8 < i \<Longrightarrow> is_panic (quicvarint_Append b i)"
  by (auto simp: quicvarint_Append_def maxVarInt_defs word_le_def word_less_def)

lemma quicvarint_Append_Ok_iff:
  "quicvarint_Append b i = Ok b' \<longleftrightarrow> i \<le> maxVarInt8 \<and> b' = b @ varint i"
  by (metis linorder_not_le is_panic.simps(1) outcome.inject(1) quicvarint_Append_Ok
      quicvarint_Append_panic)

lemma length_varint_pos: "i \<le> maxVarInt8 \<Longrightarrow> 0 < length (varint i)"
  by (simp add: varint_def quicvarint_Append_def)

lemma length_varint_le: "length (varint i) \<le> 8"
  by (simp add: varint_def quicvarint_Append_def)

lemma push_word: "push_bit k (word_of_int x :: u64) = word_of_int (x * 2 ^ k)"
  by (simp only: push_bit_eq_mult of_int_mult of_int_power of_int_numeral)

lemma be_sum2:
  "(ucast b2 + push_bit 8 (ucast b1) :: u64) = word_of_int (be_val [b1, b2])"
  by (simp only: ucast_eq push_word of_int_add [symmetric]) (rule arg_cong [where f = word_of_int], simp)

lemma be_sum4:
  "(ucast b4 + push_bit 8 (ucast b3) + push_bit 16 (ucast b2) + push_bit 24 (ucast b1) :: u64) = word_of_int (be_val [b1, b2, b3, b4])"
  by (simp only: ucast_eq push_word of_int_add [symmetric]) (rule arg_cong [where f = word_of_int], simp)

lemma be_sum8:
  "(ucast b8 + push_bit 8 (ucast b7) + push_bit 16 (ucast b6) + push_bit 24 (ucast b5) +
    push_bit 32 (ucast b4) + push_bit 40 (ucast b3) + push_bit 48 (ucast b2) + push_bit 56 (ucast b1) :: u64) = word_of_int (be_val [b1, b2, b3, b4, b5, b6, b7, b8])"
  by (simp only: ucast_eq push_word of_int_add [symmetric]) (rule arg_cong [where f = word_of_int], simp)

lemma quicvarint_Read_bytes:
  shows "unat b1 div 64 = 0 \<Longrightarrow> quicvarint_Read (b1 # r) = Ok (ucast (b1 AND 0x3f), r)"
    and "unat b1 div 64 = 1 \<Longrightarrow>
      quicvarint_Read (b1 # b2 # r) = Ok (word_of_int (be_val [b1 AND 0x3f, b2]), r)"
    and "unat b1 div 64 = 2 \<Longrightarrow>
      quicvarint_Read (b1 # b2 # b3 # b4 # r) = Ok (word_of_int (be_val [b1 AND 0x3f, b2, b3, b4]), r)"
    and "unat b1 div 64 = 3 \<Longrightarrow>
      quicvarint_Read (b1 # b2 # b3 # b4 # b5 # b6 # b7 # b8 # r) =
        Ok (word_of_int (be_val [b1 AND 0x3f, b2, b3, b4, b5, b6, b7, b8]), r)"
  by (simp_all add: quicvarint_Read_def length_bits flip: be_sum2 be_sum4 be_sum8
      del: drop_bit_and be_val.simps)

lemma quicvarint_Read_masked:
  assumes "uint b < 64" and "(length bs, m) \<in> {(1, 0x40), (3, 0x80), (7, 0xc0)}"
  shows "quicvarint_Read ((b OR m) # bs @ r) = Ok (word_of_int (be_val (b # bs)), r)"
proof -
  note fb = first_byte_numeral [OF assms(1)]
  consider (two) b2 where "bs = [b2]" "m = 0x40"
    | (four) b2 b3 b4 where "bs = [b2, b3, b4]" "m = 0x80"
    | (eight) b2 b3 b4 b5 b6 b7 b8 where "bs = [b2, b3, b4, b5, b6, b7, b8]" "m = 0xc0"
    using assms(2) by (auto simp: length_Suc_conv eval_nat_numeral)
  then show ?thesis
    by cases (simp_all add: quicvarint_Read_bytes fb del: be_val.simps)
qed

lemma quicvarint_Read_be:
  assumes "0 \<le> n" and "n < 64 * 256 ^ k" and "(k, m) \<in> {(1, 0x40), (3, 0x80), (7, 0xc0)}"
  shows "quicvarint_Read ((word_of_int (n div 256 ^ k) OR m) # be_bytes k n @ r) = Ok (word_of_int n, r)"
proof -
  have "n < 256 ^ Suc k"
    using assms(1,2) by simp
  then have "be_val (word_of_int (n div 256 ^ k) # be_bytes k n) = n"
    using be_val_be_bytes_less [of n "Suc k"] assms(1) by simp
  moreover have "n div 256 ^ k < 64"
    using assms(2) by (simp add: int_div_less)
  moreover have "0 \<le> n div 256 ^ k"
    using assms(1) by (simp add: pos_imp_zdiv_nonneg_iff)
  ultimately show ?thesis
    using quicvarint_Read_masked [of "word_of_int (n div 256 ^ k)" "be_bytes k n" m r] assms(3)
    by (simp add: uint_word_of_int)
qed

lemma varint_bytes:
  shows "i \<le> maxVarInt1 \<Longrightarrow> varint i = [ucast i]"
    and "maxVarInt1 < i \<Longrightarrow> i \<le> maxVarInt2 \<Longrightarrow>
      varint i = (word_of_int (uint i div 256 ^ 1) OR 0x40) # be_bytes 1 (uint i)"
    and "maxVarInt2 < i \<Longrightarrow> i \<le> maxVarInt4 \<Longrightarrow>
      varint i = (word_of_int (uint i div 256 ^ 3) OR 0x80) # be_bytes 3 (uint i)"
    and "maxVarInt4 < i \<Longrightarrow> i \<le> maxVarInt8 \<Longrightarrow>
      varint i = (word_of_int (uint i div 256 ^ 7) OR 0xc0) # be_bytes 7 (uint i)"
  by (auto simp add: varint_def quicvarint_Append_def maxVarInt_defs byte_of_word
     word_le_def word_less_def)

lemma quicvarint_Read_varint [simp]:
  assumes "i \<le> maxVarInt8"
  shows "quicvarint_Read (varint i @ r) = Ok (i, r)"
proof -
  have "i \<le> maxVarInt1 \<or> maxVarInt1 < i \<and> i \<le> maxVarInt2 \<or> maxVarInt2 < i \<and> i \<le> maxVarInt4
      \<or> maxVarInt4 < i \<and> i \<le> maxVarInt8"
    using assms by auto
  then show ?thesis
  proof (elim disjE conjE)
    assume "i \<le> maxVarInt1"
    then have "uint (ucast i :: byte) = uint i" "uint i < 64"
      by (simp_all add: maxVarInt_defs word_le_def unsigned_ucast_eq take_bit_int_eq_self)
    moreover from this have "unat (ucast i :: byte) div 64 = 0"
      by (simp add: unat_less_iff_uint)
    moreover from calculation have "(ucast ((ucast i :: byte) AND 0x3f) :: u64) = i"
      by (intro word_uint_eqI) (simp add: unsigned_ucast_eq take_bit_int_eq_self value_bits)
    ultimately show ?thesis
      using \<open>i \<le> maxVarInt1\<close> by (simp add: varint_bytes quicvarint_Read_bytes)
  next
    assume "maxVarInt1 < i" "i \<le> maxVarInt2"
    then show ?thesis
      using quicvarint_Read_be [of "uint i" 1 "0x40" r]
      by (simp only: varint_bytes append_Cons) (simp add: maxVarInt_defs word_le_def)
  next
    assume "maxVarInt2 < i" "i \<le> maxVarInt4"
    then show ?thesis
      using quicvarint_Read_be [of "uint i" 3 "0x80" r]
      by (simp only: varint_bytes append_Cons) (simp add: maxVarInt_defs word_le_def)
  next
    assume "maxVarInt4 < i" "i \<le> maxVarInt8"
    then show ?thesis
      using quicvarint_Read_be [of "uint i" 7 "0xc0" r]
      by (simp only: varint_bytes append_Cons) (simp add: maxVarInt_defs word_le_def)
  qed
qed

subsection \<open>What a successful read returns\<close>

lemma quicvarint_Read_short:
  shows "quicvarint_Read [] = Err EOF"
    and "unat b1 div 64 = 1 \<Longrightarrow> length r < 1 \<Longrightarrow> quicvarint_Read (b1 # r) = Err EOF"
    and "unat b1 div 64 = 2 \<Longrightarrow> length r < 3 \<Longrightarrow> quicvarint_Read (b1 # r) = Err EOF"
    and "unat b1 div 64 = 3 \<Longrightarrow> length r < 7 \<Longrightarrow> quicvarint_Read (b1 # r) = Err EOF"
proof -
  show "quicvarint_Read [] = Err EOF"
    by (simp add: quicvarint_Read_def)
  show "unat b1 div 64 = 1 \<Longrightarrow> length r < 1 \<Longrightarrow> quicvarint_Read (b1 # r) = Err EOF"
    by (simp add: quicvarint_Read_def length_bits del: drop_bit_and)
  show "unat b1 div 64 = 2 \<Longrightarrow> length r < 3 \<Longrightarrow> quicvarint_Read (b1 # r) = Err EOF"
    by (cases r; cases "tl r"; cases "tl (tl r)")
      (auto simp: quicvarint_Read_def length_bits simp del: drop_bit_and)
  show "unat b1 div 64 = 3 \<Longrightarrow> length r < 7 \<Longrightarrow> quicvarint_Read (b1 # r) = Err EOF"
    by (cases r; cases "tl r"; cases "tl (tl r)"; cases "tl (tl (tl r))"; cases "tl (tl (tl (tl r)))";
        cases "tl (tl (tl (tl (tl r))))"; cases "tl (tl (tl (tl (tl (tl r)))))")
      (auto simp: quicvarint_Read_def length_bits simp del: drop_bit_and)
qed

lemma masked_value:
  assumes "length bs \<le> 7"
  shows "uint (word_of_int (be_val ((b1 AND 0x3f) # bs)) :: u64) < 64 * 256 ^ length bs"
proof -
  have "uint (b1 AND 0x3f) \<le> 63"
    unfolding value_bits by simp
  then have "uint (b1 AND 0x3f) * 256 ^ length bs \<le> 63 * 256 ^ length bs"
    by (rule mult_right_mono) simp
  with be_val_less [of bs] have "be_val ((b1 AND 0x3f) # bs) < 64 * 256 ^ length bs"
    by (simp only: be_val.simps)
  moreover have "uint (word_of_int n :: u64) \<le> n" if "0 \<le> n" for n
    using that by (simp add: uint_word_of_int zmod_le_nonneg_dividend)
  ultimately show ?thesis
    by (metis be_val_nonneg order_le_less_trans)
qed

lemma masked_fits:
  assumes "length bs \<le> 7"
  shows "word_of_int (be_val ((b1 AND 0x3f) # bs)) \<le> maxVarInt8"
proof -
  have "(64 :: int) * 256 ^ length bs \<le> 64 * 256 ^ 7"
    using assms by (intro mult_left_mono power_increasing) simp_all
  then have "uint (word_of_int (be_val ((b1 AND 0x3f) # bs)) :: u64) < 64 * 256 ^ 7"
    using masked_value [OF assms, of b1] by (rule order_less_le_trans [rotated])
  then show ?thesis
    by (simp add: maxVarInt_defs word_le_def del: be_val.simps)
qed

lemma quicvarint_Read_Cons:
  defines "k \<equiv> \<lambda>b1 :: byte. 2 ^ (unat b1 div 64) - 1"
  shows "quicvarint_Read (b1 # r) =
    (if length r < k b1 then Err EOF
     else Ok (word_of_int (be_val ((b1 AND 0x3f) # take (k b1) r)), drop (k b1) r))"
proof -
  from unat_byte_less [of b1] have "unat b1 div 64 < 4" by simp
  then consider (one) "unat b1 div 64 = 0" | (two) "unat b1 div 64 = 1"
    | (four) "unat b1 div 64 = 2" | (eight) "unat b1 div 64 = 3"
    by linarith
  then show ?thesis
  proof cases
    case one
    then show ?thesis
      by (simp add: k_def quicvarint_Read_bytes)
  next
    case two
    then show ?thesis
      by (cases r) (simp_all add: k_def quicvarint_Read_bytes quicvarint_Read_short del: be_val.simps)
  next
    case four
    have "\<not> length r < 3 \<Longrightarrow> \<exists>b2 b3 b4 r2. r = b2 # b3 # b4 # r2"
      by (auto simp: not_less eval_nat_numeral Suc_le_length_iff)
    then show ?thesis
      using four by (auto simp: k_def quicvarint_Read_bytes quicvarint_Read_short simp del: be_val.simps)
  next
    case eight
    have "\<not> length r < 7 \<Longrightarrow> \<exists>b2 b3 b4 b5 b6 b7 b8 r2. r = b2 # b3 # b4 # b5 # b6 # b7 # b8 # r2"
      by (auto simp: not_less eval_nat_numeral Suc_le_length_iff)
    then show ?thesis
      using eight by (auto simp: k_def quicvarint_Read_bytes quicvarint_Read_short simp del: be_val.simps)
  qed
qed

lemma quicvarint_Read_cases:
  obtains (eof) "quicvarint_Read r = Err EOF"
    | (read) bs r' i where "r = bs @ r'" "quicvarint_Read r = Ok (i, r')" "bs \<noteq> []" "i \<le> maxVarInt8"
proof (cases r)
  case Nil
  then show thesis using eof quicvarint_Read_short(1) by simp
next
  case (Cons b1 r1)
  define k :: nat where "k = 2 ^ (unat b1 div 64) - 1"
  from unat_byte_less [of b1] have "unat b1 div 64 \<le> 3" by simp
  then have "(2 :: nat) ^ (unat b1 div 64) \<le> 2 ^ 3"
    by (rule power_increasing) simp
  then have "length (take k r1) \<le> 7" by (simp add: k_def)
  then show thesis
    using eof read [of "b1 # take k r1" "drop k r1"] masked_fits [of "take k r1" b1]
      quicvarint_Read_Cons [of b1 r1, folded k_def]
    by (cases "length r1 < k") (simp_all add: Cons del: be_val.simps)
qed

lemma quicvarint_Read_OkD:
  assumes "quicvarint_Read r = Ok (i, r')"
  shows "i \<le> maxVarInt8" and "length r' < length r" and "\<exists>bs. r = bs @ r'"
  using assms by (cases r rule: quicvarint_Read_cases; force)+

lemma quicvarint_Read_no_panic [simp, no_panic]: "\<not> is_panic (quicvarint_Read r)"
  by (cases r rule: quicvarint_Read_cases) auto

lemma quicvarint_Read_Err: "quicvarint_Read r = Err e \<Longrightarrow> e = EOF"
  by (cases r rule: quicvarint_Read_cases) auto

subsection \<open>Encoding with a chosen length\<close>

lemma be_bytes_map:
  "map (\<lambda>j. ucast (drop_bit (8 * (l - 1 - j)) i)) [0 ..< l] = be_bytes l (uint (i :: u64))"
proof (induction l)
  case (Suc l)
  have "map (\<lambda>j. ucast (drop_bit (8 * (Suc l - 1 - j)) i)) [0 ..< Suc l] =
      ucast (drop_bit (8 * l) i) # map (\<lambda>j. ucast (drop_bit (8 * (l - 1 - j)) i)) [0 ..< l]"
  proof -
    have "[0 ..< Suc l] = 0 # map Suc [0 ..< l]"
      by (simp add: map_Suc_upt upt_conv_Cons del: upt_Suc)
    then show ?thesis by (simp add: comp_def del: upt_Suc)
  qed
  also have "(ucast (drop_bit (8 * l) i) :: byte) = word_of_int (uint i div 256 ^ l)"
    by (simp add: byte_of_word power_mult)
  finally show ?case
    using Suc by simp
qed simp

lemma be_bytes_pad: "0 \<le> n \<Longrightarrow> n < 256 ^ l \<Longrightarrow> be_bytes (k + l) n = replicate k 0 @ be_bytes l n"
proof (induction k)
  case (Suc k)
  then have "n < 256 ^ (k + l)"
    by (meson less_le_trans le_add2 one_le_numeral power_increasing)
  with Suc show ?case by simp
qed simp

lemma varint_length_bound:
  assumes "i \<le> maxVarInt8"
  shows "uint i < 64 * 256 ^ (length (varint i) - 1)" and "length (varint i) \<in> {1, 2, 4, 8}"
  using assms by (simp_all add: varint_def quicvarint_Append_def maxVarInt_defs word_le_def)

lemma quicvarint_AppendWithLen_Ok:
  assumes i: "i \<le> maxVarInt8" and len: "len \<in> {1, 2, 4, 8}" and le: "length (varint i) \<le> len"
  shows "\<exists>e. quicvarint_AppendWithLen b i (int len) = Ok (b @ e) \<and> length e = len
    \<and> quicvarint_Read (e @ r) = Ok (i, r)"
proof (cases "length (varint i) = len")
  case True
  then show ?thesis
    using i len by (auto simp: quicvarint_AppendWithLen_def)
next
  case False
  define l where "l = length (varint i)"
  define m :: byte where "m = (if len = 2 then 0x40 else if len = 4 then 0x80 else 0xc0)"
  define e where "e = m # be_bytes (len - 1) (uint i)"
  have l: "l < len" "0 < l"
    using False le length_varint_pos [OF i] by (simp_all add: l_def)
  have "uint i < 64 * 256 ^ (l - 1)"
    using varint_length_bound(1) [OF i] by (simp add: l_def)
  also have "\<dots> \<le> 256 * 256 ^ (l - 1)" by simp
  also have "\<dots> = 256 ^ l" using l by (simp flip: power_Suc)
  finally have less: "uint i < 256 ^ l" .
  also have "(256 :: int) ^ l \<le> 256 ^ (len - 1)"
    using l by (intro power_increasing) simp_all
  finally have "uint i < 256 ^ (len - 1)" .
  then have "quicvarint_Read (e @ r) = Ok (i, r)"
    using quicvarint_Read_be [of "uint i" "len - 1" m r] len l
    by (auto simp: e_def m_def simp del: be_bytes_numeral)
  moreover have "be_bytes (len - 1) (uint i) = replicate (len - 1 - l) 0 @ be_bytes l (uint i)"
    using be_bytes_pad [of "uint i" l "len - 1 - l"] less l by simp
  moreover have "map (\<lambda>j. 0) [1 ..< len - l] = replicate (len - 1 - l) (0 :: byte)"
    by (simp add: map_replicate_const)
  ultimately have "quicvarint_AppendWithLen b i (int len) = Ok (b @ e)"
    using i len l be_bytes_map [of l i]
    by (auto simp: quicvarint_AppendWithLen_def e_def m_def Let_def simp flip: l_def of_nat_diff
      simp del: be_bytes_numeral)
  then show ?thesis
    using \<open>quicvarint_Read (e @ r) = Ok (i, r)\<close> len by (auto simp: e_def)
qed

section \<open>Chained writes\<close>

text \<open>
  A frame is written by a sequence of \<^verbatim>\<open>b = quicvarint.Append(b, x)\<close> and
  \<^verbatim>\<open>b = append(b, xs...)\<close>, its length computed as a sum of
  \<^verbatim>\<open>quicvarint.Len(x)\<close>; a panic of one of them is the panic of the whole.
\<close>

definition appv :: "byte list outcome \<Rightarrow> u64 \<Rightarrow> byte list outcome" where
  "appv m i = bindr m (\<lambda>b. quicvarint_Append b i)"

definition appb :: "byte list outcome \<Rightarrow> byte list \<Rightarrow> byte list outcome" where
  "appb m xs = bindr m (\<lambda>b. Ok (b @ xs))"

definition addLen :: "int outcome \<Rightarrow> u64 \<Rightarrow> int outcome" where
  "addLen m i = bindr m (\<lambda>n. bindr (quicvarint_Len i) (\<lambda>l. Ok (n + l)))"

definition addInt :: "int outcome \<Rightarrow> int \<Rightarrow> int outcome" where
  "addInt m k = bindr m (\<lambda>n. Ok (n + k))"

text \<open>\<^verbatim>\<open>uint64(len(xs))\<close>\<close>

definition len64 :: "'a list \<Rightarrow> u64" where
  "len64 xs = to_u64 (int (length xs))"

text \<open>The numbers that fit into a varint, as \<^verbatim>\<open>uint64\<close> and as \<^verbatim>\<open>int64\<close>.\<close>

definition fits_u :: "u64 \<Rightarrow> bool" where
  "fits_u i \<longleftrightarrow> i \<le> maxVarInt8"

definition fits_i :: "int \<Rightarrow> bool" where
  "fits_i x \<longleftrightarrow> 0 \<le> x \<and> x < 2 ^ 62"

lemma appv_Ok [simp]: "fits_u i \<Longrightarrow> appv (Ok b) i = Ok (b @ varint i)"
  by (simp add: appv_def fits_u_def)

lemma appb_Ok [simp]: "appb (Ok b) xs = Ok (b @ xs)"
  by (simp add: appb_def)

lemma addLen_Ok [simp]: "fits_u i \<Longrightarrow> addLen (Ok n) i = Ok (n + int (length (varint i)))"
  by (simp add: addLen_def fits_u_def)

lemma addInt_Ok [simp]: "addInt (Ok n) k = Ok (n + k)"
  by (simp add: addInt_def)

lemma Read_varint_fits [simp]: "fits_u i \<Longrightarrow> quicvarint_Read (varint i @ r) = Ok (i, r)"
  by (simp add: fits_u_def)

lemma Read_varint_end [simp]: "fits_u i \<Longrightarrow> quicvarint_Read (varint i) = Ok (i, [])"
  using Read_varint_fits [of i "[]"] by simp

lemma fits_u_to_u64 [simp]: "fits_i x \<Longrightarrow> fits_u (to_u64 x)"
  by (simp add: fits_u_def fits_i_def maxVarInt8_def word_le_def)

lemma fits_i_to_i64 [simp]: "fits_i x \<Longrightarrow> to_i64 (to_u64 x) = x"
  by (simp add: fits_i_def)

lemma fits_i_uint: "fits_i x \<Longrightarrow> uint (to_u64 x) = x"
  by (simp add: fits_i_def)

lemma uint_len64: "fits_i (int (length xs)) \<Longrightarrow> uint (len64 xs) = int (length xs)"
  by (simp add: len64_def fits_i_uint)

lemma unat_len64: "fits_i (int (length xs)) \<Longrightarrow> unat (len64 xs) = length xs"
  using uint_len64 [of xs] by (simp add: unat_eq_nat_uint del: nat_uint_eq)

lemma fits_u_len64 [simp]: "fits_i (int (length xs)) \<Longrightarrow> fits_u (len64 xs)"
  by (simp add: len64_def)

lemma fits_u_Read: "quicvarint_Read r = Ok (i, r') \<Longrightarrow> fits_u i"
  by (simp add: fits_u_def quicvarint_Read_OkD)

lemma fits_i_Read: "quicvarint_Read r = Ok (i, r') \<Longrightarrow> fits_i (to_i64 i)"
  using quicvarint_Read_OkD(1) [of r i r']
  by (simp add: fits_i_def maxVarInt8_def word_le_def to_i64_uint)

lemma varint_1: "i \<le> 63 \<Longrightarrow> varint i = [ucast i]"
  by (simp add: varint_bytes maxVarInt1_def)

lemma Read_type_byte [simp]: "b < 64 \<Longrightarrow> quicvarint_Read (b # r) = Ok (ucast b, r)"
proof -
  assume "b < 64"
  then have "uint b < 64"
    by (simp add: word_less_def)
  then have "unat b div 64 = 0"
    by (simp add: unat_less_iff_uint)
  moreover have "b AND 0x3f = b"
    by (rule word_uint_eqI) (use \<open>uint b < 64\<close> in \<open>simp add: value_bits\<close>)
  ultimately show ?thesis
    by (simp add: quicvarint_Read_bytes)
qed

end
