(* ===== verification/Frames.thy ===== *)
theory Frames
  imports Varint
begin

text \<open>
  The frames of the wire format (\<^verbatim>\<open>internal/wire/*_frame.go\<close>) except ACK: for
  each frame struct a record, and its \<^verbatim>\<open>Append\<close>, \<^verbatim>\<open>Length\<close> and parse
  functions. The parse functions get the reader after the frame type was read. The
  last section states the contract of a frame codec as a locale and interprets it for
  every frame type.
\<close>

section \<open>Types of package protocol\<close>

type_synonym StreamID = int
type_synonym ByteCount = int
type_synonym PacketNumber = int
type_synonym StreamNum = int

definition MaxByteCount :: ByteCount where
  "MaxByteCount = 2 ^ 62 - 1"

definition MaxPacketBufferSize :: nat where
  "MaxPacketBufferSize = 1452"

definition MinStreamFrameBufferSize :: nat where
  "MinStreamFrameBufferSize = 128"

definition MaxConnIDLen :: nat where
  "MaxConnIDLen = 20"

datatype StreamType = StreamTypeUni | StreamTypeBidi

definition MaxStreamCount :: StreamNum where
  "MaxStreamCount = 2 ^ 60"

text \<open>
  A \<^verbatim>\<open>protocol.ConnectionID\<close> holds a length of at most 20 and as many bytes; the
  model keeps the bytes.
\<close>

type_synonym ConnectionID = "byte list"

definition ReadConnectionID :: "reader \<Rightarrow> nat \<Rightarrow> (ConnectionID \<times> reader) outcome" where
  "ReadConnectionID r l =
     (if l = 0 then Ok ([], r)
      else if l > MaxConnIDLen then Err (ErrorString ''invalid Connection ID length'')
      else case ReadFull r l of
        Err UnexpectedEOF \<Rightarrow> Err EOF
      | res \<Rightarrow> res)"

section \<open>Frames carrying numbers only\<close>

record MaxDataFrame =
  mdf_MaximumData :: ByteCount

definition parseMaxDataFrame :: "reader \<Rightarrow> (MaxDataFrame \<times> reader) outcome" where
  "parseMaxDataFrame r =
     bindr (quicvarint_Read r) (\<lambda>(byteOffset, r).
     Ok (\<lparr>mdf_MaximumData = to_i64 byteOffset\<rparr>, r))"

definition MaxDataFrame_Append :: "byte list \<Rightarrow> MaxDataFrame \<Rightarrow> byte list outcome" where
  "MaxDataFrame_Append b f = appv (Ok (b @ [0x10])) (to_u64 (mdf_MaximumData f))"

definition MaxDataFrame_Length :: "MaxDataFrame \<Rightarrow> int outcome" where
  "MaxDataFrame_Length f = addLen (Ok 1) (to_u64 (mdf_MaximumData f))"

record MaxStreamDataFrame =
  msdf_StreamID :: StreamID
  msdf_MaximumStreamData :: ByteCount

definition parseMaxStreamDataFrame :: "reader \<Rightarrow> (MaxStreamDataFrame \<times> reader) outcome" where
  "parseMaxStreamDataFrame r =
     bindr (quicvarint_Read r) (\<lambda>(sid, r).
     bindr (quicvarint_Read r) (\<lambda>(offset, r).
     Ok (\<lparr>msdf_StreamID = to_i64 sid, msdf_MaximumStreamData = to_i64 offset\<rparr>, r)))"

definition MaxStreamDataFrame_Append :: "byte list \<Rightarrow> MaxStreamDataFrame \<Rightarrow> byte list outcome" where
  "MaxStreamDataFrame_Append b f =
     appv (appv (Ok (b @ [0x11])) (to_u64 (msdf_StreamID f))) (to_u64 (msdf_MaximumStreamData f))"

definition MaxStreamDataFrame_Length :: "MaxStreamDataFrame \<Rightarrow> int outcome" where
  "MaxStreamDataFrame_Length f =
     addLen (addLen (Ok 1) (to_u64 (msdf_StreamID f))) (to_u64 (msdf_MaximumStreamData f))"

record MaxStreamsFrame =
  msf_Type :: StreamType
  msf_MaxStreamNum :: StreamNum

text \<open>The zero value of \<^verbatim>\<open>StreamType\<close> is \<^verbatim>\<open>StreamTypeUni\<close>.\<close>

definition parseMaxStreamsFrame :: "u64 \<Rightarrow> reader \<Rightarrow> (MaxStreamsFrame \<times> reader) outcome" where
  "parseMaxStreamsFrame typ r =
     (let t = (if typ = 0x12 then StreamTypeBidi
               else if typ = 0x13 then StreamTypeUni
               else StreamTypeUni) in
     bindr (quicvarint_Read r) (\<lambda>(streamID, r).
     let n = to_i64 streamID in
     if n > MaxStreamCount then Err (ErrorString ''exceeds the maximum stream count'')
     else Ok (\<lparr>msf_Type = t, msf_MaxStreamNum = n\<rparr>, r)))"

definition MaxStreamsFrame_Append :: "byte list \<Rightarrow> MaxStreamsFrame \<Rightarrow> byte list outcome" where
  "MaxStreamsFrame_Append b f =
     (let b = (case msf_Type f of
                 StreamTypeBidi \<Rightarrow> b @ [0x12]
               | StreamTypeUni \<Rightarrow> b @ [0x13])
      in appv (Ok b) (to_u64 (msf_MaxStreamNum f)))"

definition MaxStreamsFrame_Length :: "MaxStreamsFrame \<Rightarrow> int outcome" where
  "MaxStreamsFrame_Length f = addLen (Ok 1) (to_u64 (msf_MaxStreamNum f))"

record DataBlockedFrame =
  dbf_MaximumData :: ByteCount

definition parseDataBlockedFrame :: "reader \<Rightarrow> (DataBlockedFrame \<times> reader) outcome" where
  "parseDataBlockedFrame r =
     bindr (quicvarint_Read r) (\<lambda>(offset, r).
     Ok (\<lparr>dbf_MaximumData = to_i64 offset\<rparr>, r))"

definition DataBlockedFrame_Append :: "byte list \<Rightarrow> DataBlockedFrame \<Rightarrow> byte list outcome" where
  "DataBlockedFrame_Append b f = appv (Ok (b @ [0x14])) (to_u64 (dbf_MaximumData f))"

definition DataBlockedFrame_Length :: "DataBlockedFrame \<Rightarrow> int outcome" where
  "DataBlockedFrame_Length f = addLen (Ok 1) (to_u64 (dbf_MaximumData f))"

record StreamDataBlockedFrame =
  sdbf_StreamID :: StreamID
  sdbf_MaximumStreamData :: ByteCount

definition parseStreamDataBlockedFrame :: "reader \<Rightarrow> (StreamDataBlockedFrame \<times> reader) outcome" where
  "parseStreamDataBlockedFrame r =
     bindr (quicvarint_Read r) (\<lambda>(sid, r).
     bindr (quicvarint_Read r) (\<lambda>(offset, r).
     Ok (\<lparr>sdbf_StreamID = to_i64 sid, sdbf_MaximumStreamData = to_i64 offset\<rparr>, r)))"

definition StreamDataBlockedFrame_Append ::
    "byte list \<Rightarrow> StreamDataBlockedFrame \<Rightarrow> byte list outcome" where
  "StreamDataBlockedFrame_Append b f =
     appv (appv (Ok (b @ [0x15])) (to_u64 (sdbf_StreamID f))) (to_u64 (sdbf_MaximumStreamData f))"

definition StreamDataBlockedFrame_Length :: "StreamDataBlockedFrame \<Rightarrow> int outcome" where
  "StreamDataBlockedFrame_Length f =
     addLen (addLen (Ok 1) (to_u64 (sdbf_StreamID f))) (to_u64 (sdbf_MaximumStreamData f))"

record StreamsBlockedFrame =
  sbf_Type :: StreamType
  sbf_StreamLimit :: StreamNum

definition parseStreamsBlockedFrame :: "u64 \<Rightarrow> reader \<Rightarrow> (StreamsBlockedFrame \<times> reader) outcome" where
  "parseStreamsBlockedFrame typ r =
     (let t = (if typ = 0x16 then StreamTypeBidi
               else if typ = 0x17 then StreamTypeUni
               else StreamTypeUni) in
     bindr (quicvarint_Read r) (\<lambda>(streamLimit, r).
     let n = to_i64 streamLimit in
     if n > MaxStreamCount then Err (ErrorString ''exceeds the maximum stream count'')
     else Ok (\<lparr>sbf_Type = t, sbf_StreamLimit = n\<rparr>, r)))"

definition StreamsBlockedFrame_Append :: "byte list \<Rightarrow> StreamsBlockedFrame \<Rightarrow> byte list outcome" where
  "StreamsBlockedFrame_Append b f =
     (let b = (case sbf_Type f of
                 StreamTypeBidi \<Rightarrow> b @ [0x16]
               | StreamTypeUni \<Rightarrow> b @ [0x17])
      in appv (Ok b) (to_u64 (sbf_StreamLimit f)))"

definition StreamsBlockedFrame_Length :: "StreamsBlockedFrame \<Rightarrow> int outcome" where
  "StreamsBlockedFrame_Length f = addLen (Ok 1) (to_u64 (sbf_StreamLimit f))"

record ResetStreamFrame =
  rsf_StreamID :: StreamID
  rsf_ErrorCode :: u64
  rsf_FinalSize :: ByteCount

definition parseResetStreamFrame :: "reader \<Rightarrow> (ResetStreamFrame \<times> reader) outcome" where
  "parseResetStreamFrame r =
     bindr (quicvarint_Read r) (\<lambda>(sid, r).
     bindr (quicvarint_Read r) (\<lambda>(errorCode, r).
     bindr (quicvarint_Read r) (\<lambda>(bo, r).
     Ok (\<lparr>rsf_StreamID = to_i64 sid, rsf_ErrorCode = errorCode, rsf_FinalSize = to_i64 bo\<rparr>, r))))"

definition ResetStreamFrame_Append :: "byte list \<Rightarrow> ResetStreamFrame \<Rightarrow> byte list outcome" where
  "ResetStreamFrame_Append b f =
     appv (appv (appv (Ok (b @ [0x4])) (to_u64 (rsf_StreamID f))) (rsf_ErrorCode f))
       (to_u64 (rsf_FinalSize f))"

definition ResetStreamFrame_Length :: "ResetStreamFrame \<Rightarrow> int outcome" where
  "ResetStreamFrame_Length f =
     addLen (addLen (addLen (Ok 1) (to_u64 (rsf_StreamID f))) (rsf_ErrorCode f))
       (to_u64 (rsf_FinalSize f))"

record StopSendingFrame =
  ssf_StreamID :: StreamID
  ssf_ErrorCode :: u64

definition parseStopSendingFrame :: "reader \<Rightarrow> (StopSendingFrame \<times> reader) outcome" where
  "parseStopSendingFrame r =
     bindr (quicvarint_Read r) (\<lambda>(streamID, r).
     bindr (quicvarint_Read r) (\<lambda>(errorCode, r).
     Ok (\<lparr>ssf_StreamID = to_i64 streamID, ssf_ErrorCode = errorCode\<rparr>, r)))"

definition StopSendingFrame_Append :: "byte list \<Rightarrow> StopSendingFrame \<Rightarrow> byte list outcome" where
  "StopSendingFrame_Append b f =
     appv (appv (Ok (b @ [0x5])) (to_u64 (ssf_StreamID f))) (ssf_ErrorCode f)"

definition StopSendingFrame_Length :: "StopSendingFrame \<Rightarrow> int outcome" where
  "StopSendingFrame_Length f = addLen (addLen (Ok 1) (to_u64 (ssf_StreamID f))) (ssf_ErrorCode f)"

record RetireConnectionIDFrame =
  rcif_SequenceNumber :: u64

definition parseRetireConnectionIDFrame :: "reader \<Rightarrow> (RetireConnectionIDFrame \<times> reader) outcome" where
  "parseRetireConnectionIDFrame r =
     bindr (quicvarint_Read r) (\<lambda>(seq, r). Ok (\<lparr>rcif_SequenceNumber = seq\<rparr>, r))"

definition RetireConnectionIDFrame_Append ::
    "byte list \<Rightarrow> RetireConnectionIDFrame \<Rightarrow> byte list outcome" where
  "RetireConnectionIDFrame_Append b f = appv (Ok (b @ [0x19])) (rcif_SequenceNumber f)"

definition RetireConnectionIDFrame_Length :: "RetireConnectionIDFrame \<Rightarrow> int outcome" where
  "RetireConnectionIDFrame_Length f = addLen (Ok 1) (rcif_SequenceNumber f)"

text \<open>
  The fields of the FEC window frame are narrower than a varint: the conversions
  \<^verbatim>\<open>FECWindowEpoch(epoch)\<close> (16 bits) and \<^verbatim>\<open>FECWindowSize(size)\<close> (32 bits)
  drop the high bits.
\<close>

record FECWindowFrame =
  fwf_Epoch :: "16 word"
  fwf_Size :: "32 word"

definition FECWindowFrameType :: u64 where
  "FECWindowFrameType = 0x32a80fecc0"

definition parseFECWindowFrame :: "reader \<Rightarrow> (FECWindowFrame \<times> reader) outcome" where
  "parseFECWindowFrame r =
     bindr (quicvarint_Read r) (\<lambda>(epoch, r).
     bindr (quicvarint_Read r) (\<lambda>(size, r).
     Ok (\<lparr>fwf_Epoch = ucast epoch, fwf_Size = ucast size\<rparr>, r)))"

definition FECWindowFrame_Append :: "byte list \<Rightarrow> FECWindowFrame \<Rightarrow> byte list outcome" where
  "FECWindowFrame_Append b f =
     appv (appv (appv (Ok b) FECWindowFrameType) (ucast (fwf_Epoch f))) (ucast (fwf_Size f))"

definition FECWindowFrame_Length :: "FECWindowFrame \<Rightarrow> int outcome" where
  "FECWindowFrame_Length f =
     addLen (addLen (addLen (Ok 0) FECWindowFrameType) (ucast (fwf_Epoch f))) (ucast (fwf_Size f))"

section \<open>Frames carrying bytes\<close>

text \<open>
  Several parsers read into a fixed-size array and turn \<^verbatim>\<open>io.ErrUnexpectedEOF\<close>
  into \<^verbatim>\<open>io.EOF\<close>.
\<close>

definition ReadFullEOF :: "reader \<Rightarrow> nat \<Rightarrow> (byte list \<times> reader) outcome" where
  "ReadFullEOF r n =
     (case ReadFull r n of
        Err UnexpectedEOF \<Rightarrow> Err EOF
      | res \<Rightarrow> res)"

record CryptoFrame =
  cf_Offset :: ByteCount
  cf_Data :: "byte list"

definition parseCryptoFrame :: "reader \<Rightarrow> (CryptoFrame \<times> reader) outcome" where
  "parseCryptoFrame r =
     bindr (quicvarint_Read r) (\<lambda>(offset, r).
     bindr (quicvarint_Read r) (\<lambda>(dataLen, r).
     if uint dataLen > int (length r) then Err EOF
     else bindr (if dataLen \<noteq> 0 then ReadFull r (unat dataLen) else Ok ([], r)) (\<lambda>(dat, r).
       Ok (\<lparr>cf_Offset = to_i64 offset, cf_Data = dat\<rparr>, r))))"

definition CryptoFrame_Append :: "byte list \<Rightarrow> CryptoFrame \<Rightarrow> byte list outcome" where
  "CryptoFrame_Append b f =
     appb (appv (appv (Ok (b @ [0x6])) (to_u64 (cf_Offset f))) (len64 (cf_Data f))) (cf_Data f)"

definition CryptoFrame_Length :: "CryptoFrame \<Rightarrow> int outcome" where
  "CryptoFrame_Length f =
     addInt (addLen (addLen (Ok 1) (to_u64 (cf_Offset f))) (len64 (cf_Data f)))
       (int (length (cf_Data f)))"

definition CryptoFrame_MaxDataLen :: "CryptoFrame \<Rightarrow> ByteCount \<Rightarrow> int outcome" where
  "CryptoFrame_MaxDataLen f maxSize =
     bindr (addInt (addLen (Ok 1) (to_u64 (cf_Offset f))) 1) (\<lambda>headerLen.
     if headerLen > maxSize then Ok 0
     else let maxDataLen = maxSize - headerLen in
       bindr (quicvarint_Len (to_u64 maxDataLen)) (\<lambda>l.
       Ok (if l \<noteq> 1 then maxDataLen - 1 else maxDataLen)))"

text \<open>
  \<^verbatim>\<open>MaybeSplitOffFrame\<close> returns the new frame (if any), whether splitting was
  required, and the receiver as it is left behind. The slice expressions panic when
  the data is shorter than \<open>n\<close>.
\<close>

definition CryptoFrame_MaybeSplitOffFrame ::
    "CryptoFrame \<Rightarrow> ByteCount \<Rightarrow> (CryptoFrame option \<times> bool \<times> CryptoFrame) outcome" where
  "CryptoFrame_MaybeSplitOffFrame f maxSize =
     bindr (CryptoFrame_Length f) (\<lambda>len.
     if len \<le> maxSize then Ok (None, False, f)
     else bindr (CryptoFrame_MaxDataLen f maxSize) (\<lambda>n.
       if n = 0 then Ok (None, True, f)
       else if n > int (length (cf_Data f)) then Panic ''makeslice: len out of range''
       else Ok (Some \<lparr>cf_Offset = cf_Offset f, cf_Data = take (nat n) (cf_Data f)\<rparr>, True,
                \<lparr>cf_Offset = cf_Offset f + n, cf_Data = drop (nat n) (cf_Data f)\<rparr>)))"

record StreamFrame =
  sf_StreamID :: StreamID
  sf_Offset :: ByteCount
  sf_Data :: "byte list"
  sf_Fin :: bool
  sf_DataLenPresent :: bool
  sf_fromPool :: bool
  sf_FECProtected :: bool

text \<open>
  Frames whose data is at least 128 bytes long come from the pool, whose buffers have a
  capacity of \<open>MaxPacketBufferSize\<close>; \<^verbatim>\<open>GetStreamFrame\<close> resets \<open>FECProtected\<close>.
\<close>

definition parseStreamFrame :: "u64 \<Rightarrow> reader \<Rightarrow> (StreamFrame \<times> reader) outcome" where
  "parseStreamFrame typ r =
     (let hasOffset = (typ AND 0b100 > 0);
          fin = (typ AND 0b1 > 0);
          hasDataLen = (typ AND 0b10 > 0) in
     bindr (quicvarint_Read r) (\<lambda>(streamID, r).
     bindr (if hasOffset then quicvarint_Read r else Ok (0, r)) (\<lambda>(offset, r).
     bindr (if hasDataLen then quicvarint_Read r else Ok (len64 r, r)) (\<lambda>(dataLen, r).
     bindr (if uint dataLen < int MinStreamFrameBufferSize then Ok False
            else if uint dataLen > int MaxPacketBufferSize then Err EOF
            else Ok True) (\<lambda>fromPool.
     bindr (if dataLen \<noteq> 0 then ReadFull r (unat dataLen) else Ok ([], r)) (\<lambda>(dat, r).
     if to_i64 offset + int (length dat) > MaxByteCount
     then Err (ErrorString ''stream data overflows maximum offset'')
     else Ok (\<lparr>sf_StreamID = to_i64 streamID, sf_Offset = to_i64 offset, sf_Data = dat,
               sf_Fin = fin, sf_DataLenPresent = hasDataLen, sf_fromPool = fromPool,
               sf_FECProtected = False\<rparr>, r)))))))"

definition StreamFrame_DataLen :: "StreamFrame \<Rightarrow> ByteCount" where
  "StreamFrame_DataLen f = int (length (sf_Data f))"

definition StreamFrame_Append :: "byte list \<Rightarrow> StreamFrame \<Rightarrow> byte list outcome" where
  "StreamFrame_Append b f =
     (if length (sf_Data f) = 0 \<and> \<not> sf_Fin f
      then Err (ErrorString ''StreamFrame: attempting to write empty frame without FIN'')
      else
        let typ = 0x8;
            typ = (if sf_Fin f then typ XOR 0b1 else typ);
            hasOffset = (sf_Offset f \<noteq> 0);
            typ = (if sf_DataLenPresent f then typ XOR 0b10 else typ);
            typ = (if hasOffset then typ XOR 0b100 else typ);
            b = appv (Ok (b @ [typ])) (to_u64 (sf_StreamID f));
            b = (if hasOffset then appv b (to_u64 (sf_Offset f)) else b);
            b = (if sf_DataLenPresent f then appv b (to_u64 (StreamFrame_DataLen f)) else b)
        in appb b (sf_Data f))"

definition StreamFrame_Length :: "StreamFrame \<Rightarrow> int outcome" where
  "StreamFrame_Length f =
     (let len = addLen (Ok 1) (to_u64 (sf_StreamID f));
          len = (if sf_Offset f \<noteq> 0 then addLen len (to_u64 (sf_Offset f)) else len);
          len = (if sf_DataLenPresent f then addLen len (to_u64 (StreamFrame_DataLen f)) else len)
      in addInt len (StreamFrame_DataLen f))"

definition StreamFrame_MaxDataLen :: "StreamFrame \<Rightarrow> ByteCount \<Rightarrow> int outcome" where
  "StreamFrame_MaxDataLen f maxSize =
     (let headerLen = addLen (Ok 1) (to_u64 (sf_StreamID f));
          headerLen = (if sf_Offset f \<noteq> 0 then addLen headerLen (to_u64 (sf_Offset f)) else headerLen);
          headerLen = (if sf_DataLenPresent f then addInt headerLen 1 else headerLen) in
      bindr headerLen (\<lambda>headerLen.
      if headerLen > maxSize then Ok 0
      else let maxDataLen = maxSize - headerLen in
        if sf_DataLenPresent f then
          bindr (quicvarint_Len (to_u64 maxDataLen)) (\<lambda>l.
          Ok (if l \<noteq> 1 then maxDataLen - 1 else maxDataLen))
        else Ok maxDataLen))"

text \<open>
  The split-off frame takes over the data slice and the pool flag; what stays behind is
  copied into a pool buffer, so that more than \<open>MaxPacketBufferSize\<close> bytes do not fit.
\<close>

definition StreamFrame_MaybeSplitOffFrame ::
    "StreamFrame \<Rightarrow> ByteCount \<Rightarrow> (StreamFrame option \<times> bool \<times> StreamFrame) outcome" where
  "StreamFrame_MaybeSplitOffFrame f maxSize =
     bindr (StreamFrame_Length f) (\<lambda>len.
     if maxSize \<ge> len then Ok (None, False, f)
     else bindr (StreamFrame_MaxDataLen f maxSize) (\<lambda>n.
       if n = 0 then Ok (None, True, f)
       else
         let rest = int (length (sf_Data f)) - n in
         if rest < 0 \<or> rest > int MaxPacketBufferSize then Panic ''slice bounds out of range''
         else Ok (Some \<lparr>sf_StreamID = sf_StreamID f, sf_Offset = sf_Offset f,
                        sf_Data = take (nat n) (sf_Data f), sf_Fin = False,
                        sf_DataLenPresent = sf_DataLenPresent f, sf_fromPool = sf_fromPool f,
                        sf_FECProtected = False\<rparr>, True,
                  f\<lparr>sf_Data := drop (nat n) (sf_Data f), sf_Offset := sf_Offset f + n,
                    sf_fromPool := True\<rparr>)))"

record DatagramFrame =
  df_DataLenPresent :: bool
  df_Data :: "byte list"
  df_FECProtected :: bool

definition parseDatagramFrame :: "u64 \<Rightarrow> reader \<Rightarrow> (DatagramFrame \<times> reader) outcome" where
  "parseDatagramFrame typ r =
     (let dataLenPresent = (typ AND 0x1 > 0) in
     bindr (if dataLenPresent then
              bindr (quicvarint_Read r) (\<lambda>(len, r).
              if uint len > int (length r) then Err EOF else Ok (len, r))
            else Ok (len64 r, r)) (\<lambda>(len, r).
     bindr (ReadFull r (unat len)) (\<lambda>(dat, r).
     Ok (\<lparr>df_DataLenPresent = dataLenPresent, df_Data = dat, df_FECProtected = False\<rparr>, r))))"

definition DatagramFrame_Append :: "byte list \<Rightarrow> DatagramFrame \<Rightarrow> byte list outcome" where
  "DatagramFrame_Append b f =
     (let typ = 0x30;
          typ = (if df_DataLenPresent f then typ XOR 0b1 else typ);
          b = Ok (b @ [typ]);
          b = (if df_DataLenPresent f then appv b (len64 (df_Data f)) else b)
      in appb b (df_Data f))"

definition DatagramFrame_MaxDataLen :: "DatagramFrame \<Rightarrow> ByteCount \<Rightarrow> int outcome" where
  "DatagramFrame_MaxDataLen f maxSize =
     (let headerLen = (if df_DataLenPresent f then 2 else 1) in
      if headerLen > maxSize then Ok 0
      else let maxDataLen = maxSize - headerLen in
        if df_DataLenPresent f then
          bindr (quicvarint_Len (to_u64 maxDataLen)) (\<lambda>l.
          Ok (if l \<noteq> 1 then maxDataLen - 1 else maxDataLen))
        else Ok maxDataLen)"

definition DatagramFrame_Length :: "DatagramFrame \<Rightarrow> int outcome" where
  "DatagramFrame_Length f =
     (let len = Ok (1 + int (length (df_Data f)))
      in if df_DataLenPresent f then addLen len (len64 (df_Data f)) else len)"

record NewTokenFrame =
  ntf_Token :: "byte list"

definition parseNewTokenFrame :: "reader \<Rightarrow> (NewTokenFrame \<times> reader) outcome" where
  "parseNewTokenFrame r =
     bindr (quicvarint_Read r) (\<lambda>(tokenLen, r).
     if int (length r) < uint tokenLen then Err EOF
     else if tokenLen = 0 then Err (ErrorString ''token must not be empty'')
     else bindr (ReadFull r (unat tokenLen)) (\<lambda>(token, r). Ok (\<lparr>ntf_Token = token\<rparr>, r)))"

definition NewTokenFrame_Append :: "byte list \<Rightarrow> NewTokenFrame \<Rightarrow> byte list outcome" where
  "NewTokenFrame_Append b f = appb (appv (Ok (b @ [0x7])) (len64 (ntf_Token f))) (ntf_Token f)"

definition NewTokenFrame_Length :: "NewTokenFrame \<Rightarrow> int outcome" where
  "NewTokenFrame_Length f = addInt (addLen (Ok 1) (len64 (ntf_Token f))) (int (length (ntf_Token f)))"

record NewConnectionIDFrame =
  ncif_SequenceNumber :: u64
  ncif_RetirePriorTo :: u64
  ncif_ConnectionID :: ConnectionID
  ncif_StatelessResetToken :: "byte list"

definition parseNewConnectionIDFrame :: "reader \<Rightarrow> (NewConnectionIDFrame \<times> reader) outcome" where
  "parseNewConnectionIDFrame r =
     bindr (quicvarint_Read r) (\<lambda>(seq, r).
     bindr (quicvarint_Read r) (\<lambda>(ret, r).
     if ret > seq then Err (ErrorString ''Retire Prior To value larger than Sequence Number'')
     else bindr (ReadByte r) (\<lambda>(connIDLen, r).
     if connIDLen = 0 then Err (ErrorString ''invalid zero-length connection ID'')
     else bindr (ReadConnectionID r (unat connIDLen)) (\<lambda>(connID, r).
     bindr (ReadFullEOF r 16) (\<lambda>(token, r).
     Ok (\<lparr>ncif_SequenceNumber = seq, ncif_RetirePriorTo = ret, ncif_ConnectionID = connID,
          ncif_StatelessResetToken = token\<rparr>, r))))))"

definition NewConnectionIDFrame_Append :: "byte list \<Rightarrow> NewConnectionIDFrame \<Rightarrow> byte list outcome" where
  "NewConnectionIDFrame_Append b f =
     bindr (appv (appv (Ok (b @ [0x18])) (ncif_SequenceNumber f)) (ncif_RetirePriorTo f)) (\<lambda>b.
     let connIDLen = length (ncif_ConnectionID f) in
     if connIDLen > MaxConnIDLen then Err (ErrorString ''invalid connection ID length'')
     else Ok (b @ [of_nat connIDLen] @ ncif_ConnectionID f @ ncif_StatelessResetToken f))"

definition NewConnectionIDFrame_Length :: "NewConnectionIDFrame \<Rightarrow> int outcome" where
  "NewConnectionIDFrame_Length f =
     addInt (addLen (addLen (Ok 1) (ncif_SequenceNumber f)) (ncif_RetirePriorTo f))
       (1 + int (length (ncif_ConnectionID f)) + 16)"

record PathChallengeFrame =
  pcf_Data :: "byte list"

definition parsePathChallengeFrame :: "reader \<Rightarrow> (PathChallengeFrame \<times> reader) outcome" where
  "parsePathChallengeFrame r =
     bindr (ReadFullEOF r 8) (\<lambda>(dat, r). Ok (\<lparr>pcf_Data = dat\<rparr>, r))"

definition PathChallengeFrame_Append :: "byte list \<Rightarrow> PathChallengeFrame \<Rightarrow> byte list outcome" where
  "PathChallengeFrame_Append b f = Ok (b @ [0x1a] @ pcf_Data f)"

definition PathChallengeFrame_Length :: "PathChallengeFrame \<Rightarrow> int outcome" where
  "PathChallengeFrame_Length f = Ok (1 + 8)"

record PathResponseFrame =
  prf_Data :: "byte list"

definition parsePathResponseFrame :: "reader \<Rightarrow> (PathResponseFrame \<times> reader) outcome" where
  "parsePathResponseFrame r =
     bindr (ReadFullEOF r 8) (\<lambda>(dat, r). Ok (\<lparr>prf_Data = dat\<rparr>, r))"

definition PathResponseFrame_Append :: "byte list \<Rightarrow> PathResponseFrame \<Rightarrow> byte list outcome" where
  "PathResponseFrame_Append b f = Ok (b @ [0x1b] @ prf_Data f)"

definition PathResponseFrame_Length :: "PathResponseFrame \<Rightarrow> int outcome" where
  "PathResponseFrame_Length f = Ok (1 + 8)"

record ConnectionCloseFrame =
  ccf_IsApplicationError :: bool
  ccf_ErrorCode :: u64
  ccf_FrameType :: u64
  ccf_ReasonPhrase :: "byte list"

definition parseConnectionCloseFrame :: "u64 \<Rightarrow> reader \<Rightarrow> (ConnectionCloseFrame \<times> reader) outcome" where
  "parseConnectionCloseFrame typ r =
     (let isApplicationError = (typ = 0x1d) in
     bindr (quicvarint_Read r) (\<lambda>(ec, r).
     bindr (if \<not> isApplicationError then quicvarint_Read r else Ok (0, r)) (\<lambda>(ft, r).
     bindr (quicvarint_Read r) (\<lambda>(reasonPhraseLen, r).
     if to_i64 reasonPhraseLen > int (length r) then Err EOF
     else bindr (ReadFull r (unat reasonPhraseLen)) (\<lambda>(reasonPhrase, r).
     Ok (\<lparr>ccf_IsApplicationError = isApplicationError, ccf_ErrorCode = ec, ccf_FrameType = ft,
          ccf_ReasonPhrase = reasonPhrase\<rparr>, r))))))"

definition ConnectionCloseFrame_Append :: "byte list \<Rightarrow> ConnectionCloseFrame \<Rightarrow> byte list outcome" where
  "ConnectionCloseFrame_Append b f =
     (let b = (if ccf_IsApplicationError f then b @ [0x1d] else b @ [0x1c]);
          b = appv (Ok b) (ccf_ErrorCode f);
          b = (if \<not> ccf_IsApplicationError f then appv b (ccf_FrameType f) else b)
      in appb (appv b (len64 (ccf_ReasonPhrase f))) (ccf_ReasonPhrase f))"

definition ConnectionCloseFrame_Length :: "ConnectionCloseFrame \<Rightarrow> int outcome" where
  "ConnectionCloseFrame_Length f =
     (let len = addInt (addLen (addLen (Ok 1) (ccf_ErrorCode f)) (len64 (ccf_ReasonPhrase f)))
                  (int (length (ccf_ReasonPhrase f)))
      in if \<not> ccf_IsApplicationError f then addLen len (ccf_FrameType f) else len)"

text \<open>PING and HANDSHAKE\_DONE have no fields: their structs are empty.\<close>

definition PingFrame_Append :: "byte list \<Rightarrow> unit \<Rightarrow> byte list outcome" where
  "PingFrame_Append b f = Ok (b @ [0x1])"

definition PingFrame_Length :: "unit \<Rightarrow> int outcome" where
  "PingFrame_Length f = Ok 1"

definition HandshakeDoneFrame_Append :: "byte list \<Rightarrow> unit \<Rightarrow> byte list outcome" where
  "HandshakeDoneFrame_Append b f = Ok (b @ [0x1e])"

definition HandshakeDoneFrame_Length :: "unit \<Rightarrow> int outcome" where
  "HandshakeDoneFrame_Length f = Ok 1"

section \<open>FEC frames\<close>

record BlockMetadata =
  bm_BlockID :: u64
  bm_ParityID :: u64

record RepairFrame =
  rf_Metadata :: BlockMetadata
  rf_Payload :: "byte list"

definition repairFrameType :: u64 where
  "repairFrameType = 0x32a80fec"

definition parseRepairFrame :: "reader \<Rightarrow> (RepairFrame \<times> reader) outcome" where
  "parseRepairFrame r =
     bindr (quicvarint_Read r) (\<lambda>(blockID, r).
     bindr (quicvarint_Read r) (\<lambda>(parityID, r).
     bindr (quicvarint_Read r) (\<lambda>(payloadLen, r).
     if uint payloadLen > int (length r) then Err EOF
     else bindr (if payloadLen \<noteq> 0 then ReadFull r (unat payloadLen) else Ok ([], r)) (\<lambda>(payload, r).
     Ok (\<lparr>rf_Metadata = \<lparr>bm_BlockID = blockID, bm_ParityID = parityID\<rparr>, rf_Payload = payload\<rparr>, r)))))"

definition RepairFrame_Append :: "byte list \<Rightarrow> RepairFrame \<Rightarrow> byte list outcome" where
  "RepairFrame_Append b f =
     appb (appv (appv (appv (appv (Ok b) repairFrameType)
       (bm_BlockID (rf_Metadata f))) (bm_ParityID (rf_Metadata f))) (len64 (rf_Payload f)))
       (rf_Payload f)"

definition RepairFrame_Length :: "RepairFrame \<Rightarrow> int outcome" where
  "RepairFrame_Length f =
     addInt (addLen (addLen (addLen (addLen (Ok 0) repairFrameType)
       (bm_BlockID (rf_Metadata f))) (bm_ParityID (rf_Metadata f))) (len64 (rf_Payload f)))
       (int (length (rf_Payload f)))"

record SourceSymbolFrame =
  ss_SSID :: u64
  ss_Payload :: "byte list"

definition sourceSymbolFrameType :: u64 where
  "sourceSymbolFrameType = 0x32a80fec55"

text \<open>
  \<^verbatim>\<open>make([]byte, payloadLen, protocol.MaxPacketBufferSize)\<close> panics when the length
  is larger than the capacity.
\<close>

definition ParseSourceSymbolFrame :: "reader \<Rightarrow> (SourceSymbolFrame \<times> reader) outcome" where
  "ParseSourceSymbolFrame r =
     bindr (quicvarint_Read r) (\<lambda>(sid, r).
     bindr (quicvarint_Read r) (\<lambda>(payloadLen, r).
     if uint payloadLen > int (length r) then Err EOF
     else bindr (if payloadLen \<noteq> 0 then
                   (if uint payloadLen > int MaxPacketBufferSize
                    then Panic ''makeslice: cap out of range''
                    else ReadFull r (unat payloadLen))
                 else Ok ([], r)) (\<lambda>(payload, r).
     Ok (\<lparr>ss_SSID = sid, ss_Payload = payload\<rparr>, r))))"

definition SourceSymbolFrame_HeaderLen :: "SourceSymbolFrame \<Rightarrow> int outcome" where
  "SourceSymbolFrame_HeaderLen f =
     addLen (addLen (addLen (Ok 0) sourceSymbolFrameType) (ss_SSID f)) (len64 (ss_Payload f))"

definition SourceSymbolFrame_Append :: "byte list \<Rightarrow> SourceSymbolFrame \<Rightarrow> byte list outcome" where
  "SourceSymbolFrame_Append b f =
     appb (appv (appv (appv (Ok b) sourceSymbolFrameType) (ss_SSID f)) (len64 (ss_Payload f)))
       (ss_Payload f)"

definition SourceSymbolFrame_Length :: "SourceSymbolFrame \<Rightarrow> int outcome" where
  "SourceSymbolFrame_Length f =
     addInt (addLen (addLen (addLen (Ok 0) sourceSymbolFrameType) (ss_SSID f)) (len64 (ss_Payload f)))
       (int (length (ss_Payload f)))"

section \<open>The contract of a frame codec\<close>

text \<open>
  What the packet packer and the frame parser rely on, for the frames that can be
  written (\<open>wf\<close>): \<open>append_frame\<close> succeeds and only adds bytes at the end,
  \<open>frame_length\<close> is the number of bytes it adds, and these bytes start with the
  varint of the frame type \<open>ftype\<close> and parse back to the frame as the receiver sees it
  (\<open>norm\<close>: the fields that are not on the wire are lost). A frame that does not carry
  its own length (\<open>open_end\<close>) takes all the bytes that are left.
\<close>

locale frame_codec =
  fixes append_frame :: "byte list \<Rightarrow> 'f \<Rightarrow> byte list outcome"
    and frame_length :: "'f \<Rightarrow> int outcome"
    and ftype :: "'f \<Rightarrow> u64"
    and parse :: "u64 \<Rightarrow> reader \<Rightarrow> ('f \<times> reader) outcome"
    and norm :: "'f \<Rightarrow> 'f"
    and wf :: "'f \<Rightarrow> bool"
    and open_end :: "'f \<Rightarrow> bool"
  assumes append_ok: "wf f \<Longrightarrow> \<exists>e. append_frame [] f = Ok e"
    and append_prefix: "wf f \<Longrightarrow> append_frame b f = bindr (append_frame [] f) (\<lambda>e. Ok (b @ e))"
    and length_law: "wf f \<Longrightarrow> append_frame [] f = Ok e \<Longrightarrow> frame_length f = Ok (int (length e))"
    and parse_law: "wf f \<Longrightarrow> append_frame [] f = Ok e \<Longrightarrow> open_end f \<longrightarrow> r = [] \<Longrightarrow>
      \<exists>bd. quicvarint_Read (e @ r) = Ok (ftype f, bd) \<and> parse (ftype f) bd = Ok (norm f, r)"
begin

definition enc :: "'f \<Rightarrow> byte list" where
  "enc f = (case append_frame [] f of Ok e \<Rightarrow> e | _ \<Rightarrow> [])"

lemma append_enc: "wf f \<Longrightarrow> append_frame b f = Ok (b @ enc f)"
  using append_ok [of f] append_prefix [of f b] by (auto simp: enc_def)

lemma length_enc: "wf f \<Longrightarrow> frame_length f = Ok (int (length (enc f)))"
  using append_ok [of f] length_law [of f] by (auto simp: enc_def)

lemma read_enc:
  "wf f \<Longrightarrow> open_end f \<longrightarrow> r = [] \<Longrightarrow>
    \<exists>bd. quicvarint_Read (enc f @ r) = Ok (ftype f, bd) \<and> parse (ftype f) bd = Ok (norm f, r)"
  using append_ok [of f] parse_law [of f _ r] by (auto simp: enc_def)

lemma enc_nonempty: "wf f \<Longrightarrow> enc f \<noteq> []"
  using read_enc [of f "[]"] quicvarint_Read_short(1) by auto

end

subsection \<open>The frames that can be written\<close>

definition MaxDataFrame_wf :: "MaxDataFrame \<Rightarrow> bool" where
  "MaxDataFrame_wf f \<longleftrightarrow> fits_i (mdf_MaximumData f)"

definition MaxStreamDataFrame_wf :: "MaxStreamDataFrame \<Rightarrow> bool" where
  "MaxStreamDataFrame_wf f \<longleftrightarrow> fits_i (msdf_StreamID f) \<and> fits_i (msdf_MaximumStreamData f)"

definition MaxStreamsFrame_wf :: "MaxStreamsFrame \<Rightarrow> bool" where
  "MaxStreamsFrame_wf f \<longleftrightarrow> fits_i (msf_MaxStreamNum f) \<and> msf_MaxStreamNum f \<le> MaxStreamCount"

definition DataBlockedFrame_wf :: "DataBlockedFrame \<Rightarrow> bool" where
  "DataBlockedFrame_wf f \<longleftrightarrow> fits_i (dbf_MaximumData f)"

definition StreamDataBlockedFrame_wf :: "StreamDataBlockedFrame \<Rightarrow> bool" where
  "StreamDataBlockedFrame_wf f \<longleftrightarrow> fits_i (sdbf_StreamID f) \<and> fits_i (sdbf_MaximumStreamData f)"

definition StreamsBlockedFrame_wf :: "StreamsBlockedFrame \<Rightarrow> bool" where
  "StreamsBlockedFrame_wf f \<longleftrightarrow> fits_i (sbf_StreamLimit f) \<and> sbf_StreamLimit f \<le> MaxStreamCount"

definition ResetStreamFrame_wf :: "ResetStreamFrame \<Rightarrow> bool" where
  "ResetStreamFrame_wf f \<longleftrightarrow>
     fits_i (rsf_StreamID f) \<and> fits_u (rsf_ErrorCode f) \<and> fits_i (rsf_FinalSize f)"

definition StopSendingFrame_wf :: "StopSendingFrame \<Rightarrow> bool" where
  "StopSendingFrame_wf f \<longleftrightarrow> fits_i (ssf_StreamID f) \<and> fits_u (ssf_ErrorCode f)"

definition RetireConnectionIDFrame_wf :: "RetireConnectionIDFrame \<Rightarrow> bool" where
  "RetireConnectionIDFrame_wf f \<longleftrightarrow> fits_u (rcif_SequenceNumber f)"

definition CryptoFrame_wf :: "CryptoFrame \<Rightarrow> bool" where
  "CryptoFrame_wf f \<longleftrightarrow> fits_i (cf_Offset f) \<and> fits_i (int (length (cf_Data f)))"

definition StreamFrame_wf :: "StreamFrame \<Rightarrow> bool" where
  "StreamFrame_wf f \<longleftrightarrow>
     fits_i (sf_StreamID f) \<and> 0 \<le> sf_Offset f
     \<and> sf_Offset f + int (length (sf_Data f)) \<le> MaxByteCount
     \<and> length (sf_Data f) \<le> MaxPacketBufferSize \<and> (sf_Data f \<noteq> [] \<or> sf_Fin f)"

definition StreamFrame_norm :: "StreamFrame \<Rightarrow> StreamFrame" where
  "StreamFrame_norm f =
     f\<lparr>sf_fromPool := MinStreamFrameBufferSize \<le> length (sf_Data f), sf_FECProtected := False\<rparr>"

definition DatagramFrame_wf :: "DatagramFrame \<Rightarrow> bool" where
  "DatagramFrame_wf f \<longleftrightarrow> fits_i (int (length (df_Data f)))"

definition NewTokenFrame_wf :: "NewTokenFrame \<Rightarrow> bool" where
  "NewTokenFrame_wf f \<longleftrightarrow> ntf_Token f \<noteq> [] \<and> fits_i (int (length (ntf_Token f)))"

definition NewConnectionIDFrame_wf :: "NewConnectionIDFrame \<Rightarrow> bool" where
  "NewConnectionIDFrame_wf f \<longleftrightarrow>
     fits_u (ncif_SequenceNumber f) \<and> fits_u (ncif_RetirePriorTo f)
     \<and> ncif_RetirePriorTo f \<le> ncif_SequenceNumber f
     \<and> ncif_ConnectionID f \<noteq> [] \<and> length (ncif_ConnectionID f) \<le> MaxConnIDLen
     \<and> length (ncif_StatelessResetToken f) = 16"

definition ConnectionCloseFrame_wf :: "ConnectionCloseFrame \<Rightarrow> bool" where
  "ConnectionCloseFrame_wf f \<longleftrightarrow>
     fits_u (ccf_ErrorCode f) \<and> fits_u (ccf_FrameType f)
     \<and> (ccf_IsApplicationError f \<longrightarrow> ccf_FrameType f = 0)
     \<and> fits_i (int (length (ccf_ReasonPhrase f)))"

definition RepairFrame_wf :: "RepairFrame \<Rightarrow> bool" where
  "RepairFrame_wf f \<longleftrightarrow>
     fits_u (bm_BlockID (rf_Metadata f)) \<and> fits_u (bm_ParityID (rf_Metadata f))
     \<and> fits_i (int (length (rf_Payload f)))"

definition SourceSymbolFrame_wf :: "SourceSymbolFrame \<Rightarrow> bool" where
  "SourceSymbolFrame_wf f \<longleftrightarrow> fits_u (ss_SSID f) \<and> length (ss_Payload f) \<le> MaxPacketBufferSize"

subsection \<open>Every frame type satisfies the contract\<close>

interpretation max_data: frame_codec
  MaxDataFrame_Append MaxDataFrame_Length "\<lambda>_. 0x10" "\<lambda>_. parseMaxDataFrame" "\<lambda>f. f"
  MaxDataFrame_wf "\<lambda>_. False"
  by unfold_locales
    (auto simp: MaxDataFrame_Append_def MaxDataFrame_Length_def parseMaxDataFrame_def MaxDataFrame_wf_def)

interpretation max_stream_data: frame_codec
  MaxStreamDataFrame_Append MaxStreamDataFrame_Length "\<lambda>_. 0x11" "\<lambda>_. parseMaxStreamDataFrame"
  "\<lambda>f. f" MaxStreamDataFrame_wf "\<lambda>_. False"
  by unfold_locales
    (auto simp: MaxStreamDataFrame_Append_def MaxStreamDataFrame_Length_def
      parseMaxStreamDataFrame_def MaxStreamDataFrame_wf_def)

interpretation max_streams: frame_codec
  MaxStreamsFrame_Append MaxStreamsFrame_Length
  "\<lambda>f. case msf_Type f of StreamTypeBidi \<Rightarrow> 0x12 | StreamTypeUni \<Rightarrow> 0x13" parseMaxStreamsFrame
  "\<lambda>f. f" MaxStreamsFrame_wf "\<lambda>_. False"
  by unfold_locales
    (auto simp: MaxStreamsFrame_Append_def MaxStreamsFrame_Length_def parseMaxStreamsFrame_def
      MaxStreamsFrame_wf_def Let_def split: StreamType.splits)

interpretation data_blocked: frame_codec
  DataBlockedFrame_Append DataBlockedFrame_Length "\<lambda>_. 0x14" "\<lambda>_. parseDataBlockedFrame" "\<lambda>f. f"
  DataBlockedFrame_wf "\<lambda>_. False"
  by unfold_locales
    (auto simp: DataBlockedFrame_Append_def DataBlockedFrame_Length_def parseDataBlockedFrame_def
      DataBlockedFrame_wf_def)

interpretation stream_data_blocked: frame_codec
  StreamDataBlockedFrame_Append StreamDataBlockedFrame_Length "\<lambda>_. 0x15"
  "\<lambda>_. parseStreamDataBlockedFrame" "\<lambda>f. f" StreamDataBlockedFrame_wf "\<lambda>_. False"
  by unfold_locales
    (auto simp: StreamDataBlockedFrame_Append_def StreamDataBlockedFrame_Length_def
      parseStreamDataBlockedFrame_def StreamDataBlockedFrame_wf_def)

interpretation streams_blocked: frame_codec
  StreamsBlockedFrame_Append StreamsBlockedFrame_Length
  "\<lambda>f. case sbf_Type f of StreamTypeBidi \<Rightarrow> 0x16 | StreamTypeUni \<Rightarrow> 0x17" parseStreamsBlockedFrame
  "\<lambda>f. f" StreamsBlockedFrame_wf "\<lambda>_. False"
  by unfold_locales
    (auto simp: StreamsBlockedFrame_Append_def StreamsBlockedFrame_Length_def
      parseStreamsBlockedFrame_def StreamsBlockedFrame_wf_def Let_def split: StreamType.splits)

interpretation reset_stream: frame_codec
  ResetStreamFrame_Append ResetStreamFrame_Length "\<lambda>_. 0x4" "\<lambda>_. parseResetStreamFrame" "\<lambda>f. f"
  ResetStreamFrame_wf "\<lambda>_. False"
  by unfold_locales
    (auto simp: ResetStreamFrame_Append_def ResetStreamFrame_Length_def parseResetStreamFrame_def
      ResetStreamFrame_wf_def)

interpretation stop_sending: frame_codec
  StopSendingFrame_Append StopSendingFrame_Length "\<lambda>_. 0x5" "\<lambda>_. parseStopSendingFrame" "\<lambda>f. f"
  StopSendingFrame_wf "\<lambda>_. False"
  by unfold_locales
    (auto simp: StopSendingFrame_Append_def StopSendingFrame_Length_def parseStopSendingFrame_def
      StopSendingFrame_wf_def)

interpretation retire_connection_id: frame_codec
  RetireConnectionIDFrame_Append RetireConnectionIDFrame_Length "\<lambda>_. 0x19"
  "\<lambda>_. parseRetireConnectionIDFrame" "\<lambda>f. f" RetireConnectionIDFrame_wf "\<lambda>_. False"
  by unfold_locales
    (auto simp: RetireConnectionIDFrame_Append_def RetireConnectionIDFrame_Length_def
      parseRetireConnectionIDFrame_def RetireConnectionIDFrame_wf_def)

lemma fits_u_ucast [simp]: "fits_u (ucast (w :: 16 word))" "fits_u (ucast (v :: 32 word))"
  using uint_bounded [of w] uint_bounded [of v]
  by (simp_all add: fits_u_def maxVarInt8_def word_le_def unsigned_ucast_eq take_bit_int_eq_self)

lemma fits_u_fec_types [simp]:
  "fits_u FECWindowFrameType" "fits_u repairFrameType" "fits_u sourceSymbolFrameType"
  by (simp_all add: fits_u_def maxVarInt8_def FECWindowFrameType_def repairFrameType_def
      sourceSymbolFrameType_def)

lemma ucast_up_down [simp]:
  "(ucast (ucast (w :: 16 word) :: u64) :: 16 word) = w"
  "(ucast (ucast (v :: 32 word) :: u64) :: 32 word) = v"
  by (auto intro!: word_uint_eqI simp: unsigned_ucast_eq take_bit_word_eq_self)

interpretation fec_window: frame_codec
  FECWindowFrame_Append FECWindowFrame_Length "\<lambda>_. FECWindowFrameType" "\<lambda>_. parseFECWindowFrame"
  "\<lambda>f. f" "\<lambda>_. True" "\<lambda>_. False"
  by unfold_locales
    (auto simp: FECWindowFrame_Append_def FECWindowFrame_Length_def parseFECWindowFrame_def)

interpretation ping: frame_codec
  PingFrame_Append PingFrame_Length "\<lambda>_. 0x1" "\<lambda>_ r. Ok ((), r)" "\<lambda>f. f" "\<lambda>_. True" "\<lambda>_. False"
  by unfold_locales (auto simp: PingFrame_Append_def PingFrame_Length_def)

interpretation handshake_done: frame_codec
  HandshakeDoneFrame_Append HandshakeDoneFrame_Length "\<lambda>_. 0x1e" "\<lambda>_ r. Ok ((), r)" "\<lambda>f. f"
  "\<lambda>_. True" "\<lambda>_. False"
  by unfold_locales (auto simp: HandshakeDoneFrame_Append_def HandshakeDoneFrame_Length_def)

text \<open>The frames with a length field: what is read is what was written.\<close>

lemma len64_eq_0_iff: "fits_i (int (length xs)) \<Longrightarrow> len64 xs = 0 \<longleftrightarrow> xs = []"
  using uint_len64 [of xs] by (auto simp: len64_def to_u64_def)

lemma to_i64_len64: "fits_i (int (length xs)) \<Longrightarrow> to_i64 (len64 xs) = int (length xs)"
  by (simp add: len64_def)

lemmas len64_simps = uint_len64 unat_len64 len64_eq_0_iff to_i64_len64

lemma fits_i_small: "n \<le> MaxPacketBufferSize \<Longrightarrow> fits_i (int n)"
  by (simp add: fits_i_def MaxPacketBufferSize_def)

interpretation crypto: frame_codec
  CryptoFrame_Append CryptoFrame_Length "\<lambda>_. 0x6" "\<lambda>_. parseCryptoFrame" "\<lambda>f. f"
  CryptoFrame_wf "\<lambda>_. False"
  by unfold_locales
    (auto simp: CryptoFrame_Append_def CryptoFrame_Length_def parseCryptoFrame_def CryptoFrame_wf_def
      len64_simps)

interpretation new_token: frame_codec
  NewTokenFrame_Append NewTokenFrame_Length "\<lambda>_. 0x7" "\<lambda>_. parseNewTokenFrame" "\<lambda>f. f"
  NewTokenFrame_wf "\<lambda>_. False"
  by unfold_locales
    (auto simp: NewTokenFrame_Append_def NewTokenFrame_Length_def parseNewTokenFrame_def
      NewTokenFrame_wf_def len64_simps)

interpretation repair: frame_codec
  RepairFrame_Append RepairFrame_Length "\<lambda>_. repairFrameType" "\<lambda>_. parseRepairFrame" "\<lambda>f. f"
  RepairFrame_wf "\<lambda>_. False"
  by unfold_locales
    (auto simp: RepairFrame_Append_def RepairFrame_Length_def parseRepairFrame_def RepairFrame_wf_def
      len64_simps)

interpretation source_symbol: frame_codec
  SourceSymbolFrame_Append SourceSymbolFrame_Length "\<lambda>_. sourceSymbolFrameType"
  "\<lambda>_. ParseSourceSymbolFrame" "\<lambda>f. f" SourceSymbolFrame_wf "\<lambda>_. False"
  by unfold_locales
    (auto simp: SourceSymbolFrame_Append_def SourceSymbolFrame_Length_def ParseSourceSymbolFrame_def
      SourceSymbolFrame_wf_def len64_simps fits_i_small)

text \<open>The frames whose length field is optional.\<close>

definition DatagramFrame_type :: "DatagramFrame \<Rightarrow> u64" where
  "DatagramFrame_type f = (if df_DataLenPresent f then 0x31 else 0x30)"

definition StreamFrame_type :: "StreamFrame \<Rightarrow> u64" where
  "StreamFrame_type f =
     0x8 + (if sf_Fin f then 1 else 0) + (if sf_DataLenPresent f then 2 else 0)
         + (if sf_Offset f \<noteq> 0 then 4 else 0)"

interpretation datagram: frame_codec
  DatagramFrame_Append DatagramFrame_Length DatagramFrame_type parseDatagramFrame
  "\<lambda>f. f\<lparr>df_FECProtected := False\<rparr>" DatagramFrame_wf "\<lambda>f. \<not> df_DataLenPresent f"
  by unfold_locales
    (auto simp: DatagramFrame_Append_def DatagramFrame_Length_def parseDatagramFrame_def
      DatagramFrame_wf_def DatagramFrame_type_def len64_simps Let_def split: if_splits)

lemma StreamFrame_wfD:
  assumes "StreamFrame_wf f"
  shows "fits_i (sf_StreamID f)" "fits_i (sf_Offset f)" "fits_i (int (length (sf_Data f)))"
  using assms by (auto simp: StreamFrame_wf_def fits_i_def MaxByteCount_def MaxPacketBufferSize_def)

lemma StreamFrame_typeD:
  "(StreamFrame_type f AND 0b100 > 0) \<longleftrightarrow> sf_Offset f \<noteq> 0"
  "(StreamFrame_type f AND 0b10 > 0) \<longleftrightarrow> sf_DataLenPresent f"
  "(StreamFrame_type f AND 0b1 > 0) \<longleftrightarrow> sf_Fin f"
  by (auto simp: StreamFrame_type_def)

lemma StreamFrame_Append_bytes:
  assumes "StreamFrame_wf f"
  shows "StreamFrame_Append b f =
    Ok (b @ [ucast (StreamFrame_type f)] @ varint (to_u64 (sf_StreamID f))
        @ (if sf_Offset f \<noteq> 0 then varint (to_u64 (sf_Offset f)) else [])
        @ (if sf_DataLenPresent f then varint (len64 (sf_Data f)) else []) @ sf_Data f)"
  using assms StreamFrame_wfD [OF assms]
  by (auto simp: StreamFrame_Append_def StreamFrame_type_def StreamFrame_wf_def StreamFrame_DataLen_def
      len64_def Let_def)

lemma parseStreamFrame_bytes:
  assumes "StreamFrame_wf f" and "\<not> sf_DataLenPresent f \<longrightarrow> r = []"
  shows "parseStreamFrame (StreamFrame_type f)
    (varint (to_u64 (sf_StreamID f))
     @ (if sf_Offset f \<noteq> 0 then varint (to_u64 (sf_Offset f)) else [])
     @ (if sf_DataLenPresent f then varint (len64 (sf_Data f)) else []) @ sf_Data f @ r) =
    Ok (StreamFrame_norm f, r)"
proof -
  note wf = StreamFrame_wfD [OF assms(1)]
  have "length (sf_Data f) \<le> MaxPacketBufferSize"
    "sf_Offset f + int (length (sf_Data f)) \<le> MaxByteCount"
    using assms(1) by (simp_all add: StreamFrame_wf_def)
  then show ?thesis
    using wf assms(2)
    by (cases "sf_Offset f = 0"; cases "sf_DataLenPresent f"; cases "sf_Data f = []")
      (auto simp: parseStreamFrame_def StreamFrame_typeD StreamFrame_norm_def len64_simps Let_def)
qed

interpretation stream: frame_codec
  StreamFrame_Append StreamFrame_Length StreamFrame_type parseStreamFrame
  StreamFrame_norm StreamFrame_wf "\<lambda>f. \<not> sf_DataLenPresent f"
proof (unfold_locales, goal_cases)
  case (1 f)
  then show ?case by (simp add: StreamFrame_Append_bytes)
next
  case (2 f b)
  then show ?case by (simp add: StreamFrame_Append_bytes)
next
  case (3 f e)
  then show ?case
    using StreamFrame_wfD [of f]
    by (auto simp: StreamFrame_Append_bytes StreamFrame_Length_def StreamFrame_DataLen_def
      len64_def Let_def)
next
  case (4 f e r)
  have "StreamFrame_type f < 64"
    by (simp add: StreamFrame_type_def)
  then have "(ucast (StreamFrame_type f) :: byte) < 64" "ucast (ucast (StreamFrame_type f) :: byte) = StreamFrame_type f"
    by (auto simp: StreamFrame_type_def)
  then show ?case
    using 4 parseStreamFrame_bytes [of f r] by (auto simp: StreamFrame_Append_bytes)
qed

lemma ReadFullEOF_append [simp]: "length xs = n \<Longrightarrow> ReadFullEOF (xs @ r) n = Ok (xs, r)"
  by (simp add: ReadFullEOF_def)

lemma ReadConnectionID_append [simp]:
  "length xs = n \<Longrightarrow> n \<le> MaxConnIDLen \<Longrightarrow> ReadConnectionID (xs @ r) n = Ok (xs, r)"
  by (auto simp: ReadConnectionID_def)

interpretation path_challenge: frame_codec
  PathChallengeFrame_Append PathChallengeFrame_Length "\<lambda>_. 0x1a" "\<lambda>_. parsePathChallengeFrame"
  "\<lambda>f. f" "\<lambda>f. length (pcf_Data f) = 8" "\<lambda>_. False"
  by unfold_locales
    (auto simp: PathChallengeFrame_Append_def PathChallengeFrame_Length_def parsePathChallengeFrame_def)

interpretation path_response: frame_codec
  PathResponseFrame_Append PathResponseFrame_Length "\<lambda>_. 0x1b" "\<lambda>_. parsePathResponseFrame"
  "\<lambda>f. f" "\<lambda>f. length (prf_Data f) = 8" "\<lambda>_. False"
  by unfold_locales
    (auto simp: PathResponseFrame_Append_def PathResponseFrame_Length_def parsePathResponseFrame_def)

lemma unat_connIDLen: "n \<le> MaxConnIDLen \<Longrightarrow> unat (of_nat n :: byte) = n"
  by (simp add: MaxConnIDLen_def unat_of_nat)

lemma connIDLen_eq_0: "n \<le> MaxConnIDLen \<Longrightarrow> (of_nat n :: byte) = 0 \<longleftrightarrow> n = 0"
  using unat_connIDLen [of n] by auto

interpretation new_connection_id: frame_codec
  NewConnectionIDFrame_Append NewConnectionIDFrame_Length "\<lambda>_. 0x18"
  "\<lambda>_. parseNewConnectionIDFrame" "\<lambda>f. f" NewConnectionIDFrame_wf "\<lambda>_. False"
  by unfold_locales
    (auto simp: NewConnectionIDFrame_Append_def NewConnectionIDFrame_Length_def
      parseNewConnectionIDFrame_def NewConnectionIDFrame_wf_def Let_def unat_connIDLen connIDLen_eq_0
      not_less)

interpretation connection_close: frame_codec
  ConnectionCloseFrame_Append ConnectionCloseFrame_Length
  "\<lambda>f. if ccf_IsApplicationError f then 0x1d else 0x1c" parseConnectionCloseFrame "\<lambda>f. f"
  ConnectionCloseFrame_wf "\<lambda>_. False"
  by unfold_locales
    (auto simp: ConnectionCloseFrame_Append_def ConnectionCloseFrame_Length_def
      parseConnectionCloseFrame_def ConnectionCloseFrame_wf_def len64_simps Let_def)

section \<open>Splitting frames\<close>

lemma length_varint_bounds:
  assumes "fits_i n"
  shows "n < 64 \<Longrightarrow> length (varint (to_u64 n)) = 1"
    and "64 \<le> n \<Longrightarrow> n < 16384 \<Longrightarrow> length (varint (to_u64 n)) = 2"
    and "16384 \<le> n \<Longrightarrow> 4 \<le> length (varint (to_u64 n))"
  using assms
  by (simp_all add: varint_def quicvarint_Append_def maxVarInt_defs word_le_def fits_i_uint fits_i_def)

lemma varint_1_iff: "fits_i n \<Longrightarrow> length (varint (to_u64 n)) = 1 \<longleftrightarrow> n < 64"
  using length_varint_bounds [of n] by (cases "n < 64"; cases "n < 16384") auto

lemma StreamFrame_Length_Ok:
  assumes "StreamFrame_wf f"
  shows "StreamFrame_Length f = Ok (1 + int (length (varint (to_u64 (sf_StreamID f))))
    + (if sf_Offset f \<noteq> 0 then int (length (varint (to_u64 (sf_Offset f)))) else 0)
    + (if sf_DataLenPresent f then int (length (varint (len64 (sf_Data f)))) else 0)
    + int (length (sf_Data f)))"
  using StreamFrame_wfD [OF assms]
  by (auto simp: StreamFrame_Length_def StreamFrame_DataLen_def len64_def Let_def)

text \<open>The header of a STREAM frame without its length field.\<close>

definition StreamFrame_header :: "StreamFrame \<Rightarrow> int" where
  "StreamFrame_header f = 1 + int (length (varint (to_u64 (sf_StreamID f))))
    + (if sf_Offset f \<noteq> 0 then int (length (varint (to_u64 (sf_Offset f)))) else 0)"

lemma StreamFrame_Length_header:
  "StreamFrame_wf f \<Longrightarrow> StreamFrame_Length f = Ok (StreamFrame_header f
    + (if sf_DataLenPresent f then int (length (varint (len64 (sf_Data f)))) else 0)
    + int (length (sf_Data f)))"
  by (simp add: StreamFrame_Length_Ok StreamFrame_header_def)

text \<open>
  The adjustment all three \<^verbatim>\<open>MaxDataLen\<close> functions make: a data length of at
  least 64 needs a length field of two bytes.
\<close>

lemma adjust_for_length_field:
  assumes "fits_i m"
  shows "bindr (quicvarint_Len (to_u64 m)) (\<lambda>l. Ok (if l \<noteq> 1 then m - 1 else m)) =
    Ok (if 64 \<le> m then m - 1 else m)"
proof -
  have "quicvarint_Len (to_u64 m) = Ok (int (length (varint (to_u64 m))))"
    using assms by (intro quicvarint_Len_Ok) (simp flip: fits_u_def)
  then show ?thesis
    using varint_1_iff [OF assms] by auto
qed

lemma StreamFrame_MaxDataLen_Ok:
  assumes "StreamFrame_wf f" and "fits_i maxSize"
  shows "StreamFrame_MaxDataLen f maxSize = Ok
    (let h = StreamFrame_header f + (if sf_DataLenPresent f then 1 else 0)
     in if h > maxSize then 0
        else if sf_DataLenPresent f \<and> 64 \<le> maxSize - h then maxSize - h - 1
        else maxSize - h)"
proof -
  define h where "h = StreamFrame_header f + (if sf_DataLenPresent f then 1 else 0)"
  have "0 \<le> h"
    by (simp add: h_def StreamFrame_header_def)
  then have fits: "h \<le> maxSize \<Longrightarrow> fits_i (maxSize - h)"
    using assms(2) by (simp add: fits_i_def)
  define o' where "o' = (if sf_Offset f \<noteq> 0
     then addLen (addLen (Ok 1) (to_u64 (sf_StreamID f))) (to_u64 (sf_Offset f))
     else addLen (Ok 1) (to_u64 (sf_StreamID f)))"
  have "(if sf_DataLenPresent f then addInt o' 1 else o') = Ok h"
    using StreamFrame_wfD [OF assms(1)] by (auto simp: h_def o'_def StreamFrame_header_def)
  then have "StreamFrame_MaxDataLen f maxSize =
      (if h > maxSize then Ok 0
       else if sf_DataLenPresent f then
          bindr (quicvarint_Len (to_u64 (maxSize - h)))
            (\<lambda>l. Ok (if l \<noteq> 1 then maxSize - h - 1 else maxSize - h))
       else Ok (maxSize - h))"
    by (simp only: StreamFrame_MaxDataLen_def Let_def bindr.simps flip: o'_def)
  then show ?thesis
    using fits by (simp add: adjust_for_length_field not_less Let_def flip: h_def)
qed

lemma StreamFrame_split_fits:
  assumes "StreamFrame_wf f" "fits_i maxSize" "StreamFrame_Length f = Ok len" "maxSize < len"
    and "StreamFrame_MaxDataLen f maxSize = Ok n"
  shows "0 \<le> n" and "n < int (length (sf_Data f)) \<or> n = 0"
    and "n \<noteq> 0 \<Longrightarrow> StreamFrame_header f
      + (if sf_DataLenPresent f then int (length (varint (to_u64 n))) else 0) + n \<le> maxSize"
proof -
  define d where "d = int (length (sf_Data f))"
  have d: "fits_i d" "d < 16384"
    using StreamFrame_wfD [OF assms(1)] assms(1)
    by (simp_all add: d_def StreamFrame_wf_def MaxPacketBufferSize_def)
  have len: "len = StreamFrame_header f
      + (if sf_DataLenPresent f then int (length (varint (to_u64 d))) else 0) + d"
    using StreamFrame_Length_header [OF assms(1)] assms(3) by (simp add: len64_def d_def)
  note n = StreamFrame_MaxDataLen_Ok [OF assms(1,2)] assms(5)
  have vd: "length (varint (to_u64 d)) = (if d < 64 then 1 else 2)"
    using d length_varint_bounds [of d] by auto
  show "0 \<le> n"
    using n by (auto simp: Let_def split: if_splits)
  show less: "n < int (length (sf_Data f)) \<or> n = 0"
    using n len vd assms(4) by (auto simp: Let_def d_def split: if_splits)
  have "n \<noteq> 0 \<Longrightarrow> length (varint (to_u64 n)) = (if n < 64 then 1 else 2)"
    using less \<open>0 \<le> n\<close> d length_varint_bounds [of n] by (auto simp: d_def fits_i_def)
  then show "n \<noteq> 0 \<Longrightarrow> StreamFrame_header f
      + (if sf_DataLenPresent f then int (length (varint (to_u64 n))) else 0) + n \<le> maxSize"
    using n by (auto simp: Let_def split: if_splits)
qed

lemma StreamFrame_split_wf:
  assumes "StreamFrame_wf f" "0 < n" "n < int (length (sf_Data f))"
    and "sf_StreamID g = sf_StreamID f" "sf_Offset g = sf_Offset f"
      "sf_Data g = take (nat n) (sf_Data f)"
  shows "StreamFrame_wf g"
  using assms by (auto simp: StreamFrame_wf_def)

lemma StreamFrame_split_law:
  assumes wf: "StreamFrame_wf f" and m: "fits_i maxSize"
  shows "\<exists>new needed f'. StreamFrame_MaybeSplitOffFrame f maxSize = Ok (new, needed, f')
    \<and> (needed \<longleftrightarrow> (\<exists>len. StreamFrame_Length f = Ok len \<and> maxSize < len))
    \<and> (case new of None \<Rightarrow> f' = f
       | Some g \<Rightarrow> needed \<and> sf_Data g @ sf_Data f' = sf_Data f \<and> sf_Data g \<noteq> [] \<and> sf_Data f' \<noteq> []
           \<and> sf_Offset g = sf_Offset f \<and> sf_Offset f' = sf_Offset f + int (length (sf_Data g))
           \<and> sf_StreamID g = sf_StreamID f \<and> sf_StreamID f' = sf_StreamID f
           \<and> \<not> sf_Fin g \<and> sf_Fin f' = sf_Fin f
           \<and> (\<exists>len. StreamFrame_Length g = Ok len \<and> len \<le> maxSize))"
proof -
  obtain len where len: "StreamFrame_Length f = Ok len"
    using StreamFrame_Length_Ok [OF wf] by blast
  obtain n where n: "StreamFrame_MaxDataLen f maxSize = Ok n"
    using StreamFrame_MaxDataLen_Ok [OF wf m] by blast
  show ?thesis
  proof (cases "maxSize < len \<and> n \<noteq> 0")
    case False
    then show ?thesis
      by (auto simp: StreamFrame_MaybeSplitOffFrame_def len n)
  next
    case True
    note fits = StreamFrame_split_fits [OF wf m len _ n]
    have nb: "0 < n" "n < int (length (sf_Data f))" "length (sf_Data f) \<le> MaxPacketBufferSize"
      using True fits(1,2) wf by (auto simp: StreamFrame_wf_def)
    define g where "g = \<lparr>sf_StreamID = sf_StreamID f, sf_Offset = sf_Offset f,
      sf_Data = take (nat n) (sf_Data f), sf_Fin = False,
      sf_DataLenPresent = sf_DataLenPresent f, sf_fromPool = sf_fromPool f, sf_FECProtected = False\<rparr>"
    have "StreamFrame_wf g"
      using nb by (intro StreamFrame_split_wf [OF wf, of n]) (simp_all add: g_def)
    then have "\<exists>len. StreamFrame_Length g = Ok len \<and> len \<le> maxSize"
      using fits(3) True nb
      by (auto simp: StreamFrame_Length_header g_def StreamFrame_header_def len64_def)
    then show ?thesis
      using True nb by (auto simp: StreamFrame_MaybeSplitOffFrame_def len n Let_def g_def)
  qed
qed



lemma CryptoFrame_MaxDataLen_Ok:
  assumes "fits_i (cf_Offset f)" and "fits_i maxSize"
  shows "CryptoFrame_MaxDataLen f maxSize = Ok
    (let h = 2 + int (length (varint (to_u64 (cf_Offset f))))
     in if h > maxSize then 0
        else if 64 \<le> maxSize - h then maxSize - h - 1
        else maxSize - h)"
proof -
  define h where "h = 2 + int (length (varint (to_u64 (cf_Offset f))))"
  have fits: "h \<le> maxSize \<Longrightarrow> fits_i (maxSize - h)"
    using assms(2) by (simp add: fits_i_def h_def)
  have "addInt (addLen (Ok 1) (to_u64 (cf_Offset f))) 1 = Ok h"
    using assms(1) by (simp add: h_def)
  then have "CryptoFrame_MaxDataLen f maxSize = (if h > maxSize then Ok 0
       else bindr (quicvarint_Len (to_u64 (maxSize - h)))
            (\<lambda>l. Ok (if l \<noteq> 1 then maxSize - h - 1 else maxSize - h)))"
    by (simp only: CryptoFrame_MaxDataLen_def Let_def bindr.simps)
  then show ?thesis
    using fits by (simp add: adjust_for_length_field not_less Let_def flip: h_def)
qed

lemma CryptoFrame_Length_Ok:
  "CryptoFrame_wf f \<Longrightarrow> CryptoFrame_Length f = Ok (1 + int (length (varint (to_u64 (cf_Offset f))))
     + int (length (varint (len64 (cf_Data f)))) + int (length (cf_Data f)))"
  by (simp add: CryptoFrame_Length_def CryptoFrame_wf_def len64_def)

lemma CryptoFrame_split_fits:
  assumes wf: "CryptoFrame_wf f" and "fits_i maxSize" "maxSize < 16384"
    and "CryptoFrame_Length f = Ok len" "maxSize < len"
    and "CryptoFrame_MaxDataLen f maxSize = Ok n"
  shows "0 \<le> n" and "n < int (length (cf_Data f)) \<or> n = 0"
    and "n \<noteq> 0 \<Longrightarrow> 1 + int (length (varint (to_u64 (cf_Offset f))))
      + int (length (varint (to_u64 n))) + n \<le> maxSize"
proof -
  define d where "d = int (length (cf_Data f))"
  have d: "fits_i d" "fits_i (cf_Offset f)"
    using wf by (simp_all add: d_def CryptoFrame_wf_def)
  have len: "len = 1 + int (length (varint (to_u64 (cf_Offset f))))
      + int (length (varint (to_u64 d))) + d"
    using CryptoFrame_Length_Ok [OF wf] assms(4) by (simp add: len64_def d_def)
  have n: "n = (let h = 2 + int (length (varint (to_u64 (cf_Offset f)))) in if h > maxSize then 0
        else if 64 \<le> maxSize - h then maxSize - h - 1 else maxSize - h)"
    using CryptoFrame_MaxDataLen_Ok [OF d(2) assms(2)] assms(6) by simp
  have vd: "d < 16384 \<Longrightarrow> length (varint (to_u64 d)) = (if d < 64 then 1 else 2)"
    using d length_varint_bounds [of d] by auto
  show "0 \<le> n"
    using n by (auto simp: Let_def split: if_splits)
  show less: "n < int (length (cf_Data f)) \<or> n = 0"
    using n len vd assms(3,5) by (cases "d < 16384") (auto simp: Let_def d_def split: if_splits)
  have "n < 16384"
    using n assms(3) by (auto simp: Let_def split: if_splits)
  then have "n \<noteq> 0 \<Longrightarrow> length (varint (to_u64 n)) = (if n < 64 then 1 else 2)"
    using \<open>0 \<le> n\<close> length_varint_bounds [of n] by (auto simp: fits_i_def)
  then show "n \<noteq> 0 \<Longrightarrow> 1 + int (length (varint (to_u64 (cf_Offset f))))
      + int (length (varint (to_u64 n))) + n \<le> maxSize"
    using n by (auto simp: Let_def split: if_splits)
qed

lemma CryptoFrame_split_law:
  assumes wf: "CryptoFrame_wf f" and m: "fits_i maxSize" "maxSize < 16384"
  shows "\<exists>new needed f'. CryptoFrame_MaybeSplitOffFrame f maxSize = Ok (new, needed, f')
    \<and> (needed \<longleftrightarrow> (\<exists>len. CryptoFrame_Length f = Ok len \<and> maxSize < len))
    \<and> (case new of None \<Rightarrow> f' = f
       | Some g \<Rightarrow> needed \<and> cf_Data g @ cf_Data f' = cf_Data f \<and> cf_Data g \<noteq> [] \<and> cf_Data f' \<noteq> []
           \<and> cf_Offset g = cf_Offset f \<and> cf_Offset f' = cf_Offset f + int (length (cf_Data g))
           \<and> (\<exists>len. CryptoFrame_Length g = Ok len \<and> len \<le> maxSize))"
proof -
  obtain len where len: "CryptoFrame_Length f = Ok len"
    using CryptoFrame_Length_Ok [OF wf] by blast
  obtain n where n: "CryptoFrame_MaxDataLen f maxSize = Ok n"
    using CryptoFrame_MaxDataLen_Ok wf m by (auto simp: CryptoFrame_wf_def)
  show ?thesis
  proof (cases "maxSize < len \<and> n \<noteq> 0")
    case False
    then show ?thesis
      by (auto simp: CryptoFrame_MaybeSplitOffFrame_def len n)
  next
    case True
    note fits = CryptoFrame_split_fits [OF wf m len _ n]
    have nb: "0 < n" "n < int (length (cf_Data f))"
      using True fits(1,2) by auto
    define g where "g = \<lparr>cf_Offset = cf_Offset f, cf_Data = take (nat n) (cf_Data f)\<rparr>"
    have "CryptoFrame_wf g"
      using wf nb by (auto simp: CryptoFrame_wf_def g_def fits_i_def)
    then have "\<exists>len. CryptoFrame_Length g = Ok len \<and> len \<le> maxSize"
      using fits(3) True nb by (auto simp: CryptoFrame_Length_Ok g_def len64_def)
    then show ?thesis
      using True nb by (auto simp: CryptoFrame_MaybeSplitOffFrame_def len n Let_def g_def)
  qed
qed



end
