(* ===== verification/Block.thy ===== *)
theory Block
  imports Frames
begin

text \<open>
  FEC blocks (\<^verbatim>\<open>internal/fec/block.go\<close>): the source symbols and repair symbols of one
  block and the operations that add to them. The two Go maps are association lists; their
  order is the order in which a \<^verbatim>\<open>range\<close> loop happens to visit them, and the lemmas hold
  for every order. The lemmas are the invariant of a block and that every operation keeps it.
\<close>

section \<open>The block\<close>

record block =
  blk_id :: u64
  blk_ssidToSourcePayload :: "(u64 \<times> byte list) list"
  blk_pidToRepairPayload :: "(u64 \<times> byte list) list"
  blk_smallestSSID :: u64
  blk_largestSSID :: u64
  blk_totNumSourceSymbols :: int
  blk_totNumRepairSymbols :: int
  blk_biggestSourceSymbolLenSoFar :: int

definition MaxFECHeaderOverhead :: nat where
  "MaxFECHeaderOverhead = 18"

definition MaxFECPacketBufferSize :: nat where
  "MaxFECPacketBufferSize = MaxPacketBufferSize - MaxFECHeaderOverhead"

definition RepairPayloadMetadataLen :: int where
  "RepairPayloadMetadataLen = 2"

definition newBlock :: "u64 \<Rightarrow> int \<Rightarrow> int \<Rightarrow> block" where
  "newBlock blockID totNumSourceSymbols totNumRepairSymbols =
     (let smallestSSID = blockID * to_u64 totNumSourceSymbols;
          largestSSID = smallestSSID + to_u64 totNumSourceSymbols - 1
      in \<lparr>blk_id = blockID, blk_ssidToSourcePayload = [], blk_pidToRepairPayload = [],
          blk_smallestSSID = smallestSSID, blk_largestSSID = largestSSID,
          blk_totNumSourceSymbols = to_i64 largestSSID - to_i64 smallestSSID + 1,
          blk_totNumRepairSymbols = totNumRepairSymbols,
          blk_biggestSourceSymbolLenSoFar = 0\<rparr>)"

definition addSourceSymbol :: "block \<Rightarrow> SourceSymbolFrame \<Rightarrow> block outcome" where
  "addSourceSymbol b f =
     (if ss_SSID f < blk_smallestSSID b \<or> ss_SSID f > blk_largestSSID b
      then Err (ErrorString ''source symbol was provided to the wrong block'')
      else case map_of (blk_ssidToSourcePayload b) (ss_SSID f) of
        None \<Rightarrow>
          let b = b\<lparr>blk_ssidToSourcePayload := (ss_SSID f, ss_Payload f) # blk_ssidToSourcePayload b\<rparr> in
          Ok (if blk_biggestSourceSymbolLenSoFar b < int (length (ss_Payload f))
              then b\<lparr>blk_biggestSourceSymbolLenSoFar := int (length (ss_Payload f))\<rparr> else b)
      | Some _ \<Rightarrow> Ok b)"

definition addRepairSymbol :: "block \<Rightarrow> RepairFrame \<Rightarrow> block outcome" where
  "addRepairSymbol b f =
     (if blk_id b \<noteq> bm_BlockID (rf_Metadata f)
      then Err (ErrorString ''the repair symbol was provided to the wrong block'')
      else case map_of (blk_pidToRepairPayload b) (bm_ParityID (rf_Metadata f)) of
        None \<Rightarrow> Ok (b\<lparr>blk_pidToRepairPayload :=
                   (bm_ParityID (rf_Metadata f), rf_Payload f) # blk_pidToRepairPayload b,
                 blk_biggestSourceSymbolLenSoFar := int (length (rf_Payload f)) - RepairPayloadMetadataLen\<rparr>)
      | Some _ \<Rightarrow> Ok b)"

definition isRecoverable :: "block \<Rightarrow> bool" where
  "isRecoverable b \<longleftrightarrow>
     int (length (blk_ssidToSourcePayload b)) + int (length (blk_pidToRepairPayload b))
       \<ge> blk_totNumSourceSymbols b"

definition isComplete :: "block \<Rightarrow> bool" where
  "isComplete b \<longleftrightarrow> int (length (blk_ssidToSourcePayload b)) = blk_totNumSourceSymbols b"

section \<open>The invariant\<close>

text \<open>
  The block \<open>blockID\<close> of \<open>n\<close> source symbols: the identifiers do not wrap around, every stored
  source symbol is one of the block, and no identifier occurs twice.
\<close>

definition block_ids :: "u64 \<Rightarrow> nat \<Rightarrow> u64 list" where
  "block_ids blockID n = map (\<lambda>i. blockID * of_nat n + of_nat i) [0..<n]"

definition no_wrap :: "u64 \<Rightarrow> nat \<Rightarrow> bool" where
  "no_wrap blockID n \<longleftrightarrow> 0 < n \<and> (uint blockID + 1) * int n \<le> 2 ^ 63"

definition block_inv :: "nat \<Rightarrow> block \<Rightarrow> bool" where
  "block_inv n b \<longleftrightarrow> no_wrap (blk_id b) n
     \<and> blk_smallestSSID b = blk_id b * of_nat n
     \<and> blk_largestSSID b = blk_id b * of_nat n + of_nat n - 1
     \<and> blk_totNumSourceSymbols b = int n
     \<and> distinct (map fst (blk_ssidToSourcePayload b))
     \<and> set (map fst (blk_ssidToSourcePayload b)) \<subseteq> set (block_ids (blk_id b) n)
     \<and> distinct (map fst (blk_pidToRepairPayload b))"

lemma no_wrap_words:
  fixes k :: u64
  shows "k * of_nat n + of_nat i = to_u64 (uint k * int n + int i)"
    and "k * of_nat n + of_nat n - 1 = to_u64 (uint k * int n + int n - 1)"
    and "k * of_nat n = to_u64 (uint k * int n)"
  by (simp_all add: to_u64_def)

lemma no_wrapD:
  assumes "no_wrap k n"
  shows "0 < n" "int n \<le> 2 ^ 63"
    "uint (k * of_nat n) = uint k * int n"
    "i < n \<Longrightarrow> uint (k * of_nat n + of_nat i) = uint k * int n + int i"
    "uint (k * of_nat n + of_nat n - 1) = uint k * int n + int n - 1"
    "uint k * int n + int n \<le> 2 ^ 63"
proof -
  have le: "uint k * int n + int n \<le> 2 ^ 63" and n: "0 < n"
    using assms by (simp_all add: no_wrap_def algebra_simps)
  have nn: "0 \<le> uint k * int n" by simp
  show "0 < n" "uint k * int n + int n \<le> 2 ^ 63" using n le .
  show "int n \<le> 2 ^ 63" using le nn by linarith
  show "uint (k * of_nat n) = uint k * int n"
    using le nn n unfolding no_wrap_words(3) by simp
  show "i < n \<Longrightarrow> uint (k * of_nat n + of_nat i) = uint k * int n + int i"
    using le nn n unfolding no_wrap_words(1) by simp
  show "uint (k * of_nat n + of_nat n - 1) = uint k * int n + int n - 1"
    using le nn n unfolding no_wrap_words(2) by (intro uint_to_u64) (linarith, simp)
qed

lemma distinct_block_ids: "no_wrap k n \<Longrightarrow> distinct (block_ids k n)"
proof -
  assume w: "no_wrap k n"
  have "inj_on (\<lambda>i. k * of_nat n + of_nat i) {0..<n}"
  proof (rule inj_onI)
    fix i j assume ij: "i \<in> {0..<n}" "j \<in> {0..<n}" and eq: "k * of_nat n + of_nat i = k * of_nat n + of_nat j"
    have "uint k * int n + int i = uint k * int n + int j"
      using no_wrapD(4) [OF w, of i] no_wrapD(4) [OF w, of j] ij unfolding eq by simp
    then show "i = j"
      by simp
  qed
  then show ?thesis
    by (simp add: block_ids_def distinct_map)
qed

lemma length_block_ids [simp]: "length (block_ids k n) = n"
  by (simp add: block_ids_def)

lemma mem_block_ids:
  assumes w: "no_wrap k n"
  shows "s \<in> set (block_ids k n) \<longleftrightarrow> k * of_nat n \<le> s \<and> s \<le> k * of_nat n + of_nat n - 1"
proof
  assume "s \<in> set (block_ids k n)"
  then obtain i where "i < n" "s = k * of_nat n + of_nat i"
    by (auto simp: block_ids_def)
  then show "k * of_nat n \<le> s \<and> s \<le> k * of_nat n + of_nat n - 1"
    using no_wrapD(3,5) [OF w] no_wrapD(4) [OF w, of i] by (simp add: word_le_def)
next
  assume "k * of_nat n \<le> s \<and> s \<le> k * of_nat n + of_nat n - 1"
  then have le: "uint k * int n \<le> uint s" "uint s < uint k * int n + int n"
    using no_wrapD(3,5) [OF w] by (simp_all add: word_le_def)
  define i where "i = nat (uint s - uint k * int n)"
  have "i < n" "uint (k * of_nat n + of_nat i) = uint s"
    using le no_wrapD(4) [OF w, of i] by (simp_all add: i_def)
  then have "i < n" "s = k * of_nat n + of_nat i"
    by (metis word_of_int_uint)+
  then show "s \<in> set (block_ids k n)"
    by (auto simp: block_ids_def)
qed

section \<open>Every operation keeps the invariant\<close>

lemma newBlock_inv:
  assumes w: "no_wrap k n"
  shows "block_inv n (newBlock k (int n) r)"
proof -
  have "to_u64 (int n) = of_nat n"
    by (simp add: to_u64_def)
  moreover have "to_i64 (k * of_nat n + of_nat n - 1) - to_i64 (k * of_nat n) + 1 = int n"
    using no_wrapD [OF w] by (simp add: to_i64_uint)
  ultimately show ?thesis
    using w by (simp add: block_inv_def newBlock_def Let_def)
qed

lemma newBlock_empty [simp]:
  "blk_id (newBlock k n r) = k" "blk_ssidToSourcePayload (newBlock k n r) = []"
  "blk_pidToRepairPayload (newBlock k n r) = []" "blk_biggestSourceSymbolLenSoFar (newBlock k n r) = 0"
  "blk_totNumRepairSymbols (newBlock k n r) = r"
  by (simp_all add: newBlock_def Let_def)

lemma map_of_None_set: "map_of xs k = None \<longleftrightarrow> k \<notin> set (map fst xs)"
  by (simp add: map_of_eq_None_iff)

lemma addSourceSymbol_inv:
  assumes "block_inv n b" "addSourceSymbol b f = Ok b'"
  shows "block_inv n b'"
proof -
  have "ss_SSID f \<in> set (block_ids (blk_id b) n)"
    using assms mem_block_ids by (auto simp: addSourceSymbol_def block_inv_def split: if_splits)
  then show ?thesis
    using assms
    by (clarsimp simp: addSourceSymbol_def block_inv_def Let_def map_of_eq_None_iff
        split: if_splits option.splits)
qed

lemma addRepairSymbol_inv:
  "block_inv n b \<Longrightarrow> addRepairSymbol b f = Ok b' \<Longrightarrow> block_inv n b'"
  by (clarsimp simp: addRepairSymbol_def block_inv_def map_of_eq_None_iff split: if_splits option.splits)

text \<open>A block holds at most its \<open>n\<close> source symbols, and is complete when it holds each.\<close>

lemma block_inv_card:
  assumes "block_inv n b"
  shows "length (blk_ssidToSourcePayload b) \<le> n"
    and "isComplete b \<longleftrightarrow> set (map fst (blk_ssidToSourcePayload b)) = set (block_ids (blk_id b) n)"
proof -
  let ?K = "set (map fst (blk_ssidToSourcePayload b))" and ?I = "set (block_ids (blk_id b) n)"
  have k: "card ?K = length (blk_ssidToSourcePayload b)" and i: "card ?I = n" and sub: "?K \<subseteq> ?I"
    using assms distinct_block_ids [of "blk_id b" n]
    by (auto simp: block_inv_def distinct_card dest: distinct_card)
  show "length (blk_ssidToSourcePayload b) \<le> n"
    using card_mono [OF _ sub] k i by simp
  show "isComplete b \<longleftrightarrow> ?K = ?I"
    using card_subset_eq [OF _ sub] k i assms by (auto simp: isComplete_def block_inv_def)
qed

end
