(* ===== verification/Xor.thy ===== *)
theory Xor
  imports Block "HOL-Library.Multiset"
begin

text \<open>
  The XOR scheme (\<^verbatim>\<open>internal/fec/xor.go\<close>): one repair symbol that is the XOR of all
  source symbols of a block, each padded to the longest one and followed by its length. The
  lemmas show that the repair symbol does not depend on the order in which the map is
  visited, and that with it any single missing source symbol is recovered exactly.
\<close>

section \<open>The scheme\<close>

text \<open>The interface \<^verbatim>\<open>BlockFECScheme\<close> (\<^verbatim>\<open>scheme.go\<close>): recovery may add to the block.\<close>

record BlockFECScheme =
  sch_repairSymbols :: "block \<Rightarrow> RepairFrame list outcome"
  sch_recoverSymbolPayloads :: "block \<Rightarrow> block \<times> byte list outcome"

fun xorScheme_xorRepair :: "byte list \<Rightarrow> byte list \<Rightarrow> byte list outcome" where
  "xorScheme_xorRepair xorSoFar [] = Ok xorSoFar"
| "xorScheme_xorRepair [] (p # payload) = Panic ''index out of range''"
| "xorScheme_xorRepair (x # xorSoFar) (p # payload) =
     bindr (xorScheme_xorRepair xorSoFar payload) (\<lambda>r. Ok ((x XOR p) # r))"

definition highByte :: "byte list \<Rightarrow> byte" where
  "highByte payload = ucast (drop_bit 8 (word_of_nat (length payload) :: 16 word))"

definition lowByte :: "byte list \<Rightarrow> byte" where
  "lowByte payload = ucast ((word_of_nat (length payload) :: 16 word) AND 0xFF)"

definition xorScheme_xor :: "byte list \<Rightarrow> byte list \<Rightarrow> int \<Rightarrow> byte list outcome" where
  "xorScheme_xor xorSoFar payload biggest =
     bindr (xorScheme_xorRepair xorSoFar payload) (\<lambda>x.
     if biggest < 0 \<or> biggest + 1 \<ge> int (length x) then Panic ''index out of range''
     else let i = nat biggest; x = x[i := x ! i XOR highByte payload]
       in Ok (x[i + 1 := x ! (i + 1) XOR lowByte payload]))"

fun xor_payloads :: "byte list \<Rightarrow> (u64 \<times> byte list) list \<Rightarrow> int \<Rightarrow> byte list outcome" where
  "xor_payloads xorSoFar [] biggest = Ok xorSoFar"
| "xor_payloads xorSoFar ((_, payload) # ps) biggest =
     bindr (xorScheme_xor xorSoFar payload biggest) (\<lambda>x. xor_payloads x ps biggest)"

fun xor_repairs :: "byte list \<Rightarrow> (u64 \<times> byte list) list \<Rightarrow> byte list outcome" where
  "xor_repairs xorSoFar [] = Ok xorSoFar"
| "xor_repairs xorSoFar ((_, dat) # ps) =
     bindr (xorScheme_xorRepair xorSoFar dat) (\<lambda>x. xor_repairs x ps)"

definition xorScheme_repairSymbols :: "block \<Rightarrow> RepairFrame list outcome" where
  "xorScheme_repairSymbols b =
     (if \<not> isComplete b
      then Err (ErrorString ''block does not have enough source symbols to generate repair symbols'')
      else if blk_totNumRepairSymbols b \<noteq> 1
      then Err (ErrorString ''xor only supports 1 repair symbol'')
      else if blk_biggestSourceSymbolLenSoFar b > int MaxFECPacketBufferSize
      then Err (ErrorString ''source symbol payload len is greater is too big for FEC headers'')
      else
        let repairPayloadLen = RepairPayloadMetadataLen + blk_biggestSourceSymbolLenSoFar b in
        if repairPayloadLen < 0 then Panic ''makeslice: len out of range''
        else bindr (xor_payloads (replicate (nat repairPayloadLen) 0) (blk_ssidToSourcePayload b)
                 (blk_biggestSourceSymbolLenSoFar b)) (\<lambda>xorSoFar.
          Ok [\<lparr>rf_Metadata = \<lparr>bm_BlockID = blk_id b, bm_ParityID = 0\<rparr>, rf_Payload = xorSoFar\<rparr>]))"

text \<open>
  The loop that stores the recovered payload under every missing identifier. The counter
  of the loop would wrap around for a block that ends at the largest 64-bit number; the
  blocks of the invariant do not.
\<close>

fun fill_missing :: "(u64 \<times> byte list) list \<Rightarrow> u64 list \<Rightarrow> byte list \<Rightarrow> (u64 \<times> byte list) list" where
  "fill_missing m [] payload = m"
| "fill_missing m (ssid # ssids) payload =
     (case map_of m ssid of
        None \<Rightarrow> fill_missing ((ssid, payload) # m) ssids payload
      | Some _ \<Rightarrow> fill_missing m ssids payload)"

definition ssid_range :: "u64 \<Rightarrow> u64 \<Rightarrow> u64 list" where
  "ssid_range smallest largest =
     map (\<lambda>i. smallest + of_nat i) [0..<nat (uint largest + 1 - uint smallest)]"

definition xorScheme_recoverSymbolPayloads :: "block \<Rightarrow> block \<times> byte list outcome" where
  "xorScheme_recoverSymbolPayloads b =
     (if \<not> isRecoverable b
      then (b, Err (ErrorString ''not enough present symbols to repair the missing ones''))
      else if isComplete b then (b, Ok [])
      else
        let biggest = blk_biggestSourceSymbolLenSoFar b in
        case bindr (xor_repairs (replicate MaxPacketBufferSize 0) (blk_pidToRepairPayload b)) (\<lambda>x.
               xor_payloads x (blk_ssidToSourcePayload b) biggest) of
          Err e \<Rightarrow> (b, Err e)
        | Panic m \<Rightarrow> (b, Panic m)
        | Ok recoveredSymbol \<Rightarrow>
            if biggest < 0 \<or> biggest + 1 \<ge> int (length recoveredSymbol)
            then (b, Panic ''index out of range'')
            else
              let payloadLen = push_bit 8 (ucast (recoveredSymbol ! nat biggest) :: 16 word)
                    OR ucast (recoveredSymbol ! (nat biggest + 1))
              in if unat payloadLen > length recoveredSymbol
                 then (b, Panic ''slice bounds out of range'')
                 else
                   let recoveredPayload = take (unat payloadLen) recoveredSymbol;
                       b = b\<lparr>blk_ssidToSourcePayload := fill_missing (blk_ssidToSourcePayload b)
                             (ssid_range (blk_smallestSSID b) (blk_largestSSID b)) recoveredPayload\<rparr>
                   in if \<not> isComplete b
                      then (b, Err (ErrorString ''block is not complete after recovery''))
                      else (b, Ok recoveredPayload))"

definition xorScheme :: BlockFECScheme where
  "xorScheme = \<lparr>sch_repairSymbols = xorScheme_repairSymbols,
     sch_recoverSymbolPayloads = xorScheme_recoverSymbolPayloads\<rparr>"

section \<open>The value of the XOR\<close>

text \<open>
  Byte \<open>i\<close> of a source symbol as it goes into the XOR: the payload, padded with zeros up
  to \<open>L\<close>, then its length.
\<close>

definition sym :: "nat \<Rightarrow> byte list \<Rightarrow> nat \<Rightarrow> byte" where
  "sym L p i = (if i < length p then p ! i
     else if i = L then highByte p else if i = L + 1 then lowByte p else 0)"

fun xsum :: "nat \<Rightarrow> (u64 \<times> byte list) list \<Rightarrow> nat \<Rightarrow> byte" where
  "xsum L [] i = 0"
| "xsum L (x # xs) i = sym L (snd x) i XOR xsum L xs i"

lemma xorRepair_spec:
  "length payload \<le> length x \<Longrightarrow> \<exists>r. xorScheme_xorRepair x payload = Ok r \<and> length r = length x
     \<and> (\<forall>i < length x. r ! i = x ! i XOR (if i < length payload then payload ! i else 0))"
proof (induction x payload rule: xorScheme_xorRepair.induct)
  case (3 x xs p ps)
  then obtain r where "xorScheme_xorRepair xs ps = Ok r" "length r = length xs"
      "\<forall>i < length xs. r ! i = xs ! i XOR (if i < length ps then ps ! i else 0)"
    by auto
  then show ?case
    by (auto simp: nth_Cons')
qed auto

lemma xorScheme_xor_spec:
  assumes "length p \<le> L" "L + 2 \<le> length x"
  shows "\<exists>r. xorScheme_xor x p (int L) = Ok r \<and> length r = length x
    \<and> (\<forall>i < length x. r ! i = x ! i XOR sym L p i)"
proof -
  obtain r where r: "xorScheme_xorRepair x p = Ok r" "length r = length x"
      "\<forall>i < length x. r ! i = x ! i XOR (if i < length p then p ! i else 0)"
    using xorRepair_spec [of p x] assms by auto
  then show ?thesis
    using assms by (auto simp: xorScheme_xor_def Let_def sym_def nth_list_update)
qed

lemma xor_payloads_spec:
  assumes "\<forall>q \<in> set ps. length (snd q) \<le> L" "L + 2 \<le> length x"
  shows "\<exists>r. xor_payloads x ps (int L) = Ok r \<and> length r = length x
    \<and> (\<forall>i < length x. r ! i = x ! i XOR xsum L ps i)"
  using assms
proof (induction ps arbitrary: x)
  case (Cons q ps)
  obtain r where "xorScheme_xor x (snd q) (int L) = Ok r" "length r = length x"
      "\<forall>i < length x. r ! i = x ! i XOR sym L (snd q) i"
    using xorScheme_xor_spec [of "snd q" L x] Cons.prems by auto
  moreover from this Cons.IH [of r] Cons.prems obtain s
    where "xor_payloads r ps (int L) = Ok s" "length s = length x"
      "\<forall>i < length x. s ! i = r ! i XOR xsum L ps i"
    by auto
  ultimately show ?case
    by (cases q) (simp add: xor.assoc)
qed simp

text \<open>The order of the payloads does not matter.\<close>

lemma xsum_remove1: "q \<in> set ps \<Longrightarrow> xsum L ps i = sym L (snd q) i XOR xsum L (remove1 q ps) i"
  by (induction ps) (auto simp: xor.left_commute)

lemma xsum_mset: "mset ps = mset qs \<Longrightarrow> xsum L ps i = xsum L qs i"
proof (induction ps arbitrary: qs)
  case (Cons p ps)
  then have "p \<in> set qs" "mset ps = mset (remove1 p qs)"
    by (metis list.set_intros(1) mset_eq_setD, metis add_mset_remove_trivial mset.simps(2) mset_remove1)
  then show ?case
    using Cons.IH [of "remove1 p qs"] xsum_remove1 [of p qs L i] by simp
qed simp

text \<open>The two length bytes give the length back.\<close>

lemma join_bytes:
  "push_bit 8 (ucast (ucast (drop_bit 8 w) :: byte) :: 16 word) OR ucast (ucast (w AND 0xFF) :: byte) = w"
proof (rule bit_word_eqI)
  fix n assume n: "n < LENGTH(16)"
  have m: "(0xFF :: 16 word) = mask 8" by (simp add: mask_eq_exp_minus_1)
  show "bit (push_bit 8 (ucast (ucast (drop_bit 8 w) :: byte) :: 16 word) OR ucast (ucast (w AND 0xFF) :: byte)) n
      = bit w n"
    unfolding m using n by (cases "n < 8") (auto simp: bit_simps)
qed

lemma length_bytes:
  assumes "length p < 2 ^ 16"
  shows "unat (push_bit 8 (ucast (highByte p) :: 16 word) OR ucast (lowByte p)) = length p"
  using assms unfolding highByte_def lowByte_def join_bytes by (simp add: unat_of_nat)

section \<open>The identifiers of a block\<close>

lemma ssid_range_block:
  assumes "block_inv n b"
  shows "ssid_range (blk_smallestSSID b) (blk_largestSSID b) = block_ids (blk_id b) n"
proof -
  have w: "no_wrap (blk_id b) n"
    using assms by (simp add: block_inv_def)
  then have "nat (uint (blk_largestSSID b) + 1 - uint (blk_smallestSSID b)) = n"
    using assms no_wrapD(3,5) [OF w] by (simp add: block_inv_def)
  then show ?thesis
    using assms by (simp add: ssid_range_def block_ids_def block_inv_def)
qed

lemma fill_missing_none:
  "\<forall>s \<in> set ssids. map_of m s \<noteq> None \<Longrightarrow> fill_missing m ssids p = m"
  by (induction ssids) auto

lemma fill_missing_one:
  "k \<in> set ssids \<Longrightarrow> map_of m k = None \<Longrightarrow> \<forall>s \<in> set ssids - {k}. map_of m s \<noteq> None \<Longrightarrow>
     fill_missing m ssids p = (k, p) # m"
proof (induction ssids)
  case (Cons s ssids)
  show ?case
  proof (cases "s = k")
    case True
    then show ?thesis
      using Cons.prems by (auto intro: fill_missing_none)
  next
    case False
    then obtain y where "map_of m s = Some y" using Cons.prems by auto
    then show ?thesis
      using Cons False by auto
  qed
qed simp

section \<open>Recovery\<close>

definition payloads_le :: "nat \<Rightarrow> (u64 \<times> byte list) list \<Rightarrow> bool" where
  "payloads_le L ps \<longleftrightarrow> (\<forall>q \<in> set ps. length (snd q) \<le> L)"

lemma xor_repairSymbols_spec:
  assumes "isComplete b" "blk_totNumRepairSymbols b = 1" "blk_biggestSourceSymbolLenSoFar b = int L"
    and "L \<le> MaxFECPacketBufferSize" "payloads_le L (blk_ssidToSourcePayload b)"
  shows "\<exists>r. xorScheme_repairSymbols b =
      Ok [\<lparr>rf_Metadata = \<lparr>bm_BlockID = blk_id b, bm_ParityID = 0\<rparr>, rf_Payload = r\<rparr>]
    \<and> length r = L + 2 \<and> (\<forall>i < L + 2. r ! i = xsum L (blk_ssidToSourcePayload b) i)"
proof -
  obtain r where "xor_payloads (replicate (L + 2) 0) (blk_ssidToSourcePayload b) (int L) = Ok r"
      "length r = L + 2" "\<forall>i < L + 2. r ! i = xsum L (blk_ssidToSourcePayload b) i"
    using xor_payloads_spec [of "blk_ssidToSourcePayload b" L "replicate (L + 2) 0"] assms
    by (auto simp: payloads_le_def simp del: replicate_add replicate_Suc)
  moreover have "nat (RepairPayloadMetadataLen + int L) = L + 2" "\<not> RepairPayloadMetadataLen + int L < 0"
    by (simp_all add: RepairPayloadMetadataLen_def)
  ultimately show ?thesis
    using assms by (simp add: xorScheme_repairSymbols_def Let_def)
qed

text \<open>
  With the repair symbol \<open>r\<close> of \<open>(k, p) # ps\<close> and the source symbols \<open>ps\<close>, the buffer
  holds the missing symbol.
\<close>

lemma xor_buffer:
  assumes "payloads_le L qs" "length p \<le> L" "L \<le> MaxFECPacketBufferSize"
    and "mset ((k, p) # qs) = mset ps" "length r = L + 2" "\<forall>i < L + 2. r ! i = xsum L ps i"
  shows "\<exists>x. bindr (xor_repairs (replicate MaxPacketBufferSize 0) [(0, r)]) (\<lambda>x. xor_payloads x qs (int L)) = Ok x
    \<and> length x = MaxPacketBufferSize \<and> (\<forall>i < L + 2. x ! i = sym L p i)"
proof -
  have L: "L + 2 \<le> MaxPacketBufferSize"
    using assms(3) by (simp add: MaxFECPacketBufferSize_def MaxPacketBufferSize_def MaxFECHeaderOverhead_def)
  obtain y where y: "xorScheme_xorRepair (replicate MaxPacketBufferSize 0) r = Ok y" "length y = MaxPacketBufferSize"
      "\<forall>i < MaxPacketBufferSize. y ! i = (if i < L + 2 then r ! i else 0)"
    using xorRepair_spec [of r "replicate MaxPacketBufferSize 0"] assms(5) L by auto
  obtain x where x: "xor_payloads y qs (int L) = Ok x" "length x = MaxPacketBufferSize"
      "\<forall>i < MaxPacketBufferSize. x ! i = y ! i XOR xsum L qs i"
    using xor_payloads_spec [of qs L y] assms(1) L y(2) by (auto simp: payloads_le_def)
  have "x ! i = sym L p i" if "i < L + 2" for i
  proof -
    have "r ! i = sym L p i XOR xsum L qs i"
      using assms(6) xsum_mset [OF assms(4), of L i] that by simp
    then show ?thesis
      using that x(3) y(3) L by (simp add: xor.assoc)
  qed
  then show ?thesis
    using x y by auto
qed

lemma take_sym:
  assumes "\<forall>i < L + 2. x ! i = sym L p i" "length p \<le> L" "L + 2 \<le> length x"
  shows "take (length p) x = p" "x ! L = highByte p" "x ! (L + 1) = lowByte p"
  using assms by (auto simp: sym_def intro!: nth_equalityI)

lemma xor_recover_spec:
  assumes inv: "block_inv n b" and miss: "k \<in> set (block_ids (blk_id b) n)"
      "\<forall>s \<in> set (block_ids (blk_id b) n) - {k}. map_of (blk_ssidToSourcePayload b) s \<noteq> None"
      "map_of (blk_ssidToSourcePayload b) k = None"
    and rep: "blk_pidToRepairPayload b = [(0, r)]" "blk_biggestSourceSymbolLenSoFar b = int L"
    and len: "payloads_le L (blk_ssidToSourcePayload b)" "length p \<le> L" "L \<le> MaxFECPacketBufferSize"
    and r: "mset ((k, p) # blk_ssidToSourcePayload b) = mset ps" "length r = L + 2" "\<forall>i < L + 2. r ! i = xsum L ps i"
    and n: "Suc (length (blk_ssidToSourcePayload b)) = n"
  shows "xorScheme_recoverSymbolPayloads b =
    (b\<lparr>blk_ssidToSourcePayload := (k, p) # blk_ssidToSourcePayload b\<rparr>, Ok p)"
proof -
  have tot: "blk_totNumSourceSymbols b = int n"
    using inv by (simp add: block_inv_def)
  obtain x where x: "bindr (xor_repairs (replicate MaxPacketBufferSize 0) (blk_pidToRepairPayload b))
        (\<lambda>x. xor_payloads x (blk_ssidToSourcePayload b) (int L)) = Ok x"
      "length x = MaxPacketBufferSize" "\<forall>i < L + 2. x ! i = sym L p i"
    using xor_buffer [OF len r] rep(1) by auto
  have L: "L + 2 \<le> length x" "length p < 2 ^ 16" "length p \<le> length x"
    using len x(2) by (simp_all add: MaxFECPacketBufferSize_def MaxPacketBufferSize_def MaxFECHeaderOverhead_def)
  note sym = take_sym [OF x(3) len(2) L(1)]
  have fill: "fill_missing (blk_ssidToSourcePayload b) (ssid_range (blk_smallestSSID b) (blk_largestSSID b)) p
      = (k, p) # blk_ssidToSourcePayload b"
    using miss by (simp add: ssid_range_block [OF inv] fill_missing_one)
  have "unat (push_bit 8 (ucast (x ! L) :: 16 word) OR ucast (x ! (L + 1))) = length p"
    using sym length_bytes [OF L(2)] by simp
  moreover have "isRecoverable b" "\<not> isComplete b"
    using n rep(1) by (auto simp: isRecoverable_def isComplete_def tot)
  ultimately show ?thesis
    using L sym fill n
    by (simp add: xorScheme_recoverSymbolPayloads_def Let_def rep(2) x(1) isComplete_def tot)
qed

text \<open>
  What the receiver knows of a block with one loss: the other source symbols, in whatever
  order they came.
\<close>

lemma one_loss:
  assumes "block_inv n b" "block_inv n b'" "blk_id b' = blk_id b" "isComplete b"
    and m: "mset ((k, p) # blk_ssidToSourcePayload b') = mset (blk_ssidToSourcePayload b)"
  shows "k \<in> set (block_ids (blk_id b') n)" "map_of (blk_ssidToSourcePayload b') k = None"
    "\<forall>s \<in> set (block_ids (blk_id b') n) - {k}. map_of (blk_ssidToSourcePayload b') s \<noteq> None"
    "Suc (length (blk_ssidToSourcePayload b')) = n"
    "map_of ((k, p) # blk_ssidToSourcePayload b') = map_of (blk_ssidToSourcePayload b)"
proof -
  let ?S = "blk_ssidToSourcePayload b" and ?S' = "blk_ssidToSourcePayload b'"
  have keys: "mset (map fst ((k, p) # ?S')) = mset (map fst ?S)"
    using m by (metis mset_map)
  have ids: "set (map fst ?S) = set (block_ids (blk_id b') n)"
    using block_inv_card(2) [OF assms(1)] assms(3,4) by simp
  have dist: "distinct (map fst ((k, p) # ?S'))" "distinct (map fst ?S)"
    using mset_eq_imp_distinct_iff [OF keys] assms(1) unfolding block_inv_def by blast+
  show "k \<in> set (block_ids (blk_id b') n)"
    using ids mset_eq_setD [OF keys] by auto
  show "map_of ?S' k = None"
    using dist(1) by (simp add: map_of_eq_None_iff)
  show "\<forall>s \<in> set (block_ids (blk_id b') n) - {k}. map_of ?S' s \<noteq> None"
    using ids mset_eq_setD [OF keys] by (auto simp: map_of_eq_None_iff)
  show "Suc (length ?S') = n"
    using assms(1,4) mset_eq_length [OF m] by (simp add: isComplete_def block_inv_def)
  show "map_of ((k, p) # ?S') = map_of ?S"
    using dist mset_eq_setD [OF m] map_of_inject_set by blast
qed

lemma xor_one_loss:
  assumes b: "block_inv n b" "isComplete b" "blk_totNumRepairSymbols b = 1"
      "blk_biggestSourceSymbolLenSoFar b = int L" "payloads_le L (blk_ssidToSourcePayload b)"
      "L \<le> MaxFECPacketBufferSize"
    and b': "block_inv n b'" "blk_id b' = blk_id b" "blk_pidToRepairPayload b' = []"
      "mset ((k, p) # blk_ssidToSourcePayload b') = mset (blk_ssidToSourcePayload b)"
  shows "\<exists>f b1 b2. xorScheme_repairSymbols b = Ok [f]
    \<and> bm_BlockID (rf_Metadata f) = blk_id b
    \<and> addRepairSymbol b' f = Ok b1 \<and> isRecoverable b1
    \<and> xorScheme_recoverSymbolPayloads b1 = (b2, Ok p)
    \<and> isComplete b2 \<and> map_of (blk_ssidToSourcePayload b2) = map_of (blk_ssidToSourcePayload b)"
proof -
  note loss = one_loss [OF b(1) b'(1,2) b(2) b'(4)]
  obtain r where r: "xorScheme_repairSymbols b =
      Ok [\<lparr>rf_Metadata = \<lparr>bm_BlockID = blk_id b, bm_ParityID = 0\<rparr>, rf_Payload = r\<rparr>]"
      "length r = L + 2" "\<forall>i < L + 2. r ! i = xsum L (blk_ssidToSourcePayload b) i"
    using xor_repairSymbols_spec [OF b(2-4) b(6,5)] by blast
  let ?f = "\<lparr>rf_Metadata = \<lparr>bm_BlockID = blk_id b, bm_ParityID = 0\<rparr>, rf_Payload = r\<rparr>"
  define b1 where "b1 = b'\<lparr>blk_pidToRepairPayload := [(0, r)], blk_biggestSourceSymbolLenSoFar := int L\<rparr>"
  have add: "addRepairSymbol b' ?f = Ok b1"
    using b'(2,3) r(2) by (simp add: addRepairSymbol_def b1_def RepairPayloadMetadataLen_def)
  have le: "payloads_le L (blk_ssidToSourcePayload b')" "length p \<le> L"
    using b(5) mset_eq_setD [OF b'(4)] unfolding payloads_le_def by (metis list.set_intros(1,2) snd_conv)+
  have "xorScheme_recoverSymbolPayloads b1 =
      (b1\<lparr>blk_ssidToSourcePayload := (k, p) # blk_ssidToSourcePayload b'\<rparr>, Ok p)"
    using xor_recover_spec [OF addRepairSymbol_inv [OF b'(1) add], of k r L p "blk_ssidToSourcePayload b"]
      loss(1-4) le b(6) b'(4) r(2,3) by (simp add: b1_def)
  moreover have "isRecoverable b1" "isComplete (b1\<lparr>blk_ssidToSourcePayload := (k, p) # blk_ssidToSourcePayload b'\<rparr>)"
    using loss(4) b'(1) by (auto simp: isRecoverable_def isComplete_def b1_def block_inv_def)
  ultimately show ?thesis
    using r(1) add loss(5) by simp
qed

text \<open>
  C20 (xor-recovers). Let a block with \<open>n\<close> source symbols be complete at the sender, none of
  the payloads longer than 1434 bytes. \<^verbatim>\<open>repairSymbols\<close> gives one repair symbol, and a
  receiver that has all source symbols but one, in any order, gets exactly the payload of
  the missing one from \<^verbatim>\<open>recoverSymbolPayloads\<close> after adding the repair symbol; its block
  is then complete and holds the payloads the sender had.
\<close>

theorem xor_recovers_lost_symbol:
  assumes "block_inv n b" "isComplete b" "blk_totNumRepairSymbols b = 1"
      "blk_biggestSourceSymbolLenSoFar b = int L" "payloads_le L (blk_ssidToSourcePayload b)"
      "L \<le> MaxFECPacketBufferSize"
    and "block_inv n b'" "blk_id b' = blk_id b" "blk_pidToRepairPayload b' = []"
      "mset ((k, p) # blk_ssidToSourcePayload b') = mset (blk_ssidToSourcePayload b)"
  shows "\<exists>f b1 b2. xorScheme_repairSymbols b = Ok [f] \<and> addRepairSymbol b' f = Ok b1
    \<and> xorScheme_recoverSymbolPayloads b1 = (b2, Ok p)
    \<and> isComplete b2 \<and> map_of (blk_ssidToSourcePayload b2) = map_of (blk_ssidToSourcePayload b)"
  using xor_one_loss [OF assms] by blast

theorem xor_recovers_lost_symbol_witness:
  "\<exists>f b1 b2. xorScheme_repairSymbols ((newBlock 3 2 1)\<lparr>blk_ssidToSourcePayload := [(7, [1, 2]), (6, [9])],
       blk_biggestSourceSymbolLenSoFar := 2\<rparr>) = Ok [f]
     \<and> addRepairSymbol ((newBlock 3 2 1)\<lparr>blk_ssidToSourcePayload := [(7, [1, 2])],
       blk_biggestSourceSymbolLenSoFar := 2\<rparr>) f = Ok b1
     \<and> xorScheme_recoverSymbolPayloads b1 = (b2, Ok [9])"
proof -
  let ?b = "(newBlock 3 2 1)\<lparr>blk_ssidToSourcePayload := [(7, [1, 2]), (6, [9])],
       blk_biggestSourceSymbolLenSoFar := 2\<rparr>"
  let ?b' = "(newBlock 3 2 1)\<lparr>blk_ssidToSourcePayload := [(7, [1, 2])], blk_biggestSourceSymbolLenSoFar := 2\<rparr>"
  have "no_wrap 3 2"
    by (simp add: no_wrap_def)
  then have "block_inv 2 ?b" "block_inv 2 ?b'" "isComplete ?b"
    using newBlock_inv [of 3 2 1] by (simp_all add: block_inv_def block_ids_def isComplete_def numeral_2_eq_2)
  then show ?thesis
    using xor_recovers_lost_symbol [of 2 ?b 2 ?b' 6 "[9]"]
    by (auto simp: payloads_le_def MaxFECPacketBufferSize_def MaxPacketBufferSize_def MaxFECHeaderOverhead_def)
qed



end
