(* ===== verification/ReedSolomon.thy ===== *)
theory ReedSolomon
  imports Xor
begin

text \<open>
  The Reed-Solomon scheme (\<^verbatim>\<open>internal/fec/reed_solomon.go\<close>). The code itself is the
  package \<^verbatim>\<open>klauspost/reedsolomon\<close>: its two methods \<^verbatim>\<open>Encode\<close> and
  \<^verbatim>\<open>ReconstructData\<close> are parameters, and \<open>rs_laws\<close> states what the package documents.
  The lemmas show that with these laws the scheme recovers the payloads of all missing
  source symbols, in the order of their identifiers, from any \<open>n\<close> symbols of the block.
\<close>

section \<open>The scheme\<close>

type_synonym shards = "byte list list"

text \<open>
  Payloads are slices made with the capacity of a packet buffer, except the \<^verbatim>\<open>nil\<close>
  payload of an empty source symbol; the bytes behind the payload are zero.
\<close>

definition payload_cap :: "byte list \<Rightarrow> nat" where
  "payload_cap payload = (if payload = [] then 0 else MaxPacketBufferSize)"

definition addLengthToSourceSymbolPayload :: "block \<Rightarrow> u64 \<Rightarrow> byte list outcome" where
  "addLengthToSourceSymbolPayload b ssid =
     (case map_of (blk_ssidToSourcePayload b) ssid of
        None \<Rightarrow> Err (ErrorString ''block is complete but SID does not exist'')
      | Some payload \<Rightarrow>
          let biggest = blk_biggestSourceSymbolLenSoFar b;
              shardLen = RepairPayloadMetadataLen + biggest
          in if shardLen > int (payload_cap payload)
             then Err (ErrorString ''shard len is greater than capacity of payload'')
             else if biggest < 0 then Panic ''index out of range''
             else let shard = take (nat shardLen) (payload @ replicate (payload_cap payload - length payload) 0);
                      i = nat biggest
               in Ok (shard[i := highByte payload, i + 1 := lowByte payload]))"

definition reedSolomon_repairSymbols :: "(shards \<Rightarrow> shards outcome) \<Rightarrow> block \<Rightarrow> RepairFrame list outcome" where
  "reedSolomon_repairSymbols Encode b =
     (if \<not> isComplete b
      then Err (ErrorString ''block does not have enough source symbols to generate repair symbols'')
      else if blk_biggestSourceSymbolLenSoFar b > int MaxFECPacketBufferSize
      then Err (ErrorString ''source symbol payload len is greater is too big for FEC headers'')
      else
        let n = nat (blk_totNumSourceSymbols b); k = nat (blk_totNumRepairSymbols b) in
        bindr (mapr (\<lambda>i. addLengthToSourceSymbolPayload b (blk_smallestSSID b + of_nat i)) [0..<n]) (\<lambda>srcs.
        let repairShard = replicate (nat (RepairPayloadMetadataLen + blk_biggestSourceSymbolLenSoFar b)) 0 in
        bindr (Encode (srcs @ replicate k repairShard)) (\<lambda>shards.
        mapr (\<lambda>i. if n + i \<ge> length shards then Panic ''index out of range''
                  else Ok \<lparr>rf_Metadata = \<lparr>bm_BlockID = blk_id b, bm_ParityID = of_nat i\<rparr>,
                           rf_Payload = shards ! (n + i)\<rparr>) [0..<k])))"

fun put_repairs :: "nat \<Rightarrow> shards \<Rightarrow> (u64 \<times> byte list) list \<Rightarrow> shards outcome" where
  "put_repairs n shards [] = Ok shards"
| "put_repairs n shards ((parityID, payload) # ps) =
     (let i = int n + to_i64 parityID in
      if i < 0 \<or> i \<ge> int (length shards) then Panic ''index out of range''
      else put_repairs n (shards[nat i := payload]) ps)"

definition shardPayload :: "int \<Rightarrow> byte list \<Rightarrow> byte list outcome" where
  "shardPayload biggest shard =
     (if biggest < 0 \<or> biggest + 1 \<ge> int (length shard) then Panic ''index out of range''
      else let payloadLen = push_bit 8 (ucast (shard ! nat biggest) :: 16 word)
                 OR ucast (shard ! (nat biggest + 1))
        in if unat payloadLen > length shard then Panic ''slice bounds out of range''
           else Ok (take (unat payloadLen) shard))"

definition reedSolomon_recoverSymbolPayloads :: "(shards \<Rightarrow> shards outcome) \<Rightarrow> block \<Rightarrow> block \<times> byte list outcome" where
  "reedSolomon_recoverSymbolPayloads ReconstructData b =
     (if \<not> isRecoverable b
      then (b, Err (ErrorString ''not enough present symbols to repair the missing ones''))
      else if isComplete b then (b, Ok [])
      else
        let n = nat (blk_totNumSourceSymbols b); k = nat (blk_totNumRepairSymbols b);
            ssid = (\<lambda>i. blk_smallestSSID b + of_nat i);
            missing = filter (\<lambda>i. map_of (blk_ssidToSourcePayload b) (ssid i) = None) [0..<n]
        in (b,
          bindr (mapr (\<lambda>i. if map_of (blk_ssidToSourcePayload b) (ssid i) = None then Ok []
                           else addLengthToSourceSymbolPayload b (ssid i)) [0..<n]) (\<lambda>srcs.
          bindr (put_repairs n (srcs @ replicate k []) (blk_pidToRepairPayload b)) (\<lambda>shards.
          bindr (ReconstructData shards) (\<lambda>shards.
          bindr (mapr (\<lambda>i. if i \<ge> length shards then Panic ''index out of range''
                           else shardPayload (blk_biggestSourceSymbolLenSoFar b) (shards ! i)) missing) (\<lambda>ps.
          Ok (concat ps)))))))"

definition reedSolomonScheme :: "(shards \<Rightarrow> shards outcome) \<Rightarrow> (shards \<Rightarrow> shards outcome) \<Rightarrow> BlockFECScheme" where
  "reedSolomonScheme Encode ReconstructData =
     \<lparr>sch_repairSymbols = reedSolomon_repairSymbols Encode,
      sch_recoverSymbolPayloads = reedSolomon_recoverSymbolPayloads ReconstructData\<rparr>"

section \<open>What the package documents\<close>

text \<open>
  \<^verbatim>\<open>Encode\<close> leaves the \<open>n\<close> data shards alone and fills the \<open>k\<close> parity shards, all of the
  same size. \<^verbatim>\<open>ReconstructData\<close> restores the data shards when at least \<open>n\<close> of the \<open>n + k\<close>
  shards are present; a missing shard is one of length zero.
\<close>

definition shards_of :: "nat \<Rightarrow> nat \<Rightarrow> shards \<Rightarrow> bool" where
  "shards_of n L ds \<longleftrightarrow> length ds = n \<and> (\<forall>d \<in> set ds. length d = L)"

definition rs_codeword :: "nat \<Rightarrow> nat \<Rightarrow> (shards \<Rightarrow> shards outcome) \<Rightarrow> (shards \<Rightarrow> shards outcome) \<Rightarrow>
    nat \<Rightarrow> shards \<Rightarrow> shards \<Rightarrow> bool" where
  "rs_codeword n k Encode ReconstructData L ds ps \<longleftrightarrow> shards_of k L ps
     \<and> (\<forall>zs. shards_of k L zs \<longrightarrow> Encode (ds @ zs) = Ok (ds @ ps))
     \<and> (\<forall>xs. length xs = n + k \<longrightarrow> (\<forall>i < n + k. xs ! i = [] \<or> xs ! i = (ds @ ps) ! i) \<longrightarrow>
          n \<le> length (filter (\<lambda>x. x \<noteq> []) xs) \<longrightarrow>
          (\<exists>ys. ReconstructData xs = Ok ys \<and> length ys = n + k \<and> take n ys = ds))"

lemma rs_codewordD:
  "rs_codeword n k Encode ReconstructData L ds ps \<Longrightarrow> length xs = n + k \<Longrightarrow>
     \<forall>i < n + k. xs ! i = [] \<or> xs ! i = (ds @ ps) ! i \<Longrightarrow> n \<le> length (filter (\<lambda>x. x \<noteq> []) xs) \<Longrightarrow>
     \<exists>ys. ReconstructData xs = Ok ys \<and> length ys = n + k \<and> take n ys = ds"
  by (simp add: rs_codeword_def)

definition rs_laws :: "nat \<Rightarrow> nat \<Rightarrow> (shards \<Rightarrow> shards outcome) \<Rightarrow> (shards \<Rightarrow> shards outcome) \<Rightarrow> bool" where
  "rs_laws n k Encode ReconstructData \<longleftrightarrow>
     (\<forall>L ds. 0 < L \<longrightarrow> shards_of n L ds \<longrightarrow> (\<exists>ps. rs_codeword n k Encode ReconstructData L ds ps))"

section \<open>Shards\<close>

text \<open>The shard of a payload: padded to \<open>L\<close> bytes, followed by its length.\<close>

definition shard :: "nat \<Rightarrow> byte list \<Rightarrow> byte list" where
  "shard L p = p @ replicate (L - length p) 0 @ [highByte p, lowByte p]"

lemma length_shard [simp]: "length p \<le> L \<Longrightarrow> length (shard L p) = L + 2"
  by (simp add: shard_def)

lemma shard_nonempty [simp]: "shard L p \<noteq> []"
  by (simp add: shard_def)

lemma shardPayload_shard:
  assumes "length p \<le> L" "L \<le> MaxFECPacketBufferSize"
  shows "shardPayload (int L) (shard L p) = Ok p"
proof -
  have "shard L p ! L = highByte p" "shard L p ! (L + 1) = lowByte p" "take (length p) (shard L p) = p"
    using assms by (simp_all add: shard_def nth_append Suc_diff_le)
  moreover have "length p < 2 ^ 16"
    using assms by (simp add: MaxFECPacketBufferSize_def MaxPacketBufferSize_def)
  ultimately show ?thesis
    using assms length_bytes [of p] by (simp add: shardPayload_def Let_def)
qed

lemma addLength_shard:
  assumes "map_of (blk_ssidToSourcePayload b) s = Some p" "p \<noteq> []" "length p \<le> L"
    and "blk_biggestSourceSymbolLenSoFar b = int L" "L \<le> MaxFECPacketBufferSize"
  shows "addLengthToSourceSymbolPayload b s = Ok (shard L p)"
proof -
  have cap: "payload_cap p = MaxPacketBufferSize" "L + 2 \<le> MaxPacketBufferSize"
    using assms by (simp_all add: payload_cap_def MaxFECPacketBufferSize_def MaxPacketBufferSize_def MaxFECHeaderOverhead_def)
  define m where "m = MaxPacketBufferSize - (L + 2)"
  have m: "MaxPacketBufferSize - length p = (L - length p) + 2 + m"
    using cap(2) assms(3) by (simp add: m_def)
  have "take (L + 2) (p @ replicate (MaxPacketBufferSize - length p) 0) = p @ replicate (L - length p) 0 @ [0, 0]"
    using assms(3) unfolding m replicate_add by (simp add: numeral_2_eq_2)
  then show ?thesis
    using assms cap
    by (simp add: addLengthToSourceSymbolPayload_def Let_def RepairPayloadMetadataLen_def shard_def
        nat_add_distrib list_update_append Suc_diff_le)
qed

section \<open>Recovery\<close>

text \<open>The source payloads of a block in the order of their identifiers.\<close>

definition source_list :: "nat \<Rightarrow> block \<Rightarrow> byte list list" where
  "source_list n b = map (\<lambda>i. the (map_of (blk_ssidToSourcePayload b) (blk_smallestSSID b + of_nat i))) [0..<n]"

definition payloads_ok :: "nat \<Rightarrow> (u64 \<times> byte list) list \<Rightarrow> bool" where
  "payloads_ok L ps \<longleftrightarrow> (\<forall>q \<in> set ps. snd q \<noteq> [] \<and> length (snd q) \<le> L)"

lemma payloads_ok_lookup:
  "payloads_ok L ps \<Longrightarrow> map_of ps s = Some p \<Longrightarrow> p \<noteq> [] \<and> length p \<le> L"
  by (force simp: payloads_ok_def dest: map_of_SomeD)

lemma block_ids_ssid:
  "block_inv n b \<Longrightarrow> i < n \<Longrightarrow> blk_smallestSSID b + of_nat i \<in> set (block_ids (blk_id b) n)"
  by (auto simp: block_inv_def block_ids_def)

lemma complete_lookup:
  assumes "block_inv n b" "isComplete b" "i < n"
  shows "map_of (blk_ssidToSourcePayload b) (blk_smallestSSID b + of_nat i) = Some (source_list n b ! i)"
proof -
  have "blk_smallestSSID b + of_nat i \<in> fst ` set (blk_ssidToSourcePayload b)"
    using block_ids_ssid [OF assms(1,3)] block_inv_card(2) [OF assms(1)] assms(2) by simp
  then have "map_of (blk_ssidToSourcePayload b) (blk_smallestSSID b + of_nat i) \<noteq> None"
    by (simp add: map_of_eq_None_iff)
  then show ?thesis
    using assms(3) by (auto simp: source_list_def)
qed

text \<open>The repair frames of a complete block.\<close>

lemma rs_repairSymbols_spec:
  assumes laws: "rs_laws n k Encode ReconstructData"
    and b: "block_inv n b" "isComplete b" "blk_totNumRepairSymbols b = int k"
      "blk_biggestSourceSymbolLenSoFar b = int L" "payloads_ok L (blk_ssidToSourcePayload b)"
      "L \<le> MaxFECPacketBufferSize"
  shows "\<exists>ps. rs_codeword n k Encode ReconstructData (L + 2) (map (shard L) (source_list n b)) ps
    \<and> reedSolomon_repairSymbols Encode b = Ok (map (\<lambda>i. \<lparr>rf_Metadata = \<lparr>bm_BlockID = blk_id b,
         bm_ParityID = of_nat i\<rparr>, rf_Payload = ps ! i\<rparr>) [0..<k])"
proof -
  let ?ds = "map (shard L) (source_list n b)"
  have tot: "blk_totNumSourceSymbols b = int n"
    using b(1) by (simp add: block_inv_def)
  have len: "source_list n b ! i \<noteq> [] \<and> length (source_list n b ! i) \<le> L" if "i < n" for i
    using payloads_ok_lookup [OF b(5) complete_lookup [OF b(1,2) that]] .
  have src: "mapr (\<lambda>i. addLengthToSourceSymbolPayload b (blk_smallestSSID b + of_nat i)) [0..<n] = Ok ?ds"
  proof -
    have "addLengthToSourceSymbolPayload b (blk_smallestSSID b + of_nat i) = Ok (shard L (source_list n b ! i))"
      if "i \<in> set [0..<n]" for i
      using that len [of i] b(4,6) by (intro addLength_shard [OF complete_lookup [OF b(1,2)]]) simp_all
    then have "mapr (\<lambda>i. addLengthToSourceSymbolPayload b (blk_smallestSSID b + of_nat i)) [0..<n]
        = Ok (map (\<lambda>i. shard L (source_list n b ! i)) [0..<n])"
      by (rule mapr_Ok)
    then show ?thesis
      by (simp add: source_list_def)
  qed
  have "shards_of n (L + 2) ?ds"
    using len by (auto simp: shards_of_def source_list_def in_set_conv_nth)
  then obtain ps where cw: "rs_codeword n k Encode ReconstructData (L + 2) ?ds ps"
    using laws by (fastforce simp: rs_laws_def)
  then have ps: "shards_of k (L + 2) ps" "\<And>zs. shards_of k (L + 2) zs \<Longrightarrow> Encode (?ds @ zs) = Ok (?ds @ ps)"
    by (simp_all add: rs_codeword_def)
  have enc: "Encode (?ds @ replicate k (replicate (L + 2) 0)) = Ok (?ds @ ps)"
    by (intro ps(2)) (simp add: shards_of_def)
  have "reedSolomon_repairSymbols Encode b = mapr (\<lambda>i. if n + i \<ge> length (?ds @ ps) then Panic ''index out of range''
      else Ok \<lparr>rf_Metadata = \<lparr>bm_BlockID = blk_id b, bm_ParityID = of_nat i\<rparr>,
               rf_Payload = (?ds @ ps) ! (n + i)\<rparr>) [0..<k]"
    using b(2-4,6) src enc
    by (simp add: reedSolomon_repairSymbols_def tot Let_def RepairPayloadMetadataLen_def nat_add_distrib
        add.commute del: replicate_Suc replicate_add)
  also have "\<dots> = Ok (map (\<lambda>i. \<lparr>rf_Metadata = \<lparr>bm_BlockID = blk_id b, bm_ParityID = of_nat i\<rparr>,
               rf_Payload = ps ! i\<rparr>) [0..<k])"
    using ps(1) by (intro mapr_Ok) (auto simp: shards_of_def nth_append source_list_def)
  finally show ?thesis
    using cw by blast
qed

lemma length_filter_keys:
  assumes "distinct (map fst xs)" "inj_on f {0..<n}" "fst ` set xs \<subseteq> f ` {0..<n}"
  shows "length (filter (\<lambda>i. map_of xs (f i) \<noteq> None) [0..<n]) = length xs"
proof -
  let ?I = "{i. i < n \<and> f i \<in> fst ` set xs}"
  have "length (filter (\<lambda>i. map_of xs (f i) \<noteq> None) [0..<n]) = card ?I"
    unfolding length_filter_conv_card map_of_eq_None_iff
    by (intro arg_cong [where f = card] Collect_cong) force+
  also have "\<dots> = card (f ` ?I)"
    by (rule card_image [symmetric], rule inj_on_subset [OF assms(2)]) auto
  also have "f ` ?I = fst ` set xs"
  proof -
    have "f ` {i. i < n \<and> f i \<in> K} = K" if "K \<subseteq> f ` {0..<n}" for K
      using that by auto
    from this [OF assms(3)] show ?thesis .
  qed
  finally show ?thesis
    using distinct_card [OF assms(1)] by simp
qed

lemma word_of_nat_inj_64:
  assumes "int a < 2 ^ 63" "int b < 2 ^ 63"
  shows "(of_nat a :: u64) = of_nat b \<longleftrightarrow> a = b"
proof
  assume eq: "(of_nat a :: u64) = of_nat b"
  have "a < 2 ^ 64" "b < 2 ^ 64"
    using assms by simp_all
  then show "a = b"
    using uint_word_of_nat_64 [of a] uint_word_of_nat_64 [of b] unfolding eq by simp
qed simp

lemma put_repairs_Ok:
  assumes "length A = n" "length B = k" "int n + int k < 2 ^ 63" "distinct (map fst reps)"
    and "\<forall>q \<in> set reps. \<exists>j < k. fst q = of_nat j"
  shows "\<exists>C. put_repairs n (A @ B) reps = Ok (A @ C) \<and> length C = k
    \<and> (\<forall>j < k. C ! j = (case map_of reps (of_nat j) of Some p \<Rightarrow> p | None \<Rightarrow> B ! j))"
  using assms(2,4,5)
proof (induction reps arbitrary: B)
  case (Cons q reps)
  then obtain j0 where j0: "j0 < k" "fst q = of_nat j0"
    by auto
  have "to_i64 (of_nat j0 :: u64) = int j0"
    using j0(1) assms(3) by (simp add: to_i64_uint uint_word_of_nat_64)
  then have step: "put_repairs n (A @ B) (q # reps) = put_repairs n (A @ B[j0 := snd q]) reps"
    using j0 assms(1) Cons.prems(1) by (cases q) (simp add: Let_def nat_add_distrib list_update_append)
  obtain C where C: "put_repairs n (A @ B[j0 := snd q]) reps = Ok (A @ C)" "length C = k"
      "\<forall>j < k. C ! j = (case map_of reps (of_nat j) of Some p \<Rightarrow> p | None \<Rightarrow> B[j0 := snd q] ! j)"
    using Cons.IH [of "B[j0 := snd q]"] Cons.prems by auto
  have inj: "(of_nat j :: u64) = of_nat j0 \<longleftrightarrow> j = j0" if "j < k" for j
    using that j0(1) assms(3) by (intro word_of_nat_inj_64) auto
  have "C ! j = (case map_of (q # reps) (of_nat j) of Some p \<Rightarrow> p | None \<Rightarrow> B ! j)" if "j < k" for j
  proof (cases "j = j0")
    case True
    moreover have "map_of reps (of_nat j0) = None"
      using Cons.prems(2) j0(2) by (simp add: map_of_eq_None_iff)
    ultimately show ?thesis
      using C(3) j0 Cons.prems(1) by (cases q) simp
  next
    case False
    then show ?thesis
      using C(3) that j0(2) inj [OF that] by (cases q) (simp split: option.split)
  qed
  then show ?case
    using C(1,2) step by auto
qed simp

text \<open>
  What a receiver holds of a block of the sender: some of its source symbols, and some of
  its repair symbols \<open>ps\<close>, at least one of them.
\<close>

definition received_part :: "nat \<Rightarrow> nat \<Rightarrow> nat \<Rightarrow> block \<Rightarrow> shards \<Rightarrow> block \<Rightarrow> bool" where
  "received_part n k L b ps b' \<longleftrightarrow> block_inv n b' \<and> blk_id b' = blk_id b
     \<and> blk_totNumRepairSymbols b' = int k \<and> blk_biggestSourceSymbolLenSoFar b' = int L
     \<and> (\<forall>s p. map_of (blk_ssidToSourcePayload b') s = Some p \<longrightarrow> map_of (blk_ssidToSourcePayload b) s = Some p)
     \<and> (\<forall>q \<in> set (blk_pidToRepairPayload b'). \<exists>j < k. q = (of_nat j, ps ! j))"

definition missing_ids :: "nat \<Rightarrow> block \<Rightarrow> nat list" where
  "missing_ids n b = filter (\<lambda>i. map_of (blk_ssidToSourcePayload b) (blk_smallestSSID b + of_nat i) = None) [0..<n]"

lemma received_shards:
  assumes b: "block_inv n b" "isComplete b" "payloads_ok L (blk_ssidToSourcePayload b)" "L \<le> MaxFECPacketBufferSize"
    and r: "received_part n k L b ps b'"
  shows "mapr (\<lambda>i. if map_of (blk_ssidToSourcePayload b') (blk_smallestSSID b' + of_nat i) = None then Ok []
       else addLengthToSourceSymbolPayload b' (blk_smallestSSID b' + of_nat i)) [0..<n]
    = Ok (map (\<lambda>i. if map_of (blk_ssidToSourcePayload b') (blk_smallestSSID b' + of_nat i) = None then []
       else shard L (source_list n b ! i)) [0..<n])"
proof (rule mapr_Ok)
  fix i assume "i \<in> set [0..<n]"
  then have i: "i < n" by simp
  let ?s = "blk_smallestSSID b' + of_nat i"
  have s: "blk_smallestSSID b = blk_smallestSSID b'"
    using b(1) r by (simp add: received_part_def block_inv_def)
  show "(if map_of (blk_ssidToSourcePayload b') ?s = None then Ok [] else addLengthToSourceSymbolPayload b' ?s) =
      Ok (if map_of (blk_ssidToSourcePayload b') ?s = None then [] else shard L (source_list n b ! i))"
  proof (cases "map_of (blk_ssidToSourcePayload b') ?s")
    case (Some p)
    then have "p = source_list n b ! i"
      using r complete_lookup [OF b(1,2) i] s by (simp add: received_part_def)
    then show ?thesis
      using Some payloads_ok_lookup [OF b(3) complete_lookup [OF b(1,2) i]] r b(4)
        addLength_shard [OF Some] by (simp add: received_part_def)
  qed simp
qed

lemma inj_block_ssid: "block_inv n b \<Longrightarrow> inj_on (\<lambda>i. blk_smallestSSID b + of_nat i) {0..<n}"
  using distinct_block_ids [of "blk_id b" n] by (simp add: block_inv_def block_ids_def distinct_map)

lemma received_repair:
  assumes "received_part n k L b ps b'" "map_of (blk_pidToRepairPayload b') (of_nat j) = Some p" "j < k"
    and "int n + int k < 2 ^ 63"
  shows "p = ps ! j"
proof -
  obtain j' where j': "j' < k" "(of_nat j :: u64, p) = (of_nat j', ps ! j')"
    using assms(1) map_of_SomeD [OF assms(2)] unfolding received_part_def by blast
  moreover have "(of_nat j :: u64) = of_nat j' \<longleftrightarrow> j = j'"
    using assms(3,4) j'(1) by (intro word_of_nat_inj_64) auto
  ultimately show ?thesis
    by auto
qed

lemma received_count:
  shows "block_inv n b' \<Longrightarrow> length (filter (\<lambda>i. map_of (blk_ssidToSourcePayload b') (blk_smallestSSID b' + of_nat i) \<noteq> None) [0..<n])
      = length (blk_ssidToSourcePayload b')"
    and "received_part n k L b ps b' \<Longrightarrow> int n + int k < 2 ^ 63 \<Longrightarrow>
      length (filter (\<lambda>j. map_of (blk_pidToRepairPayload b') (of_nat j) \<noteq> None) [0..<k]) = length (blk_pidToRepairPayload b')"
proof -
  assume inv: "block_inv n b'"
  then have "fst ` set (blk_ssidToSourcePayload b') \<subseteq> (\<lambda>i. blk_smallestSSID b' + of_nat i) ` {0..<n}"
    by (simp add: block_inv_def block_ids_def)
  then show "length (filter (\<lambda>i. map_of (blk_ssidToSourcePayload b') (blk_smallestSSID b' + of_nat i) \<noteq> None) [0..<n])
      = length (blk_ssidToSourcePayload b')"
    using inv inj_block_ssid [OF inv] by (intro length_filter_keys) (simp_all add: block_inv_def)
next
  assume r: "received_part n k L b ps b'" and nk: "int n + int k < 2 ^ 63"
  have "distinct (map fst (blk_pidToRepairPayload b'))"
    using r unfolding received_part_def block_inv_def by blast
  moreover have "fst ` set (blk_pidToRepairPayload b') \<subseteq> of_nat ` {0..<k}"
    using r unfolding received_part_def by fastforce
  moreover have "inj_on (of_nat :: nat \<Rightarrow> u64) {0..<k}"
    using nk by (intro inj_onI) (simp add: word_of_nat_inj_64)
  ultimately show "length (filter (\<lambda>j. map_of (blk_pidToRepairPayload b') (of_nat j) \<noteq> None) [0..<k]) = length (blk_pidToRepairPayload b')"
    by (intro length_filter_keys)
qed

lemma rs_recover_spec:
  assumes b: "block_inv n b" "isComplete b" "payloads_ok L (blk_ssidToSourcePayload b)" "L \<le> MaxFECPacketBufferSize"
    and cw: "rs_codeword n k Encode ReconstructData (L + 2) (map (shard L) (source_list n b)) ps"
    and r: "received_part n k L b ps b'" "isRecoverable b'" "\<not> isComplete b'" and nk: "int n + int k < 2 ^ 63"
  shows "reedSolomon_recoverSymbolPayloads ReconstructData b' =
    (b', Ok (concat (map (\<lambda>i. source_list n b ! i) (missing_ids n b'))))"
proof -
  let ?S = "blk_ssidToSourcePayload b'" and ?R = "blk_pidToRepairPayload b'" and ?ds = "map (shard L) (source_list n b)"
  let ?ssid = "\<lambda>i. blk_smallestSSID b' + of_nat i"
  define A where "A = map (\<lambda>i. if map_of ?S (?ssid i) = None then [] else shard L (source_list n b ! i)) [0..<n]"
  have inv: "block_inv n b'"
    using r(1) unfolding received_part_def by blast
  have tot: "blk_totNumSourceSymbols b' = int n" "blk_totNumRepairSymbols b' = int k"
      "blk_biggestSourceSymbolLenSoFar b' = int L"
    using r(1) by (simp_all add: received_part_def block_inv_def)
  have dist: "distinct (map fst ?R)" "distinct (map fst ?S)"
    using inv by (simp_all add: block_inv_def)
  have "\<forall>q \<in> set ?R. \<exists>j < k. fst q = of_nat j"
    using r(1) by (fastforce simp: received_part_def)
  from put_repairs_Ok [OF _ length_replicate [of k "[]"] nk dist(1) this, of A]
  obtain C where C: "put_repairs n (A @ replicate k []) ?R = Ok (A @ C)" "length C = k"
      "\<forall>j < k. C ! j = (case map_of ?R (of_nat j) of Some p \<Rightarrow> p | None \<Rightarrow> replicate k [] ! j)"
    unfolding A_def by auto
  have ps: "length ps = k" "\<And>j. j < k \<Longrightarrow> ps ! j \<noteq> []"
    using cw nth_mem [of _ ps] by (fastforce simp: rs_codeword_def shards_of_def)+
  have Cps: "C ! j = (if map_of ?R (of_nat j) = None then [] else ps ! j)" if "j < k" for j
    using C(3) that received_repair [OF r(1) _ that] nk by (auto split: option.split)
  have "n \<le> length (filter (\<lambda>x. x \<noteq> []) (A @ C))"
  proof -
    have "length (filter (\<lambda>x. x \<noteq> []) A) = length ?S"
      using received_count(1) [OF inv] unfolding A_def filter_map o_def by (simp add: if_distrib cong: filter_cong)
    moreover have "length (filter (\<lambda>x. x \<noteq> []) C) = length ?R"
    proof -
      have "C = map (\<lambda>j. if map_of ?R (of_nat j) = None then [] else ps ! j) [0..<k]"
        using C(2) Cps by (intro nth_equalityI) simp_all
      moreover have "filter (\<lambda>j. (if map_of ?R (of_nat j) = None then [] else ps ! j) \<noteq> []) [0..<k]
          = filter (\<lambda>j. map_of ?R (of_nat j) \<noteq> None) [0..<k]"
        using ps(2) by (intro filter_cong) auto
      ultimately show ?thesis
        using received_count(2) [OF r(1) nk] by (simp only: filter_map o_def length_map)
    qed
    ultimately show ?thesis
      using r(2) by (simp add: isRecoverable_def tot)
  qed
  moreover have "\<forall>i < n + k. (A @ C) ! i = [] \<or> (A @ C) ! i = (?ds @ ps) ! i"
    using Cps by (auto simp: nth_append A_def source_list_def)
  moreover have "length (A @ C) = n + k"
    by (simp add: A_def C(2))
  ultimately obtain ys where ys: "ReconstructData (A @ C) = Ok ys" "length ys = n + k" "take n ys = ?ds"
    using rs_codewordD [OF cw, of "A @ C"] by blast
  have nth: "ys ! i = shard L (source_list n b ! i)" if "i < n" for i
    using ys(3) that by (metis (no_types, lifting) diff_zero length_map length_upt nth_map nth_take source_list_def)
  have "mapr (\<lambda>i. if i \<ge> length ys then Panic ''index out of range'' else shardPayload (blk_biggestSourceSymbolLenSoFar b') (ys ! i)) (missing_ids n b')
      = Ok (map (\<lambda>i. source_list n b ! i) (missing_ids n b'))"
  proof (rule mapr_Ok)
    fix i assume "i \<in> set (missing_ids n b')"
    then have i: "i < n" by (simp add: missing_ids_def)
    then show "(if i \<ge> length ys then Panic ''index out of range'' else shardPayload (blk_biggestSourceSymbolLenSoFar b') (ys ! i))
        = Ok (source_list n b ! i)"
      using tot(3) ys(2) nth [OF i] shardPayload_shard [OF _ b(4)] payloads_ok_lookup [OF b(3) complete_lookup [OF b(1,2) i]] by simp
  qed
  then show ?thesis
    using r(2,3) received_shards [OF b r(1)] C(1) ys(1)
    by (simp add: reedSolomon_recoverSymbolPayloads_def tot Let_def missing_ids_def flip: A_def)
qed

text \<open>
  C22 (rs-recovers). Let a block be complete at the sender, no payload empty or longer than
  1434 bytes, and let the code satisfy its documented laws. \<^verbatim>\<open>repairSymbols\<close> gives \<open>k\<close>
  repair frames with parity identifiers \<open>0 .. k - 1\<close>, and a receiver that holds any \<open>n\<close> or
  more of the \<open>n + k\<close> symbols gets from \<^verbatim>\<open>recoverSymbolPayloads\<close> exactly the payloads of the
  missing source symbols, one after the other in the order of their identifiers.
\<close>

theorem rs_recovers_lost_symbols:
  assumes "rs_laws n k Encode ReconstructData" "int n + int k < 2 ^ 63"
    and "block_inv n b" "isComplete b" "blk_totNumRepairSymbols b = int k"
      "blk_biggestSourceSymbolLenSoFar b = int L" "payloads_ok L (blk_ssidToSourcePayload b)"
      "L \<le> MaxFECPacketBufferSize"
  shows "\<exists>ps. reedSolomon_repairSymbols Encode b = Ok (map (\<lambda>i. \<lparr>rf_Metadata = \<lparr>bm_BlockID = blk_id b,
         bm_ParityID = of_nat i\<rparr>, rf_Payload = ps ! i\<rparr>) [0..<k])
    \<and> (\<forall>b'. received_part n k L b ps b' \<and> isRecoverable b' \<and> \<not> isComplete b' \<longrightarrow>
         reedSolomon_recoverSymbolPayloads ReconstructData b' =
           (b', Ok (concat (map (\<lambda>i. source_list n b ! i) (missing_ids n b')))))"
proof -
  obtain ps where cw: "rs_codeword n k Encode ReconstructData (L + 2) (map (shard L) (source_list n b)) ps"
    and rep: "reedSolomon_repairSymbols Encode b = Ok (map (\<lambda>i. \<lparr>rf_Metadata = \<lparr>bm_BlockID = blk_id b,
         bm_ParityID = of_nat i\<rparr>, rf_Payload = ps ! i\<rparr>) [0..<k])"
    using rs_repairSymbols_spec [OF assms(1,3-8)] by blast
  show ?thesis
    using rep rs_recover_spec [OF assms(3,4,7,8) cw _ _ _ assms(2)] by blast
qed

text \<open>
  An instance of the laws: the code with one data shard and one copy of it.
\<close>

definition copy_Encode :: "shards \<Rightarrow> shards outcome" where
  "copy_Encode xs = Ok [xs ! 0, xs ! 0]"

definition copy_ReconstructData :: "shards \<Rightarrow> shards outcome" where
  "copy_ReconstructData xs = Ok (if xs ! 0 = [] then [xs ! 1, xs ! 1] else [xs ! 0, xs ! 1])"

lemma copy_laws: "rs_laws 1 1 copy_Encode copy_ReconstructData"
  unfolding rs_laws_def
proof (intro allI impI)
  fix L ds assume "0 < (L :: nat)" "shards_of 1 L ds"
  then obtain d where d: "ds = [d]" "length d = L" "d \<noteq> []"
    by (cases ds) (auto simp: shards_of_def)
  have "\<exists>ys. copy_ReconstructData xs = Ok ys \<and> length ys = 1 + 1 \<and> take 1 ys = ds"
    if len: "length xs = 1 + 1" and sub: "\<forall>i < 1 + 1. xs ! i = [] \<or> xs ! i = (ds @ [d]) ! i"
      and ne: "1 \<le> length (filter (\<lambda>x. x \<noteq> []) xs)" for xs
  proof -
    obtain x y where xs: "xs = [x, y]"
      using len by (auto simp: length_Suc_conv)
    have "x = [] \<or> x = d" "y = [] \<or> y = d"
      using sub [rule_format, of 0] sub [rule_format, of 1] by (simp_all add: xs d(1))
    then show ?thesis
      using ne by (auto simp: copy_ReconstructData_def xs d(1))
  qed
  then have "rs_codeword 1 1 copy_Encode copy_ReconstructData L ds [d]"
    unfolding rs_codeword_def using d by (simp add: shards_of_def copy_Encode_def)
  then show "\<exists>ps. rs_codeword 1 1 copy_Encode copy_ReconstructData L ds ps"
    by blast
qed

theorem rs_recovers_lost_symbols_witness:
  "\<exists>ps. reedSolomon_repairSymbols copy_Encode ((newBlock 5 1 1)\<lparr>blk_ssidToSourcePayload := [(5, [7, 8])],
        blk_biggestSourceSymbolLenSoFar := 2\<rparr>) =
      Ok [\<lparr>rf_Metadata = \<lparr>bm_BlockID = 5, bm_ParityID = 0\<rparr>, rf_Payload = ps ! 0\<rparr>]
    \<and> snd (reedSolomon_recoverSymbolPayloads copy_ReconstructData
        ((newBlock 5 1 1)\<lparr>blk_pidToRepairPayload := [(0, ps ! 0)], blk_biggestSourceSymbolLenSoFar := 2\<rparr>)) = Ok [7, 8]"
proof -
  let ?b = "(newBlock 5 1 1)\<lparr>blk_ssidToSourcePayload := [(5, [7, 8])], blk_biggestSourceSymbolLenSoFar := 2\<rparr>"
  let ?b' = "\<lambda>p. (newBlock 5 1 1)\<lparr>blk_pidToRepairPayload := [(0, p)], blk_biggestSourceSymbolLenSoFar := 2\<rparr>"
  have w: "no_wrap 5 1"
    by (simp add: no_wrap_def)
  then have inv: "block_inv 1 ?b" "isComplete ?b" "\<And>p. block_inv 1 (?b' p)"
    and s: "blk_smallestSSID ?b = 5" "\<And>p. blk_smallestSSID (?b' p) = 5"
    using newBlock_inv [OF w, of 1] by (simp_all add: block_inv_def block_ids_def isComplete_def)
  moreover have "payloads_ok 2 (blk_ssidToSourcePayload ?b)" "(2::nat) \<le> MaxFECPacketBufferSize"
    by (simp_all add: payloads_ok_def MaxFECPacketBufferSize_def MaxPacketBufferSize_def MaxFECHeaderOverhead_def)
  ultimately obtain ps where ps: "reedSolomon_repairSymbols copy_Encode ?b =
        Ok [\<lparr>rf_Metadata = \<lparr>bm_BlockID = 5, bm_ParityID = 0\<rparr>, rf_Payload = ps ! 0\<rparr>]"
      "\<And>b'. received_part 1 1 2 ?b ps b' \<Longrightarrow> isRecoverable b' \<Longrightarrow> \<not> isComplete b' \<Longrightarrow>
        reedSolomon_recoverSymbolPayloads copy_ReconstructData b' =
          (b', Ok (concat (map (\<lambda>i. source_list 1 ?b ! i) (missing_ids 1 b'))))"
    using rs_recovers_lost_symbols [OF copy_laws, of ?b 2] by auto
  have "received_part 1 1 2 ?b ps (?b' (ps ! 0))" "isRecoverable (?b' (ps ! 0))" "\<not> isComplete (?b' (ps ! 0))"
    using inv by (simp_all add: received_part_def isRecoverable_def isComplete_def block_inv_def)
  then show ?thesis
    using ps s by (auto simp: source_list_def missing_ids_def)
qed

end
