(* ===== verification/FecManager.thy ===== *)
theory FecManager
  imports ReedSolomon
begin

text \<open>
  The FEC manager (\<^verbatim>\<open>internal/fec/manager.go\<close>): the sender that groups source symbols
  into blocks and emits repair frames, and the receiver that hands payloads to the
  connection and recovers lost ones. A block is shared by pointer, so an operation that
  fails after changing the block leaves the change behind: every operation returns the new
  manager together with its result. The lemmas show the invariant of the block table and
  the delivery of every source symbol from end to end when one of a block is lost.
\<close>

section \<open>The manager\<close>

record blockStatus =
  bs_block :: "block option"
  bs_isProcessed :: bool

record manager =
  mgr_scheme :: BlockFECScheme
  mgr_nextSID :: u64
  mgr_numTotSourceSymbols :: int
  mgr_numTotRepairSymbols :: int
  mgr_blockStatuses :: "u64 \<Rightarrow> blockStatus option"

datatype DecoderFECScheme = FECDisabled | XORFECScheme | ReedSolomonFECScheme | FECOther byte

definition NewManager :: "BlockFECScheme \<Rightarrow> int \<Rightarrow> int \<Rightarrow> manager outcome" where
  "NewManager scheme numTotSourceSymbols numTotRepairSymbols =
     (if numTotSourceSymbols < 0 \<or> numTotRepairSymbols < 0
      then Err (ErrorString ''numTotSourceSymbols and numTotRepairSymbols may not be negative'')
      else Ok \<lparr>mgr_scheme = scheme, mgr_nextSID = 0, mgr_numTotSourceSymbols = numTotSourceSymbols,
               mgr_numTotRepairSymbols = numTotRepairSymbols, mgr_blockStatuses = (\<lambda>_. None)\<rparr>)"

text \<open>
  \<^verbatim>\<open>reedsolomon.New\<close> is the constructor of the package; it returns the two methods of the
  encoder or an error. A sender or receiver that does not exist is the interface value
  \<^verbatim>\<open>nil\<close>, here \<^const>\<open>None\<close>.
\<close>

type_synonym rs_New = "int \<Rightarrow> int \<Rightarrow> ((shards \<Rightarrow> shards outcome) \<times> (shards \<Rightarrow> shards outcome)) outcome"

definition NewSender :: "rs_New \<Rightarrow> DecoderFECScheme \<Rightarrow> manager option outcome" where
  "NewSender rsNew scheme =
     (case scheme of
        FECDisabled \<Rightarrow> Ok None
      | XORFECScheme \<Rightarrow> bindr (NewManager xorScheme 2 1) (\<lambda>m. Ok (Some m))
      | ReedSolomonFECScheme \<Rightarrow>
          bindr (rsNew 20 10) (\<lambda>(Encode, ReconstructData).
          bindr (NewManager (reedSolomonScheme Encode ReconstructData) 20 10) (\<lambda>m. Ok (Some m)))
      | FECOther _ \<Rightarrow> Err (ErrorString ''unknown FEC scheme''))"

definition NewReceiver :: "rs_New \<Rightarrow> DecoderFECScheme \<Rightarrow> manager option outcome" where
  "NewReceiver rsNew scheme =
     (case scheme of
        FECDisabled \<Rightarrow> Ok None
      | XORFECScheme \<Rightarrow> bindr (NewManager xorScheme 2 1) (\<lambda>m. Ok (Some m))
      | ReedSolomonFECScheme \<Rightarrow>
          bindr (rsNew 20 10) (\<lambda>(Encode, ReconstructData).
          bindr (NewManager (reedSolomonScheme Encode ReconstructData) 20 10) (\<lambda>m. Ok (Some m)))
      | FECOther _ \<Rightarrow> Err (ErrorString ''unknown FEC scheme''))"

definition NextSSID :: "manager \<Rightarrow> manager \<times> u64" where
  "NextSSID m = (m\<lparr>mgr_nextSID := mgr_nextSID m + 1\<rparr>, mgr_nextSID m)"

definition sidToBlockID :: "manager \<Rightarrow> u64 \<Rightarrow> u64 outcome" where
  "sidToBlockID m sid =
     (if to_u64 (mgr_numTotSourceSymbols m) = 0 then Panic ''integer divide by zero''
      else Ok (sid div to_u64 (mgr_numTotSourceSymbols m)))"

text \<open>The lookup that creates the status of a block when there is none, and its update.\<close>

definition setStatus :: "manager \<Rightarrow> u64 \<Rightarrow> blockStatus \<Rightarrow> manager" where
  "setStatus m k bS = m\<lparr>mgr_blockStatuses := (mgr_blockStatuses m)(k \<mapsto> bS)\<rparr>"

definition ensureStatus :: "manager \<Rightarrow> u64 \<Rightarrow> manager \<times> blockStatus" where
  "ensureStatus m k =
     (case mgr_blockStatuses m k of
        Some bS \<Rightarrow> (m, bS)
      | None \<Rightarrow>
          let bS = \<lparr>bs_block = Some (newBlock k (mgr_numTotSourceSymbols m) (mgr_numTotRepairSymbols m)),
                    bs_isProcessed = False\<rparr>
          in (setStatus m k bS, bS))"

lemma setStatus_simps [simp]:
  "mgr_scheme (setStatus m k bS) = mgr_scheme m"
  "mgr_nextSID (setStatus m k bS) = mgr_nextSID m"
  "mgr_numTotSourceSymbols (setStatus m k bS) = mgr_numTotSourceSymbols m"
  "mgr_numTotRepairSymbols (setStatus m k bS) = mgr_numTotRepairSymbols m"
  "mgr_blockStatuses (setStatus m k bS) j = (if j = k then Some bS else mgr_blockStatuses m j)"
  by (simp_all add: setStatus_def)

lemma setStatus_twice [simp]: "setStatus (setStatus m k bS) k cS = setStatus m k cS"
  by (simp add: setStatus_def)

definition processed :: blockStatus where
  "processed = \<lparr>bs_block = None, bs_isProcessed = True\<rparr>"

definition AddSourceSymbolFrame :: "manager \<Rightarrow> SourceSymbolFrame \<Rightarrow> manager \<times> RepairFrame list outcome" where
  "AddSourceSymbolFrame m f =
     (case sidToBlockID m (ss_SSID f) of
        Panic p \<Rightarrow> (m, Panic p) | Err e \<Rightarrow> (m, Err e)
      | Ok blockID \<Rightarrow>
          let (m, bS) = ensureStatus m blockID in
          if bs_isProcessed bS then (m, Ok [])
          else case bs_block bS of
            None \<Rightarrow> (m, Panic ''nil pointer dereference'')
          | Some b \<Rightarrow>
              case addSourceSymbol b f of
                Panic p \<Rightarrow> (m, Panic p) | Err e \<Rightarrow> (m, Err e)
              | Ok b \<Rightarrow>
                  let m = setStatus m blockID \<lparr>bs_block = Some b, bs_isProcessed = False\<rparr> in
                  if isComplete b then
                    case sch_repairSymbols (mgr_scheme m) b of
                      Panic p \<Rightarrow> (m, Panic p) | Err e \<Rightarrow> (m, Err e)
                    | Ok repairSymbols \<Rightarrow> (setStatus m blockID processed, Ok repairSymbols)
                  else (m, Ok []))"

definition HandleRepairFrame :: "manager \<Rightarrow> RepairFrame \<Rightarrow> manager \<times> byte list outcome" where
  "HandleRepairFrame m f =
     (let blockID = bm_BlockID (rf_Metadata f);
          (m, bS) = ensureStatus m blockID in
      if bs_isProcessed bS then (m, Ok [])
      else case bs_block bS of
        None \<Rightarrow> (m, Panic ''nil pointer dereference'')
      | Some b \<Rightarrow>
          case addRepairSymbol b f of
            Panic p \<Rightarrow> (m, Panic p) | Err e \<Rightarrow> (m, Err e)
          | Ok b \<Rightarrow>
              if isRecoverable b then
                case sch_recoverSymbolPayloads (mgr_scheme m) b of
                  (b, Panic p) \<Rightarrow> (setStatus m blockID \<lparr>bs_block = Some b, bs_isProcessed = False\<rparr>, Panic p)
                | (b, Err e) \<Rightarrow> (setStatus m blockID \<lparr>bs_block = Some b, bs_isProcessed = False\<rparr>, Err e)
                | (b, Ok sourceSymbolBytes) \<Rightarrow> (setStatus m blockID processed, Ok sourceSymbolBytes)
              else (setStatus m blockID \<lparr>bs_block = Some b, bs_isProcessed = False\<rparr>, Ok []))"

definition HandleSourceSymbolFrame :: "manager \<Rightarrow> SourceSymbolFrame \<Rightarrow> manager \<times> byte list outcome" where
  "HandleSourceSymbolFrame m f =
     (case sidToBlockID m (ss_SSID f) of
        Panic p \<Rightarrow> (m, Panic p) | Err e \<Rightarrow> (m, Err e)
      | Ok blockID \<Rightarrow>
          let (m, bS) = ensureStatus m blockID in
          if bs_isProcessed bS then (m, Ok [])
          else case bs_block bS of
            None \<Rightarrow> (m, Panic ''nil pointer dereference'')
          | Some b \<Rightarrow>
              case addSourceSymbol b f of
                Panic p \<Rightarrow> (m, Panic p) | Err e \<Rightarrow> (m, Err e)
              | Ok b \<Rightarrow>
                  (setStatus m blockID
                     (if isComplete b then processed else \<lparr>bs_block = Some b, bs_isProcessed = False\<rparr>),
                   Ok (ss_Payload f)))"

section \<open>The block table\<close>

text \<open>
  The invariant of the table: a status is processed exactly when its block is dropped, a
  block is stored under its own identifier, and it satisfies the invariant of blocks
  unless its identifiers wrap around.
\<close>

definition status_inv :: "nat \<Rightarrow> u64 \<Rightarrow> blockStatus \<Rightarrow> bool" where
  "status_inv n k bS \<longleftrightarrow> (bs_isProcessed bS \<longleftrightarrow> bs_block bS = None)
     \<and> (\<forall>b. bs_block bS = Some b \<longrightarrow> blk_id b = k \<and> (no_wrap k n \<longrightarrow> block_inv n b))"

definition manager_inv :: "nat \<Rightarrow> manager \<Rightarrow> bool" where
  "manager_inv n m \<longleftrightarrow> mgr_numTotSourceSymbols m = int n \<and> 0 < n \<and> int n < 2 ^ 63
     \<and> (\<forall>k bS. mgr_blockStatuses m k = Some bS \<longrightarrow> status_inv n k bS)"

lemma status_inv_processed: "status_inv n k processed"
  by (simp add: status_inv_def processed_def)

lemma status_inv_block:
  "status_inv n k \<lparr>bs_block = Some b, bs_isProcessed = False\<rparr> \<longleftrightarrow> blk_id b = k \<and> (no_wrap k n \<longrightarrow> block_inv n b)"
  by (simp add: status_inv_def)

lemma manager_inv_setStatus: "manager_inv n m \<Longrightarrow> status_inv n k bS \<Longrightarrow> manager_inv n (setStatus m k bS)"
  by (simp add: manager_inv_def)

lemma ensureStatus_inv:
  assumes "manager_inv n m" "ensureStatus m k = (m', bS)"
  shows "manager_inv n m'" "status_inv n k bS" "mgr_scheme m' = mgr_scheme m"
proof -
  have "status_inv n k \<lparr>bs_block = Some (newBlock k (int n) r), bs_isProcessed = False\<rparr>" for r
    by (simp add: status_inv_block newBlock_inv)
  then show "manager_inv n m'" "status_inv n k bS" "mgr_scheme m' = mgr_scheme m"
    using assms
    by (auto simp: ensureStatus_def Let_def manager_inv_def split: option.splits if_splits)
qed

lemma addSymbol_id:
  "addSourceSymbol b f = Ok b' \<Longrightarrow> blk_id b' = blk_id b"
  "addRepairSymbol b g = Ok b' \<Longrightarrow> blk_id b' = blk_id b"
  by (auto simp: addSourceSymbol_def addRepairSymbol_def Let_def split: if_splits option.splits)

text \<open>
  What the manager needs of a scheme: recovery leaves a block of the same identity that
  satisfies the invariant.
\<close>

locale block_scheme =
  fixes s :: BlockFECScheme
  assumes recover_id: "sch_recoverSymbolPayloads s b = (b', r) \<Longrightarrow> blk_id b' = blk_id b"
    and recover_inv: "block_inv n b \<Longrightarrow> sch_recoverSymbolPayloads s b = (b', r) \<Longrightarrow> block_inv n b'"
begin

lemma HandleRepair_inv:
  assumes inv: "manager_inv n m" and sch: "mgr_scheme m = s" and op: "HandleRepairFrame m f = (m', r)"
  shows "manager_inv n m' \<and> mgr_scheme m' = s"
proof -
  let ?k = "bm_BlockID (rf_Metadata f)"
  obtain m1 bS where e: "ensureStatus m ?k = (m1, bS)" by fastforce
  note ei = ensureStatus_inv [OF inv e]
  show ?thesis
  proof (cases "bs_isProcessed bS")
    case True
    then show ?thesis
      using op ei sch by (simp add: HandleRepairFrame_def e)
  next
    case False
    then obtain b where b: "bs_block bS = Some b" "blk_id b = ?k" "no_wrap ?k n \<longrightarrow> block_inv n b"
      using ei(2) by (auto simp: status_inv_def)
    show ?thesis
    proof (cases "addRepairSymbol b f")
      case (Ok b1)
      have b1: "status_inv n ?k \<lparr>bs_block = Some b1, bs_isProcessed = False\<rparr>"
        using b Ok addSymbol_id(2) [OF Ok] addRepairSymbol_inv [OF _ Ok] by (simp add: status_inv_block)
      have "status_inv n ?k \<lparr>bs_block = Some b2, bs_isProcessed = False\<rparr>"
        if "sch_recoverSymbolPayloads s b1 = (b2, x)" for b2 x
        using b1 recover_id [OF that] recover_inv [OF _ that] by (simp add: status_inv_block)
      then show ?thesis
        using op False b(1) Ok b1 ei sch
        by (auto simp: HandleRepairFrame_def e status_inv_processed Let_def
            split: if_splits prod.splits outcome.splits intro!: manager_inv_setStatus)
    qed (use op False b(1) ei sch in \<open>simp_all add: HandleRepairFrame_def e\<close>)
  qed
qed

end

lemma AddSourceSymbolFrame_inv:
  assumes inv: "manager_inv n m" and op: "AddSourceSymbolFrame m f = (m', r)"
  shows "manager_inv n m' \<and> mgr_scheme m' = mgr_scheme m"
proof (cases "sidToBlockID m (ss_SSID f)")
  case (Ok k)
  obtain m1 bS where e: "ensureStatus m k = (m1, bS)" by fastforce
  note ei = ensureStatus_inv [OF inv e]
  have "status_inv n k \<lparr>bs_block = Some b1, bs_isProcessed = False\<rparr>"
    if "bs_block bS = Some b" "addSourceSymbol b f = Ok b1" for b b1
    using that ei(2) addSymbol_id(1) [OF that(2)] addSourceSymbol_inv [OF _ that(2)]
    by (auto simp: status_inv_block status_inv_def)
  then show ?thesis
    using op ei Ok
    by (auto simp: AddSourceSymbolFrame_def e Let_def status_inv_processed
        split: if_splits option.splits outcome.splits intro!: manager_inv_setStatus)
qed (use inv op in \<open>simp_all add: AddSourceSymbolFrame_def\<close>)

lemma HandleSourceSymbolFrame_inv:
  assumes inv: "manager_inv n m" and op: "HandleSourceSymbolFrame m f = (m', r)"
  shows "manager_inv n m' \<and> mgr_scheme m' = mgr_scheme m"
proof (cases "sidToBlockID m (ss_SSID f)")
  case (Ok k)
  obtain m1 bS where e: "ensureStatus m k = (m1, bS)" by fastforce
  note ei = ensureStatus_inv [OF inv e]
  have "status_inv n k \<lparr>bs_block = Some b1, bs_isProcessed = False\<rparr>"
    if "bs_block bS = Some b" "addSourceSymbol b f = Ok b1" for b b1
    using that ei(2) addSymbol_id(1) [OF that(2)] addSourceSymbol_inv [OF _ that(2)]
    by (auto simp: status_inv_block status_inv_def)
  then show ?thesis
    using op ei Ok
    by (auto simp: HandleSourceSymbolFrame_def e Let_def status_inv_processed
        split: if_splits option.splits outcome.splits intro!: manager_inv_setStatus)
qed (use inv op in \<open>simp_all add: HandleSourceSymbolFrame_def\<close>)

lemma fill_missing_keys:
  "distinct (map fst m) \<Longrightarrow> set (map fst m) \<subseteq> K \<Longrightarrow> set ssids \<subseteq> K \<Longrightarrow>
     distinct (map fst (fill_missing m ssids p)) \<and> set (map fst (fill_missing m ssids p)) \<subseteq> K"
proof (induction ssids arbitrary: m)
  case (Cons s ssids)
  show ?case
  proof (cases "map_of m s")
    case None
    then show ?thesis
      using Cons.IH [of "(s, p) # m"] Cons.prems None [unfolded map_of_eq_None_iff] by simp
  next
    case (Some q)
    then show ?thesis
      using Cons by auto
  qed
qed simp

interpretation xor_scheme: block_scheme xorScheme
proof
  fix b b' r assume "sch_recoverSymbolPayloads xorScheme b = (b', r)"
  then show "blk_id b' = blk_id b"
    by (auto simp: xorScheme_def xorScheme_recoverSymbolPayloads_def Let_def split: if_splits outcome.splits)
next
  fix n b b' r assume inv: "block_inv n b" and r: "sch_recoverSymbolPayloads xorScheme b = (b', r)"
  have "block_inv n (b\<lparr>blk_ssidToSourcePayload := fill_missing (blk_ssidToSourcePayload b)
      (ssid_range (blk_smallestSSID b) (blk_largestSSID b)) p\<rparr>)" for p
    using inv fill_missing_keys [of "blk_ssidToSourcePayload b" "set (block_ids (blk_id b) n)" "block_ids (blk_id b) n" p]
    unfolding ssid_range_block [OF inv] by (simp add: block_inv_def)
  then show "block_inv n b'"
    using r inv by (auto simp: xorScheme_def xorScheme_recoverSymbolPayloads_def Let_def split: if_splits outcome.splits)
qed

interpretation rs_scheme: block_scheme "reedSolomonScheme Encode ReconstructData"
  for Encode ReconstructData :: "shards \<Rightarrow> shards outcome"
  by unfold_locales
    (auto simp: reedSolomonScheme_def reedSolomon_recoverSymbolPayloads_def Let_def split: if_splits)

section \<open>Every run keeps the table consistent\<close>

text \<open>The steps of a manager, as sender and as receiver, in any order.\<close>

inductive manager_step :: "manager \<Rightarrow> manager \<Rightarrow> bool" where
  next_ssid: "NextSSID m = (m', i) \<Longrightarrow> manager_step m m'"
| add: "AddSourceSymbolFrame m f = (m', r) \<Longrightarrow> manager_step m m'"
| repair: "HandleRepairFrame m g = (m', r) \<Longrightarrow> manager_step m m'"
| source: "HandleSourceSymbolFrame m f = (m', r) \<Longrightarrow> manager_step m m'"

definition known_scheme :: "BlockFECScheme \<Rightarrow> bool" where
  "known_scheme s \<longleftrightarrow> s = xorScheme \<or> (\<exists>Encode ReconstructData. s = reedSolomonScheme Encode ReconstructData)"

lemma HandleRepairFrame_inv:
  assumes "known_scheme (mgr_scheme m)" "manager_inv n m" "HandleRepairFrame m f = (m', r)"
  shows "manager_inv n m' \<and> mgr_scheme m' = mgr_scheme m"
  using assms xor_scheme.HandleRepair_inv [of n m f m' r] rs_scheme.HandleRepair_inv [of n m _ _ f m' r]
  unfolding known_scheme_def by metis

lemma manager_step_inv:
  assumes "manager_step m m'" "manager_inv n m" "known_scheme (mgr_scheme m)"
  shows "manager_inv n m' \<and> known_scheme (mgr_scheme m')"
  using assms
proof cases
  case (next_ssid i)
  then show ?thesis
    using assms by (auto simp: NextSSID_def manager_inv_def)
next
  case add
  then show ?thesis
    using AddSourceSymbolFrame_inv [of n m] assms by metis
next
  case repair
  then show ?thesis
    using HandleRepairFrame_inv [of m n] assms by metis
next
  case source
  then show ?thesis
    using HandleSourceSymbolFrame_inv [of n m] assms by metis
qed

lemma NewManager_inv:
  "NewManager s (int n) k = Ok m \<Longrightarrow> 0 < n \<Longrightarrow> int n < 2 ^ 63 \<Longrightarrow> manager_inv n m \<and> mgr_scheme m = s"
  by (auto simp: NewManager_def manager_inv_def split: if_splits)

text \<open>
  C23 (fec-table). In every state a manager reaches from \<^verbatim>\<open>NewManager\<close> with either scheme,
  by any sequence of sender and receiver calls, a block is dropped exactly when it has been
  processed (so no call dereferences a dropped block), every kept block is stored under its
  own identifier, holds only source symbols of its own range, none twice, and at most \<open>n\<close>.
\<close>

theorem manager_table_consistent:
  assumes new: "NewManager s (int n) k = Ok m0" and s: "known_scheme s" and n: "0 < n" "int n < 2 ^ 63"
    and run: "manager_step\<^sup>*\<^sup>* m0 m" and st: "mgr_blockStatuses m blockID = Some bS"
  shows "(bs_isProcessed bS \<longleftrightarrow> bs_block bS = None)
    \<and> (\<forall>b. bs_block bS = Some b \<longrightarrow> blk_id b = blockID
        \<and> (no_wrap blockID n \<longrightarrow> distinct (map fst (blk_ssidToSourcePayload b))
            \<and> set (map fst (blk_ssidToSourcePayload b)) \<subseteq> set (block_ids blockID n)
            \<and> length (blk_ssidToSourcePayload b) \<le> n))"
proof -
  have "manager_inv n m \<and> known_scheme (mgr_scheme m)"
    using run
  proof induction
    case base
    then show ?case
      using NewManager_inv [OF new n] s by simp
  next
    case (step m1 m2)
    then show ?case
      using manager_step_inv by blast
  qed
  then have inv: "status_inv n blockID bS"
    using st by (simp add: manager_inv_def)
  then show ?thesis
    using block_inv_card(1) [of n] by (auto simp: status_inv_def block_inv_def)
qed

theorem manager_table_consistent_witness:
  "\<exists>m0 m. NewManager xorScheme 2 1 = Ok m0
     \<and> HandleSourceSymbolFrame m0 \<lparr>ss_SSID = 7, ss_Payload = [1]\<rparr> = (m, Ok [1])
     \<and> (\<forall>bS. mgr_blockStatuses m 3 = Some bS \<longrightarrow> (bs_isProcessed bS \<longleftrightarrow> bs_block bS = None))"
proof -
  obtain m0 where m0: "NewManager xorScheme (int 2) 1 = Ok m0"
    by (simp add: NewManager_def)
  obtain m where m: "HandleSourceSymbolFrame m0 \<lparr>ss_SSID = 7, ss_Payload = [1]\<rparr> = (m, Ok [1])"
    using m0 by (auto simp: NewManager_def HandleSourceSymbolFrame_def sidToBlockID_def ensureStatus_def
        addSourceSymbol_def newBlock_def to_u64_def Let_def)
  have "manager_step\<^sup>*\<^sup>* m0 m"
    using manager_step.source [OF m] by blast
  then show ?thesis
    using manager_table_consistent [OF m0, of m 3] m0 m by (auto simp: known_scheme_def)
qed

section \<open>From end to end\<close>

text \<open>
  A sender that adds a list of source symbols and collects the repair frames, and a
  receiver that handles a list of source symbols and collects what it delivers.
\<close>

fun sender_run :: "manager \<Rightarrow> SourceSymbolFrame list \<Rightarrow> manager \<times> RepairFrame list outcome" where
  "sender_run m [] = (m, Ok [])"
| "sender_run m (f # fs) =
     (case AddSourceSymbolFrame m f of
        (m, Ok rs) \<Rightarrow> (case sender_run m fs of (m, r) \<Rightarrow> (m, bindr r (\<lambda>rs'. Ok (rs @ rs'))))
      | (m, Err e) \<Rightarrow> (m, Err e)
      | (m, Panic p) \<Rightarrow> (m, Panic p))"

fun receiver_run :: "manager \<Rightarrow> SourceSymbolFrame list \<Rightarrow> manager \<times> byte list list outcome" where
  "receiver_run m [] = (m, Ok [])"
| "receiver_run m (f # fs) =
     (case HandleSourceSymbolFrame m f of
        (m, Ok p) \<Rightarrow> (case receiver_run m fs of (m, r) \<Rightarrow> (m, bindr r (\<lambda>ps. Ok (p # ps))))
      | (m, Err e) \<Rightarrow> (m, Err e)
      | (m, Panic p) \<Rightarrow> (m, Panic p))"

text \<open>The block after the source symbols \<open>ps\<close>.\<close>

fun maxlen :: "(u64 \<times> byte list) list \<Rightarrow> nat" where
  "maxlen [] = 0"
| "maxlen (q # ps) = max (maxlen ps) (length (snd q))"

definition sent_block :: "u64 \<Rightarrow> nat \<Rightarrow> int \<Rightarrow> (u64 \<times> byte list) list \<Rightarrow> block" where
  "sent_block k n r ps = (newBlock k (int n) r)\<lparr>blk_ssidToSourcePayload := ps,
     blk_biggestSourceSymbolLenSoFar := int (maxlen ps)\<rparr>"

lemma sent_block_simps [simp]:
  "blk_id (sent_block k n r ps) = k" "blk_ssidToSourcePayload (sent_block k n r ps) = ps"
  "blk_pidToRepairPayload (sent_block k n r ps) = []" "blk_totNumRepairSymbols (sent_block k n r ps) = r"
  "blk_biggestSourceSymbolLenSoFar (sent_block k n r ps) = int (maxlen ps)"
  by (simp_all add: sent_block_def)

lemma payloads_le_maxlen: "payloads_le (maxlen ps) ps"
proof -
  have "q \<in> set ps \<Longrightarrow> length (snd q) \<le> maxlen ps" for q
    by (induction ps) auto
  then show ?thesis
    by (simp add: payloads_le_def)
qed

lemma maxlen_le: "\<forall>q \<in> set ps. length (snd q) \<le> L \<Longrightarrow> maxlen ps \<le> L"
  by (induction ps) auto

lemma newBlock_sent: "newBlock k (int n) r = sent_block k n r []"
  by (simp add: sent_block_def newBlock_def Let_def)

lemma sent_block_inv:
  assumes "no_wrap k n" "distinct (map fst ps)" "set (map fst ps) \<subseteq> set (block_ids k n)"
  shows "block_inv n (sent_block k n r ps)"
  using newBlock_inv [OF assms(1), of r] assms by (simp add: block_inv_def sent_block_def)

lemma sent_block_complete:
  assumes "no_wrap k n"
  shows "isComplete (sent_block k n r ps) \<longleftrightarrow> length ps = n"
  using newBlock_inv [OF assms, of r] by (simp add: isComplete_def block_inv_def sent_block_def)

lemma addSourceSymbol_sent:
  assumes w: "no_wrap k n" and f: "ss_SSID f \<in> set (block_ids k n)" "ss_SSID f \<notin> fst ` set ps"
  shows "addSourceSymbol (sent_block k n r ps) f = Ok (sent_block k n r ((ss_SSID f, ss_Payload f) # ps))"
proof -
  have "\<not> ss_SSID f < blk_smallestSSID (sent_block k n r ps)" "\<not> blk_largestSSID (sent_block k n r ps) < ss_SSID f"
    using mem_block_ids [OF w, of "ss_SSID f"] f(1) newBlock_inv [OF w, of r]
    by (simp_all add: sent_block_def block_inv_def not_less)
  moreover have "map_of ps (ss_SSID f) = None"
    using f(2) by (simp add: map_of_eq_None_iff)
  ultimately show ?thesis
    by (auto simp: addSourceSymbol_def sent_block_def Let_def max_def)
qed

lemma sidToBlockID_ids:
  assumes w: "no_wrap k n" and "mgr_numTotSourceSymbols m = int n" "s \<in> set (block_ids k n)"
  shows "sidToBlockID m s = Ok k"
proof -
  obtain i where i: "i < n" "s = k * of_nat n + of_nat i"
    using assms(3) by (auto simp: block_ids_def)
  have n: "uint (of_nat n :: u64) = int n"
    using no_wrapD(2) [OF w] by (simp add: uint_word_of_nat_64)
  have "uint (s div of_nat n) = uint s div int n"
    by (simp add: uint_div_distrib n)
  also have "\<dots> = uint k"
    using i no_wrapD(1) [OF w] no_wrapD(4) [OF w i(1)] by simp
  finally have "s div of_nat n = k"
    by (metis word_of_int_uint)
  moreover have "to_u64 (int n) = of_nat n" "of_nat n \<noteq> (0 :: u64)"
    using n no_wrapD(1) [OF w] by (auto simp: to_u64_def)
  ultimately show ?thesis
    using assms(2) by (simp add: sidToBlockID_def)
qed

text \<open>A manager that has seen the source symbols \<open>ps\<close> of block \<open>k\<close> and nothing else of it.\<close>

definition has_seen :: "manager \<Rightarrow> nat \<Rightarrow> u64 \<Rightarrow> (u64 \<times> byte list) list \<Rightarrow> bool" where
  "has_seen m n k ps \<longleftrightarrow> mgr_numTotSourceSymbols m = int n \<and> mgr_numTotRepairSymbols m = 1 \<and> mgr_scheme m = xorScheme
     \<and> (mgr_blockStatuses m k = Some \<lparr>bs_block = Some (sent_block k n 1 ps), bs_isProcessed = False\<rparr>
        \<or> mgr_blockStatuses m k = None \<and> ps = [])"

lemma has_seen_ensure:
  assumes "has_seen m n k ps"
  shows "\<exists>m'. ensureStatus m k = (m', \<lparr>bs_block = Some (sent_block k n 1 ps), bs_isProcessed = False\<rparr>)
    \<and> has_seen m' n k ps"
  using assms by (auto simp: has_seen_def ensureStatus_def newBlock_sent Let_def)

lemma has_seen_set: "has_seen m n k ps \<Longrightarrow>
    has_seen (setStatus m k \<lparr>bs_block = Some (sent_block k n 1 qs), bs_isProcessed = False\<rparr>) n k qs"
  by (simp add: has_seen_def)

abbreviation entry :: "SourceSymbolFrame \<Rightarrow> u64 \<times> byte list" where
  "entry f \<equiv> (ss_SSID f, ss_Payload f)"

lemma receiver_step:
  assumes w: "no_wrap k n" and seen: "has_seen m n k ps"
    and f: "ss_SSID f \<in> set (block_ids k n)" "ss_SSID f \<notin> fst ` set ps" and len: "Suc (length ps) < n"
  shows "\<exists>m'. HandleSourceSymbolFrame m f = (m', Ok (ss_Payload f)) \<and> has_seen m' n k (entry f # ps)"
proof -
  obtain m1 where m1: "ensureStatus m k = (m1, \<lparr>bs_block = Some (sent_block k n 1 ps), bs_isProcessed = False\<rparr>)"
      "has_seen m1 n k ps"
    using has_seen_ensure [OF seen] by blast
  have sid: "sidToBlockID m (ss_SSID f) = Ok k"
    using sidToBlockID_ids [OF w _ f(1)] seen by (simp add: has_seen_def)
  have "\<not> isComplete (sent_block k n 1 (entry f # ps))"
    using len by (simp add: sent_block_complete [OF w])
  then show ?thesis
    using sid m1 addSourceSymbol_sent [OF w f] has_seen_set [OF m1(2)]
    by (simp add: HandleSourceSymbolFrame_def)
qed

lemma sender_step:
  assumes w: "no_wrap k n" and seen: "has_seen m n k ps"
    and f: "ss_SSID f \<in> set (block_ids k n)" "ss_SSID f \<notin> fst ` set ps"
  shows "Suc (length ps) < n \<Longrightarrow> \<exists>m'. AddSourceSymbolFrame m f = (m', Ok []) \<and> has_seen m' n k (entry f # ps)"
    and "Suc (length ps) = n \<Longrightarrow> xorScheme_repairSymbols (sent_block k n 1 (entry f # ps)) = Ok rs \<Longrightarrow>
      \<exists>m'. AddSourceSymbolFrame m f = (m', Ok rs)"
proof -
  obtain m1 where m1: "ensureStatus m k = (m1, \<lparr>bs_block = Some (sent_block k n 1 ps), bs_isProcessed = False\<rparr>)"
      "has_seen m1 n k ps"
    using has_seen_ensure [OF seen] by blast
  have sid: "sidToBlockID m (ss_SSID f) = Ok k"
    using sidToBlockID_ids [OF w _ f(1)] seen by (simp add: has_seen_def)
  note add = addSourceSymbol_sent [OF w f, of 1]
  show "\<exists>m'. AddSourceSymbolFrame m f = (m', Ok []) \<and> has_seen m' n k (entry f # ps)" if "Suc (length ps) < n"
  proof -
    have "\<not> isComplete (sent_block k n 1 (entry f # ps))"
      using that by (simp add: sent_block_complete [OF w])
    then show ?thesis
      using sid m1 add has_seen_set [OF m1(2)] by (simp add: AddSourceSymbolFrame_def)
  qed
  show "\<exists>m'. AddSourceSymbolFrame m f = (m', Ok rs)"
    if "Suc (length ps) = n" "xorScheme_repairSymbols (sent_block k n 1 (entry f # ps)) = Ok rs"
  proof -
    have "isComplete (sent_block k n 1 (entry f # ps))" "mgr_scheme m1 = xorScheme"
      using that(1) m1(2) by (simp_all add: sent_block_complete [OF w] has_seen_def)
    then show ?thesis
      using sid m1(1) add that(2) by (simp add: AddSourceSymbolFrame_def xorScheme_def)
  qed
qed

lemma receiver_run_seen:
  assumes w: "no_wrap k n"
  shows "has_seen m n k ps \<Longrightarrow> distinct (map ss_SSID fs @ map fst ps) \<Longrightarrow> ss_SSID ` set fs \<subseteq> set (block_ids k n) \<Longrightarrow>
    length fs + length ps < n \<Longrightarrow>
    \<exists>m'. receiver_run m fs = (m', Ok (map ss_Payload fs)) \<and> has_seen m' n k (rev (map entry fs) @ ps)"
proof (induction fs arbitrary: m ps)
  case (Cons f fs)
  have f: "ss_SSID f \<in> set (block_ids k n)" "ss_SSID f \<notin> fst ` set ps" "Suc (length ps) < n"
    using Cons.prems by auto
  obtain m1 where m1: "HandleSourceSymbolFrame m f = (m1, Ok (ss_Payload f))" "has_seen m1 n k (entry f # ps)"
    using receiver_step [OF w Cons.prems(1) f] by blast
  have "distinct (map ss_SSID fs @ map fst (entry f # ps))"
    using Cons.prems(2) by auto
  then obtain m2 where "receiver_run m1 fs = (m2, Ok (map ss_Payload fs))"
      "has_seen m2 n k (rev (map entry fs) @ entry f # ps)"
    using Cons.IH [OF m1(2)] Cons.prems(3,4) by auto
  then show ?case
    using m1(1) by simp
qed simp

lemma sender_run_complete:
  assumes w: "no_wrap k n"
  shows "has_seen m n k ps \<Longrightarrow> distinct (map ss_SSID fs @ map fst ps) \<Longrightarrow> ss_SSID ` set fs \<subseteq> set (block_ids k n) \<Longrightarrow>
    length fs + length ps = n \<Longrightarrow> fs \<noteq> [] \<Longrightarrow>
    xorScheme_repairSymbols (sent_block k n 1 (rev (map entry fs) @ ps)) = Ok rs \<Longrightarrow>
    \<exists>m'. sender_run m fs = (m', Ok rs)"
proof (induction fs arbitrary: m ps)
  case (Cons f fs)
  have f: "ss_SSID f \<in> set (block_ids k n)" "ss_SSID f \<notin> fst ` set ps"
    using Cons.prems by auto
  note step = sender_step [OF w Cons.prems(1) f]
  show ?case
  proof (cases "fs = []")
    case True
    then show ?thesis
      using step(2) [of rs] Cons.prems by auto
  next
    case False
    then obtain m1 where m1: "AddSourceSymbolFrame m f = (m1, Ok [])" "has_seen m1 n k (entry f # ps)"
      using step(1) Cons.prems(4) by (cases fs) auto
    have "distinct (map ss_SSID fs @ map fst (entry f # ps))"
      using Cons.prems(2) by auto
    then obtain m2 where "sender_run m1 fs = (m2, Ok rs)"
      using Cons.IH [OF m1(2)] Cons.prems False by auto
    then show ?thesis
      using m1(1) by simp
  qed
qed simp

lemma sent_entries_inv:
  assumes "no_wrap k n" "distinct (map ss_SSID hs)" "ss_SSID ` set hs \<subseteq> set (block_ids k n)"
  shows "block_inv n (sent_block k n r (rev (map entry hs)))"
proof (rule sent_block_inv [OF assms(1)])
  have "map fst (rev (map entry hs)) = rev (map ss_SSID hs)"
    by (simp add: rev_map)
  then show "distinct (map fst (rev (map entry hs)))" "set (map fst (rev (map entry hs))) \<subseteq> set (block_ids k n)"
    using assms(2,3) by simp_all
qed

lemma NewManager_seen: "NewManager xorScheme (int n) 1 = Ok m \<Longrightarrow> has_seen m n k []"
  by (auto simp: NewManager_def has_seen_def split: if_splits)

lemma HandleSource_processed:
  assumes "mgr_blockStatuses m k = Some processed" "sidToBlockID m (ss_SSID f) = Ok k"
  shows "HandleSourceSymbolFrame m f = (m, Ok [])"
  using assms by (simp add: HandleSourceSymbolFrame_def ensureStatus_def processed_def)

text \<open>
  C21 (fec-end-to-end). A fresh XOR sender gets the \<open>n\<close> source symbols of a block, in any
  order, none longer than 1434 bytes, and emits exactly one repair frame, with the last of
  them. A fresh receiver gets all source symbols but one, again in any order, delivers each
  payload as it comes, and delivers exactly the payload of the lost one when the repair
  frame arrives. The block is then closed: the lost source symbol is ignored if it arrives
  after all, so no payload is delivered twice.
\<close>

theorem xor_end_to_end:
  assumes new: "NewManager xorScheme (int n) 1 = Ok m0" and w: "no_wrap k n"
    and fs: "distinct (map ss_SSID fs)" "ss_SSID ` set fs = set (block_ids k n)"
      "\<forall>f \<in> set fs. length (ss_Payload f) \<le> MaxFECPacketBufferSize"
    and lost: "mset (f # gs) = mset fs"
  shows "\<exists>ms r mr mr'. sender_run m0 fs = (ms, Ok [r])
    \<and> receiver_run m0 gs = (mr, Ok (map ss_Payload gs))
    \<and> HandleRepairFrame mr r = (mr', Ok (ss_Payload f))
    \<and> HandleSourceSymbolFrame mr' f = (mr', Ok [])"
proof -
  have seen: "has_seen m0 n k []"
    using NewManager_seen [OF new] .
  have "length fs = n"
    using distinct_card [OF fs(1)] distinct_card [OF distinct_block_ids [OF w]] fs(2) by simp
  have dist: "distinct (map ss_SSID (f # gs))"
    using mset_eq_imp_distinct_iff [of "map ss_SSID (f # gs)" "map ss_SSID fs"] lost fs(1) by (metis mset_map)
  have sub: "ss_SSID ` set gs \<subseteq> set (block_ids k n)" "ss_SSID f \<in> set (block_ids k n)" "length gs < n"
    using mset_eq_setD [OF lost] fs(2) mset_eq_length [OF lost] \<open>length fs = n\<close> by auto
  define sb where "sb = sent_block k n 1 (rev (map entry fs))"
  define rb where "rb = sent_block k n 1 (rev (map entry gs))"
  have inv: "block_inv n sb" "isComplete sb" "block_inv n rb"
    using sent_entries_inv [OF w, of fs] sent_entries_inv [OF w, of gs] fs(1,2) dist sub(1) \<open>length fs = n\<close>
    by (simp_all add: sb_def rb_def sent_block_complete [OF w])
  have m: "mset ((ss_SSID f, ss_Payload f) # blk_ssidToSourcePayload rb) = mset (blk_ssidToSourcePayload sb)"
    using arg_cong [OF lost, of "image_mset entry"] by (simp add: sb_def rb_def)
  have len: "maxlen (rev (map entry fs)) \<le> MaxFECPacketBufferSize"
    using fs(3) by (intro maxlen_le) auto
  obtain r b1 b2 where r: "xorScheme_repairSymbols sb = Ok [r]" "bm_BlockID (rf_Metadata r) = k"
      "addRepairSymbol rb r = Ok b1" "isRecoverable b1" "xorScheme_recoverSymbolPayloads b1 = (b2, Ok (ss_Payload f))"
    using xor_one_loss [OF inv(1,2) _ _ _ len inv(3) _ _ m] payloads_le_maxlen by (auto simp: sb_def rb_def)
  obtain ms where "sender_run m0 fs = (ms, Ok [r])"
    using sender_run_complete [OF w seen, of fs "[r]"] fs(1,2) \<open>length fs = n\<close> r(1) no_wrapD(1) [OF w]
    by (auto simp: sb_def)
  moreover obtain mr where mr: "receiver_run m0 gs = (mr, Ok (map ss_Payload gs))" "has_seen mr n k (rev (map entry gs))"
    using receiver_run_seen [OF w seen, of gs] dist sub by auto
  moreover obtain m1 where m1: "ensureStatus mr k = (m1, \<lparr>bs_block = Some rb, bs_isProcessed = False\<rparr>)" "has_seen m1 n k (rev (map entry gs))"
    using has_seen_ensure [OF mr(2)] by (auto simp: rb_def)
  moreover have "HandleRepairFrame mr r = (setStatus m1 k processed, Ok (ss_Payload f))"
    using r m1 by (simp add: HandleRepairFrame_def has_seen_def xorScheme_def)
  moreover have "HandleSourceSymbolFrame (setStatus m1 k processed) f = (setStatus m1 k processed, Ok [])"
    using m1(2) sub(2) by (intro HandleSource_processed [of _ k] sidToBlockID_ids [OF w]) (simp_all add: has_seen_def)
  ultimately show ?thesis
    by blast
qed

theorem xor_end_to_end_witness:
  "\<exists>m0 ms r mr mr'. NewManager xorScheme 2 1 = Ok m0
    \<and> sender_run m0 [\<lparr>ss_SSID = 6, ss_Payload = [9]\<rparr>, \<lparr>ss_SSID = 7, ss_Payload = [1, 2]\<rparr>] = (ms, Ok [r])
    \<and> receiver_run m0 [\<lparr>ss_SSID = 7, ss_Payload = [1, 2]\<rparr>] = (mr, Ok [[1, 2]])
    \<and> HandleRepairFrame mr r = (mr', Ok [9])"
proof -
  obtain m0 where m0: "NewManager xorScheme (int 2) 1 = Ok m0"
    by (simp add: NewManager_def)
  have "no_wrap 3 2"
    by (simp add: no_wrap_def)
  moreover have "set (block_ids 3 2) = {6, 7}"
    by (simp add: block_ids_def upt_rec)
  ultimately show ?thesis
    using xor_end_to_end [OF m0, of 3 "[\<lparr>ss_SSID = 6, ss_Payload = [9]\<rparr>, \<lparr>ss_SSID = 7, ss_Payload = [1, 2]\<rparr>]"
        "\<lparr>ss_SSID = 6, ss_Payload = [9]\<rparr>" "[\<lparr>ss_SSID = 7, ss_Payload = [1, 2]\<rparr>]"] m0
    by (auto simp: MaxFECPacketBufferSize_def MaxPacketBufferSize_def MaxFECHeaderOverhead_def)
qed

section \<open>Where recovery fails\<close>

lemma xor_payloads_negative:
  "ps \<noteq> [] \<Longrightarrow> biggest < 0 \<Longrightarrow> is_panic (xor_payloads x ps biggest)"
proof -
  assume "ps \<noteq> []" "biggest < 0"
  moreover have "is_panic (xorScheme_xorRepair x p) \<or> is_ok (xorScheme_xorRepair x p)" for x p
    by (induction x p rule: xorScheme_xorRepair.induct) (auto simp: is_panic_bindr is_ok_iff)
  ultimately show ?thesis
    by (cases ps) (fastforce simp: xorScheme_xor_def is_panic_bindr is_ok_iff)+
qed

text \<open>
  C30 (fec-short-repair). A receiver that holds all source symbols of a block but one panics
  when a repair frame with a payload of fewer than two bytes arrives:
  \<^verbatim>\<open>addRepairSymbol\<close> then stores a negative length, which is used as an index.
\<close>

theorem short_repair_panics:
  assumes seen: "has_seen m n k ps" and w: "no_wrap k n" and ps: "ps \<noteq> []" "Suc (length ps) = n"
    and r: "bm_BlockID (rf_Metadata r) = k" "length (rf_Payload r) < 2"
  shows "is_panic (snd (HandleRepairFrame m r))"
proof -
  define b where "b = sent_block k n 1 ps"
  define b1 where "b1 = b\<lparr>blk_pidToRepairPayload := [(bm_ParityID (rf_Metadata r), rf_Payload r)],
    blk_biggestSourceSymbolLenSoFar := int (length (rf_Payload r)) - 2\<rparr>"
  obtain m1 where m1: "ensureStatus m k = (m1, \<lparr>bs_block = Some b, bs_isProcessed = False\<rparr>)" "has_seen m1 n k ps"
    using has_seen_ensure [OF seen] by (auto simp: b_def)
  have tot: "blk_totNumSourceSymbols b = int n"
    using newBlock_inv [OF w, of 1] by (simp add: b_def sent_block_def block_inv_def)
  have add: "addRepairSymbol b r = Ok b1"
    using r(1) by (simp add: addRepairSymbol_def b_def b1_def RepairPayloadMetadataLen_def)
  have rec: "isRecoverable b1" "\<not> isComplete b1"
    using tot ps(2) by (auto simp: isRecoverable_def isComplete_def b1_def b_def)
  obtain y where y: "xorScheme_xorRepair (replicate MaxPacketBufferSize 0) (rf_Payload r) = Ok y"
    using xorRepair_spec [of "rf_Payload r" "replicate MaxPacketBufferSize 0"] r(2)
    by (auto simp: MaxPacketBufferSize_def)
  have "is_panic (xor_payloads y ps (int (length (rf_Payload r)) - 2))"
    using r(2) by (intro xor_payloads_negative [OF ps(1)]) simp
  then obtain p where "xor_payloads y ps (int (length (rf_Payload r)) - 2) = Panic p"
    by (cases "xor_payloads y ps (int (length (rf_Payload r)) - 2)") auto
  then have "is_panic (snd (xorScheme_recoverSymbolPayloads b1))"
    using rec y by (simp add: xorScheme_recoverSymbolPayloads_def b1_def b_def Let_def)
  then show ?thesis
    using r(1) m1 add rec(1)
    by (auto simp: HandleRepairFrame_def has_seen_def xorScheme_def split: prod.split outcome.split)
qed

theorem short_repair_panics_witness:
  "\<exists>m. NewManager xorScheme 2 1 = Ok m \<and>
     is_panic (snd (HandleRepairFrame (fst (HandleSourceSymbolFrame m \<lparr>ss_SSID = 6, ss_Payload = [9]\<rparr>))
       \<lparr>rf_Metadata = \<lparr>bm_BlockID = 3, bm_ParityID = 0\<rparr>, rf_Payload = [1]\<rparr>))"
proof -
  obtain m0 where m0: "NewManager xorScheme (int 2) 1 = Ok m0"
    by (simp add: NewManager_def)
  have w: "no_wrap 3 2"
    by (simp add: no_wrap_def)
  have "6 \<in> set (block_ids 3 2)"
    by (simp add: block_ids_def upt_rec)
  then obtain m where "HandleSourceSymbolFrame m0 \<lparr>ss_SSID = 6, ss_Payload = [9]\<rparr> = (m, Ok [9])" "has_seen m 2 3 [(6, [9])]"
    using receiver_step [OF w NewManager_seen [OF m0], of "\<lparr>ss_SSID = 6, ss_Payload = [9]\<rparr>"] by auto
  then show ?thesis
    using short_repair_panics [OF _ w, of m "[(6, [9])]"] m0 by auto
qed


end
