(* ===== verification/RepairQueue.thy ===== *)
theory RepairQueue
  imports RingBuffer FecManager
begin

text \<open>
  The queue of REPAIR frames that wait to be sent (\<^verbatim>\<open>repair_queue.go\<close>). A frame is a
  pointer, so the zero value in the ring buffer is \<^const>\<open>None\<close>. The channel \<^verbatim>\<open>sent\<close> has
  room for one token and is a flag, \<^verbatim>\<open>hasData\<close> is counted, and each operation is the
  critical section of its mutex.
\<close>

section \<open>The queue\<close>

definition maxRepairSendQueueLen :: int where
  "maxRepairSendQueueLen = 32"

record repairQueue =
  rq_sendQueue :: "RepairFrame option RingBuffer"
  rq_sent :: bool
  rq_closeErr :: "go_error option"
  rq_closed :: bool
  rq_hasData :: nat

definition newRepairQueue :: repairQueue where
  "newRepairQueue = \<lparr>rq_sendQueue = newRingBuffer, rq_sent = False, rq_closeErr = None, rq_closed = False,
     rq_hasData = 0\<rparr>"

definition repairQueue_Add :: "repairQueue \<Rightarrow> RepairFrame \<Rightarrow> repairQueue outcome" where
  "repairQueue_Add h f =
     (if RingBuffer_Len (rq_sendQueue h) < maxRepairSendQueueLen
      then bindr (RingBuffer_PushBack None (rq_sendQueue h) (Some f)) (\<lambda>q.
        Ok (h\<lparr>rq_sendQueue := q, rq_hasData := rq_hasData h + 1\<rparr>))
      else Panic ''repair queue full'')"

definition repairQueue_Peek :: "repairQueue \<Rightarrow> RepairFrame option outcome" where
  "repairQueue_Peek h =
     (if RingBuffer_Empty (rq_sendQueue h) then Ok None else RingBuffer_PeekFront (rq_sendQueue h))"

definition repairQueue_Pop :: "repairQueue \<Rightarrow> repairQueue outcome" where
  "repairQueue_Pop h =
     bindr (RingBuffer_PopFront None (rq_sendQueue h)) (\<lambda>(_, q). Ok (h\<lparr>rq_sendQueue := q, rq_sent := True\<rparr>))"

definition repairQueue_CloseWithError :: "repairQueue \<Rightarrow> go_error \<Rightarrow> repairQueue outcome" where
  "repairQueue_CloseWithError h e =
     (if rq_closed h then Panic ''close of closed channel''
      else Ok (h\<lparr>rq_closeErr := Some e, rq_closed := True\<rparr>))"

section \<open>Its contents\<close>

definition repairQueue_holds :: "repairQueue \<Rightarrow> RepairFrame list \<Rightarrow> bool" where
  "repairQueue_holds h fs \<longleftrightarrow> RingBuffer_inv (rq_sendQueue h) \<and> RingBuffer_list (rq_sendQueue h) = map Some fs
     \<and> int (length fs) \<le> maxRepairSendQueueLen"

lemma newRepairQueue_holds: "repairQueue_holds newRepairQueue []"
  by (simp add: repairQueue_holds_def newRepairQueue_def RingBuffer_new maxRepairSendQueueLen_def)

lemma repairQueue_Add_holds:
  assumes "repairQueue_holds h fs"
  shows "if length fs < 32 then \<exists>h'. repairQueue_Add h f = Ok h' \<and> repairQueue_holds h' (fs @ [f])
         else repairQueue_Add h f = Panic ''repair queue full''"
proof -
  have h: "RingBuffer_inv (rq_sendQueue h)" "RingBuffer_list (rq_sendQueue h) = map Some fs"
    using assms by (simp_all add: repairQueue_holds_def)
  show ?thesis
    using ring.push_law [OF h(1), of None "Some f"] ring.len_law [OF h(1)] h(2)
    by (auto simp: repairQueue_Add_def repairQueue_holds_def maxRepairSendQueueLen_def)
qed

lemma repairQueue_Pop_holds:
  assumes "repairQueue_holds h (f # fs)"
  shows "repairQueue_Peek h = Ok (Some f)" "\<exists>h'. repairQueue_Pop h = Ok h' \<and> repairQueue_holds h' fs"
proof -
  have h: "RingBuffer_inv (rq_sendQueue h)" "RingBuffer_list (rq_sendQueue h) = Some f # map Some fs"
    using assms by (simp_all add: repairQueue_holds_def)
  show "repairQueue_Peek h = Ok (Some f)"
    using ring.peek_law [OF h] ring.empty_law [OF h(1)] h(2) by (simp add: repairQueue_Peek_def)
  show "\<exists>h'. repairQueue_Pop h = Ok h' \<and> repairQueue_holds h' fs"
    using ring.pop_law [OF h, of None] assms
    by (auto simp: repairQueue_Pop_def repairQueue_holds_def)
qed

text \<open>The loop of the packer that queues all repair frames of a block.\<close>

fun repairQueue_AddAll :: "repairQueue \<Rightarrow> RepairFrame list \<Rightarrow> repairQueue outcome" where
  "repairQueue_AddAll h [] = Ok h"
| "repairQueue_AddAll h (f # fs) = bindr (repairQueue_Add h f) (\<lambda>h. repairQueue_AddAll h fs)"

lemma repairQueue_AddAll_holds:
  "repairQueue_holds h gs \<Longrightarrow>
   if length gs + length fs \<le> 32 then \<exists>h'. repairQueue_AddAll h fs = Ok h' \<and> repairQueue_holds h' (gs @ fs)
   else repairQueue_AddAll h fs = Panic ''repair queue full''"
proof (induction fs arbitrary: h gs)
  case Nil
  then show ?case
    by (auto simp: repairQueue_holds_def maxRepairSendQueueLen_def)
next
  case (Cons f fs)
  show ?case
  proof (cases "length gs < 32")
    case True
    then obtain h' where h': "repairQueue_Add h f = Ok h'" "repairQueue_holds h' (gs @ [f])"
      using repairQueue_Add_holds [OF Cons.prems, of f] by auto
    show ?thesis
      using Cons.IH [OF h'(2)] h'(1) by (simp split: if_splits)
  next
    case False
    then show ?thesis
      using repairQueue_Add_holds [OF Cons.prems, of f] by simp
  qed
qed



end
