(* ===== verification/DatagramQueue.thy ===== *)
theory DatagramQueue
  imports RingBuffer Frames
begin

text \<open>
  The queue of DATAGRAM frames in both directions (\<^verbatim>\<open>datagram_queue.go\<close>). \<^verbatim>\<open>Add\<close> and
  \<^verbatim>\<open>Receive\<close> block, so their loops are split at the points where the mutex is released:
  one function per critical section, and a step relation in which the critical sections of
  any number of callers interleave with those of the connection. A channel with room for
  one token is a flag.
\<close>

section \<open>The critical sections\<close>

definition maxDatagramSendQueueLen :: int where
  "maxDatagramSendQueueLen = 32"

definition maxDatagramRcvQueueLen :: nat where
  "maxDatagramRcvQueueLen = 128"

record datagramQueue =
  dq_sendQueue :: "DatagramFrame option RingBuffer"
  dq_sent :: bool
  dq_rcvQueue :: "byte list list"
  dq_rcvd :: bool
  dq_closeErr :: "go_error option"
  dq_closed :: bool
  dq_hasData :: nat

definition newDatagramQueue :: datagramQueue where
  "newDatagramQueue = \<lparr>dq_sendQueue = newRingBuffer, dq_sent = False, dq_rcvQueue = [], dq_rcvd = False,
     dq_closeErr = None, dq_closed = False, dq_hasData = 0\<rparr>"

text \<open>One round of the loop of \<^verbatim>\<open>Add\<close>: the result says whether the call is done.\<close>

definition datagramQueue_Add :: "datagramQueue \<Rightarrow> DatagramFrame \<Rightarrow> (datagramQueue \<times> bool) outcome" where
  "datagramQueue_Add h f =
     (if RingBuffer_Len (dq_sendQueue h) < maxDatagramSendQueueLen
      then bindr (RingBuffer_PushBack None (dq_sendQueue h) (Some f)) (\<lambda>q.
        Ok (h\<lparr>dq_sendQueue := q, dq_hasData := dq_hasData h + 1\<rparr>, True))
      else Ok (h\<lparr>dq_sent := False\<rparr>, False))"

definition datagramQueue_Peek :: "datagramQueue \<Rightarrow> DatagramFrame option outcome" where
  "datagramQueue_Peek h =
     (if RingBuffer_Empty (dq_sendQueue h) then Ok None else RingBuffer_PeekFront (dq_sendQueue h))"

definition datagramQueue_Pop :: "datagramQueue \<Rightarrow> datagramQueue outcome" where
  "datagramQueue_Pop h =
     bindr (RingBuffer_PopFront None (dq_sendQueue h)) (\<lambda>(_, q). Ok (h\<lparr>dq_sendQueue := q, dq_sent := True\<rparr>))"

definition HandleDatagramFrame :: "datagramQueue \<Rightarrow> DatagramFrame \<Rightarrow> datagramQueue" where
  "HandleDatagramFrame h f =
     (if length (dq_rcvQueue h) < maxDatagramRcvQueueLen
      then h\<lparr>dq_rcvQueue := dq_rcvQueue h @ [df_Data f], dq_rcvd := True\<rparr>
      else h)"

text \<open>One round of the loop of \<^verbatim>\<open>Receive\<close>.\<close>

definition datagramQueue_Receive :: "datagramQueue \<Rightarrow> datagramQueue \<times> byte list option" where
  "datagramQueue_Receive h =
     (case dq_rcvQueue h of
        [] \<Rightarrow> (h, None)
      | x # xs \<Rightarrow> (h\<lparr>dq_rcvQueue := xs\<rparr>, Some x))"

definition datagramQueue_CloseWithError :: "datagramQueue \<Rightarrow> go_error \<Rightarrow> datagramQueue outcome" where
  "datagramQueue_CloseWithError h e =
     (if dq_closed h then Panic ''close of closed channel''
      else Ok (h\<lparr>dq_closeErr := Some e, dq_closed := True\<rparr>))"

section \<open>Interleavings\<close>

text \<open>
  A call of \<^verbatim>\<open>Add\<close> is about to lock the mutex, waits in its \<^verbatim>\<open>select\<close>, or has returned;
  likewise a call of \<^verbatim>\<open>Receive\<close>.
\<close>

datatype add_call = AddLoop DatagramFrame | AddWait DatagramFrame | AddDone "go_error option"
datatype rcv_call = RcvLoop | RcvWait | RcvDone "byte list option"

record dq_state =
  st_queue :: datagramQueue
  st_adds :: "add_call list"
  st_rcvs :: "rcv_call list"

definition dq_init :: dq_state where
  "dq_init = \<lparr>st_queue = newDatagramQueue, st_adds = [], st_rcvs = []\<rparr>"

fun rcv_returned :: "rcv_call \<Rightarrow> bool" where
  "rcv_returned (RcvDone _) = True"
| "rcv_returned _ = False"

text \<open>The flag says whether \<^verbatim>\<open>Receive\<close> may be called while another call of it is running.\<close>

inductive dq_step :: "bool \<Rightarrow> dq_state \<Rightarrow> dq_state \<Rightarrow> bool" for conc where
  call_add: "dq_step conc s (s\<lparr>st_adds := st_adds s @ [AddLoop f]\<rparr>)"
| add_done: "i < length (st_adds s) \<Longrightarrow> st_adds s ! i = AddLoop f \<Longrightarrow>
    datagramQueue_Add (st_queue s) f = Ok (h, True) \<Longrightarrow>
    dq_step conc s (s\<lparr>st_queue := h, st_adds := (st_adds s)[i := AddDone None]\<rparr>)"
| add_full: "i < length (st_adds s) \<Longrightarrow> st_adds s ! i = AddLoop f \<Longrightarrow>
    datagramQueue_Add (st_queue s) f = Ok (h, False) \<Longrightarrow>
    dq_step conc s (s\<lparr>st_queue := h, st_adds := (st_adds s)[i := AddWait f]\<rparr>)"
| add_woken: "i < length (st_adds s) \<Longrightarrow> st_adds s ! i = AddWait f \<Longrightarrow> dq_sent (st_queue s) \<Longrightarrow>
    dq_step conc s (s\<lparr>st_queue := (st_queue s)\<lparr>dq_sent := False\<rparr>, st_adds := (st_adds s)[i := AddLoop f]\<rparr>)"
| add_closed: "i < length (st_adds s) \<Longrightarrow> st_adds s ! i = AddWait f \<Longrightarrow> dq_closed (st_queue s) \<Longrightarrow>
    dq_step conc s (s\<lparr>st_adds := (st_adds s)[i := AddDone (dq_closeErr (st_queue s))]\<rparr>)"
| pop: "datagramQueue_Peek (st_queue s) = Ok (Some f) \<Longrightarrow> datagramQueue_Pop (st_queue s) = Ok h \<Longrightarrow>
    dq_step conc s (s\<lparr>st_queue := h\<rparr>)"
| handle: "dq_step conc s (s\<lparr>st_queue := HandleDatagramFrame (st_queue s) f\<rparr>)"
| call_rcv: "conc \<or> list_all rcv_returned (st_rcvs s) \<Longrightarrow>
    dq_step conc s (s\<lparr>st_rcvs := st_rcvs s @ [RcvLoop]\<rparr>)"
| rcv_done: "i < length (st_rcvs s) \<Longrightarrow> st_rcvs s ! i = RcvLoop \<Longrightarrow>
    datagramQueue_Receive (st_queue s) = (h, Some x) \<Longrightarrow>
    dq_step conc s (s\<lparr>st_queue := h, st_rcvs := (st_rcvs s)[i := RcvDone (Some x)]\<rparr>)"
| rcv_empty: "i < length (st_rcvs s) \<Longrightarrow> st_rcvs s ! i = RcvLoop \<Longrightarrow>
    datagramQueue_Receive (st_queue s) = (h, None) \<Longrightarrow>
    dq_step conc s (s\<lparr>st_queue := h, st_rcvs := (st_rcvs s)[i := RcvWait]\<rparr>)"
| rcv_woken: "i < length (st_rcvs s) \<Longrightarrow> st_rcvs s ! i = RcvWait \<Longrightarrow> dq_rcvd (st_queue s) \<Longrightarrow>
    dq_step conc s (s\<lparr>st_queue := (st_queue s)\<lparr>dq_rcvd := False\<rparr>, st_rcvs := (st_rcvs s)[i := RcvLoop]\<rparr>)"
| rcv_cancelled: "i < length (st_rcvs s) \<Longrightarrow> st_rcvs s ! i = RcvWait \<Longrightarrow>
    dq_step conc s (s\<lparr>st_rcvs := (st_rcvs s)[i := RcvDone None]\<rparr>)"
| close: "datagramQueue_CloseWithError (st_queue s) e = Ok h \<Longrightarrow> dq_step conc s (s\<lparr>st_queue := h\<rparr>)"

section \<open>No caller is forgotten\<close>

definition dq_inv :: "datagramQueue \<Rightarrow> bool" where
  "dq_inv h \<longleftrightarrow> RingBuffer_inv (dq_sendQueue h) \<and> None \<notin> set (RingBuffer_list (dq_sendQueue h))
     \<and> int (length (RingBuffer_list (dq_sendQueue h))) \<le> maxDatagramSendQueueLen
     \<and> length (dq_rcvQueue h) \<le> maxDatagramRcvQueueLen"

lemma newDatagramQueue_inv: "dq_inv newDatagramQueue"
  by (simp add: dq_inv_def newDatagramQueue_def RingBuffer_new maxDatagramSendQueueLen_def)

lemma datagramQueue_Add_law:
  assumes "dq_inv h" "datagramQueue_Add h f = Ok (h', ok)"
  shows "dq_inv h'" "RingBuffer_list (dq_sendQueue h') \<noteq> []" "dq_rcvQueue h' = dq_rcvQueue h" "dq_rcvd h' = dq_rcvd h"
proof -
  have inv: "RingBuffer_inv (dq_sendQueue h)"
    using assms(1) by (simp add: dq_inv_def)
  obtain q where q: "RingBuffer_PushBack None (dq_sendQueue h) (Some f) = Ok q" "RingBuffer_inv q"
      "RingBuffer_list q = RingBuffer_list (dq_sendQueue h) @ [Some f]"
    using ring.push_law [OF inv, of None "Some f"] by blast
  note len = ring.len_law [OF inv]
  show "dq_inv h'" "RingBuffer_list (dq_sendQueue h') \<noteq> []" "dq_rcvQueue h' = dq_rcvQueue h" "dq_rcvd h' = dq_rcvd h"
    using assms q len by (auto simp: datagramQueue_Add_def dq_inv_def maxDatagramSendQueueLen_def split: if_splits)
qed

lemma datagramQueue_Pop_law:
  assumes "dq_inv h" "datagramQueue_Pop h = Ok h'"
  shows "dq_inv h'" "dq_sent h'" "dq_rcvQueue h' = dq_rcvQueue h" "dq_rcvd h' = dq_rcvd h"
proof -
  have inv: "RingBuffer_inv (dq_sendQueue h)"
    using assms(1) by (simp add: dq_inv_def)
  have "RingBuffer_list (dq_sendQueue h) \<noteq> []"
    using assms(2) ring.empty_law [OF inv] by (auto simp: datagramQueue_Pop_def RingBuffer_PopFront_def)
  then obtain y ys where l: "RingBuffer_list (dq_sendQueue h) = y # ys"
    by (cases "RingBuffer_list (dq_sendQueue h)") auto
  show "dq_inv h'" "dq_sent h'" "dq_rcvQueue h' = dq_rcvQueue h" "dq_rcvd h' = dq_rcvd h"
    using assms ring.pop_law [OF inv l, of None] l by (auto simp: datagramQueue_Pop_def dq_inv_def)
qed

lemma datagramQueue_Peek_law:
  assumes "dq_inv h" "RingBuffer_list (dq_sendQueue h) \<noteq> []"
  shows "\<exists>f. datagramQueue_Peek h = Ok (Some f)"
proof -
  have inv: "RingBuffer_inv (dq_sendQueue h)"
    using assms(1) by (simp add: dq_inv_def)
  obtain y ys where l: "RingBuffer_list (dq_sendQueue h) = y # ys"
    using assms(2) by (cases "RingBuffer_list (dq_sendQueue h)") auto
  moreover have "y \<noteq> None"
    using assms(1) l by (cases y) (simp_all add: dq_inv_def)
  ultimately show ?thesis
    using ring.empty_law [OF inv] ring.peek_law [OF inv l] by (cases y) (auto simp: datagramQueue_Peek_def)
qed

lemma Receive_law:
  assumes "datagramQueue_Receive h = (h', r)"
  shows "dq_sendQueue h' = dq_sendQueue h" "dq_sent h' = dq_sent h" "dq_rcvd h' = dq_rcvd h"
    "length (dq_rcvQueue h') \<le> length (dq_rcvQueue h)" "r = None \<Longrightarrow> dq_rcvQueue h' = []"
  using assms by (auto simp: datagramQueue_Receive_def split: list.splits)

lemma HandleDatagramFrame_law:
  "dq_sendQueue (HandleDatagramFrame h f) = dq_sendQueue h" "dq_sent (HandleDatagramFrame h f) = dq_sent h"
  "dq_inv h \<Longrightarrow> dq_inv (HandleDatagramFrame h f)"
  by (auto simp: HandleDatagramFrame_def dq_inv_def maxDatagramRcvQueueLen_def)

lemma CloseWithError_law:
  assumes "datagramQueue_CloseWithError h e = Ok h'"
  shows "dq_sendQueue h' = dq_sendQueue h" "dq_sent h' = dq_sent h" "dq_rcvd h' = dq_rcvd h" "dq_rcvQueue h' = dq_rcvQueue h"
  using assms by (auto simp: datagramQueue_CloseWithError_def split: if_splits)

lemma dq_step_queue: "dq_step conc s s' \<Longrightarrow> dq_inv (st_queue s) \<Longrightarrow> dq_inv (st_queue s')"
proof (induction rule: dq_step.induct)
  case (rcv_done i s h x)
  then show ?case
    using Receive_law [OF rcv_done.hyps(3)] by (simp add: dq_inv_def)
next
  case (rcv_empty i s h)
  then show ?case
    using Receive_law [OF rcv_empty.hyps(3)] by (simp add: dq_inv_def)
next
  case (close s e h)
  then show ?case
    using CloseWithError_law [OF close.hyps(1)] by (simp add: dq_inv_def)
next
  case (add_done i s f h)
  then show ?case
    using datagramQueue_Add_law(1) by fastforce
next
  case (add_full i s f h)
  then show ?case
    using datagramQueue_Add_law(1) by fastforce
next
  case (pop s f h)
  then show ?case
    using datagramQueue_Pop_law(1) by fastforce
qed (simp_all add: HandleDatagramFrame_law(3), simp_all add: dq_inv_def)

definition add_live :: "dq_state \<Rightarrow> bool" where
  "add_live s \<longleftrightarrow> ((\<exists>f. AddWait f \<in> set (st_adds s)) \<longrightarrow> dq_sent (st_queue s)
     \<or> RingBuffer_list (dq_sendQueue (st_queue s)) \<noteq> [] \<or> (\<exists>f. AddLoop f \<in> set (st_adds s)))"

lemma in_updatedD: "x \<in> set (xs[i := y]) \<Longrightarrow> x = y \<or> x \<in> set xs"
  using set_update_subset_insert by fastforce

lemma in_updatedI: "i < length xs \<Longrightarrow> x \<in> set xs \<Longrightarrow> x \<noteq> xs ! i \<Longrightarrow> x \<in> set (xs[i := y])"
  by (metis in_set_conv_nth length_list_update nth_list_update_neq)

lemma dq_step_add_live: "dq_step conc s s' \<Longrightarrow> dq_inv (st_queue s) \<Longrightarrow> add_live s \<Longrightarrow> add_live s'"
proof (induction rule: dq_step.induct)
  case (add_done i s f h)
  then show ?case
    using datagramQueue_Add_law [OF add_done.prems(1) add_done.hyps(3)] by (simp add: add_live_def)
next
  case (add_full i s f h)
  then show ?case
    using datagramQueue_Add_law [OF add_full.prems(1) add_full.hyps(3)] by (simp add: add_live_def)
next
  case (add_woken i s f)
  then show ?case
    using set_update_memI [OF add_woken.hyps(1), of "AddLoop f"] by (auto simp: add_live_def)
next
  case (add_closed i s f)
  have "AddLoop g \<in> set ((st_adds s)[i := x])" if "AddLoop g \<in> set (st_adds s)" for g x
    using that add_closed.hyps by (intro in_updatedI) auto
  then show ?case
    using add_closed.prems by (fastforce simp: add_live_def dest: in_updatedD)
next
  case (pop s f h)
  then show ?case
    using datagramQueue_Pop_law(2) [OF pop.prems(1) pop.hyps(2)] by (simp add: add_live_def)
next
  case (rcv_done i s h x)
  then show ?case
    using Receive_law [OF rcv_done.hyps(3)] by (simp add: add_live_def)
next
  case (rcv_empty i s h)
  then show ?case
    using Receive_law [OF rcv_empty.hyps(3)] by (simp add: add_live_def)
next
  case (close s e h)
  then show ?case
    using CloseWithError_law [OF close.hyps(1)] by (simp add: add_live_def)
qed (auto simp: add_live_def HandleDatagramFrame_law(1,2))

text \<open>At most one call of \<^verbatim>\<open>Receive\<close> is running, and it does not wait next to a datagram.\<close>

definition one_rcv :: "rcv_call list \<Rightarrow> bool" where
  "one_rcv rs \<longleftrightarrow> (\<forall>i < length rs. \<forall>j < length rs. \<not> rcv_returned (rs ! i) \<longrightarrow> \<not> rcv_returned (rs ! j) \<longrightarrow> i = j)"

definition rcv_live :: "dq_state \<Rightarrow> bool" where
  "rcv_live s \<longleftrightarrow> one_rcv (st_rcvs s)
     \<and> (RcvWait \<in> set (st_rcvs s) \<longrightarrow> dq_rcvQueue (st_queue s) \<noteq> [] \<longrightarrow> dq_rcvd (st_queue s))"

lemma one_rcv_update: "one_rcv rs \<Longrightarrow> i < length rs \<Longrightarrow> \<not> rcv_returned (rs ! i) \<Longrightarrow> one_rcv (rs[i := r])"
  by (auto simp: one_rcv_def nth_list_update)

lemma one_rcv_call: "list_all rcv_returned rs \<Longrightarrow> one_rcv (rs @ [RcvLoop])"
  by (auto simp: one_rcv_def list_all_length nth_append not_less less_Suc_eq split: if_splits)

lemma one_rcv_wait: "one_rcv rs \<Longrightarrow> i < length rs \<Longrightarrow> \<not> rcv_returned (rs ! i) \<Longrightarrow> r \<noteq> RcvWait \<Longrightarrow> RcvWait \<notin> set (rs[i := r])"
  by (auto simp: one_rcv_def in_set_conv_nth nth_list_update split: if_splits)

lemma dq_step_rcv_live: "dq_step False s s' \<Longrightarrow> dq_inv (st_queue s) \<Longrightarrow> rcv_live s \<Longrightarrow> rcv_live s'"
proof (induction rule: dq_step.induct)
  case (add_done i s f h)
  then show ?case
    using datagramQueue_Add_law [OF add_done.prems(1) add_done.hyps(3)] by (simp add: rcv_live_def)
next
  case (add_full i s f h)
  then show ?case
    using datagramQueue_Add_law [OF add_full.prems(1) add_full.hyps(3)] by (simp add: rcv_live_def)
next
  case (handle s f)
  then show ?case
    by (auto simp: rcv_live_def HandleDatagramFrame_def)
next
  case (call_rcv s)
  then show ?case
    by (auto simp: rcv_live_def one_rcv_call)
next
  case (rcv_empty i s h)
  then show ?case
    using Receive_law(5) [OF rcv_empty.hyps(3)] by (auto simp: rcv_live_def one_rcv_update)
next
  case (pop s f h)
  then show ?case
    using datagramQueue_Pop_law [OF pop.prems(1) pop.hyps(2)] by (simp add: rcv_live_def)
next
  case (close s e h)
  then show ?case
    using CloseWithError_law [OF close.hyps(1)] by (simp add: rcv_live_def)
qed (auto simp: rcv_live_def one_rcv_update one_rcv_wait)

lemma dq_reach_inv: "(dq_step conc)\<^sup>*\<^sup>* dq_init s \<Longrightarrow> dq_inv (st_queue s) \<and> add_live s"
proof (induction rule: rtranclp_induct)
  case base
  then show ?case
    by (simp add: dq_init_def newDatagramQueue_inv add_live_def)
next
  case (step s s')
  then show ?case
    using dq_step_queue dq_step_add_live by blast
qed

lemma dq_reach_rcv_live: "(dq_step False)\<^sup>*\<^sup>* dq_init s \<Longrightarrow> rcv_live s"
proof (induction rule: rtranclp_induct)
  case base
  then show ?case
    by (simp add: rcv_live_def dq_init_def one_rcv_def)
next
  case (step s s')
  then show ?case
    using dq_reach_inv dq_step_rcv_live by blast
qed

text \<open>
  C25 (datagram-add-live). However many callers of \<^verbatim>\<open>SendDatagram\<close> interleave with the
  connection, the send queue holds at most 32 frames and the receive queue 128, and no caller waits for good: while one waits in
  \<^verbatim>\<open>Add\<close>, a token that wakes one is there, or another one is about to try again, or the
  queue has a frame, which the connection peeks at and pops without a panic, and popping
  puts a token there.
\<close>

theorem datagram_add_not_stuck:
  assumes run: "(dq_step conc)\<^sup>*\<^sup>* dq_init s" and wait: "AddWait f \<in> set (st_adds s)"
  shows "RingBuffer_Len (dq_sendQueue (st_queue s)) \<le> 32 \<and> length (dq_rcvQueue (st_queue s)) \<le> 128
    \<and> (dq_sent (st_queue s) \<or> (\<exists>g. AddLoop g \<in> set (st_adds s))
       \<or> (\<exists>g h. datagramQueue_Peek (st_queue s) = Ok (Some g) \<and> datagramQueue_Pop (st_queue s) = Ok h \<and> dq_sent h))"
proof -
  have inv: "dq_inv (st_queue s)" and live: "add_live s"
    using dq_reach_inv [OF run] by simp_all
  have rb: "RingBuffer_inv (dq_sendQueue (st_queue s))"
    using inv by (simp add: dq_inv_def)
  have pop: "\<exists>h. datagramQueue_Pop (st_queue s) = Ok h" if "RingBuffer_list (dq_sendQueue (st_queue s)) \<noteq> []"
    using that ring.pop_law [OF rb, of _ _ None]
    by (cases "RingBuffer_list (dq_sendQueue (st_queue s))") (fastforce simp: datagramQueue_Pop_def)+
  have "dq_sent (st_queue s) \<or> (\<exists>g. AddLoop g \<in> set (st_adds s)) \<or> RingBuffer_list (dq_sendQueue (st_queue s)) \<noteq> []"
    using live wait by (auto simp: add_live_def)
  then show ?thesis
    using pop datagramQueue_Peek_law [OF inv] datagramQueue_Pop_law(2) [OF inv] inv ring.len_law [OF rb]
    unfolding dq_inv_def maxDatagramSendQueueLen_def maxDatagramRcvQueueLen_def by metis
qed

lemma dq_reach_filled:
  "n \<le> 32 \<Longrightarrow> \<exists>s. (dq_step conc)\<^sup>*\<^sup>* dq_init s \<and> length (RingBuffer_list (dq_sendQueue (st_queue s))) = n"
proof (induction n)
  case 0
  have "length (RingBuffer_list (dq_sendQueue (st_queue dq_init))) = 0"
    by (simp add: dq_init_def newDatagramQueue_def RingBuffer_new)
  then show ?case
    by blast
next
  case (Suc n)
  then obtain s where s: "(dq_step conc)\<^sup>*\<^sup>* dq_init s" "length (RingBuffer_list (dq_sendQueue (st_queue s))) = n"
    by auto
  define f where "f = \<lparr>df_DataLenPresent = True, df_Data = [1], df_FECProtected = False\<rparr>"
  have inv: "RingBuffer_inv (dq_sendQueue (st_queue s))"
    using dq_reach_inv [OF s(1)] by (simp add: dq_inv_def)
  obtain q where q: "RingBuffer_PushBack None (dq_sendQueue (st_queue s)) (Some f) = Ok q"
      "length (RingBuffer_list q) = Suc n"
    using ring.push_law [OF inv, of None "Some f"] s(2) by auto
  define s1 where "s1 = s\<lparr>st_adds := st_adds s @ [AddLoop f]\<rparr>"
  define h where "h = (st_queue s)\<lparr>dq_sendQueue := q, dq_hasData := dq_hasData (st_queue s) + 1\<rparr>"
  have "datagramQueue_Add (st_queue s1) f = Ok (h, True)"
    using q(1) Suc.prems s(2) ring.len_law [OF inv]
    by (simp add: datagramQueue_Add_def s1_def h_def maxDatagramSendQueueLen_def)
  then have "dq_step conc s1 (s1\<lparr>st_queue := h, st_adds := (st_adds s1)[length (st_adds s) := AddDone None]\<rparr>)"
    by (intro dq_step.add_done [where f = f]) (simp_all add: s1_def)
  moreover have "dq_step conc s s1"
    unfolding s1_def by (rule dq_step.call_add)
  ultimately have "(dq_step conc)\<^sup>*\<^sup>* dq_init (s1\<lparr>st_queue := h, st_adds := (st_adds s1)[length (st_adds s) := AddDone None]\<rparr>)"
    using s(1) by (meson rtranclp.rtrancl_into_rtrancl)
  moreover have "length (RingBuffer_list (dq_sendQueue h)) = Suc n"
    using q(2) by (simp add: h_def)
  ultimately show ?case
    by fastforce
qed

theorem datagram_add_not_stuck_witness:
  "\<exists>s f. (dq_step True)\<^sup>*\<^sup>* dq_init s \<and> AddWait f \<in> set (st_adds s)
     \<and> (dq_sent (st_queue s) \<or> (\<exists>g. AddLoop g \<in> set (st_adds s))
       \<or> (\<exists>g h. datagramQueue_Peek (st_queue s) = Ok (Some g) \<and> datagramQueue_Pop (st_queue s) = Ok h \<and> dq_sent h))"
proof -
  obtain s where s: "(dq_step True)\<^sup>*\<^sup>* dq_init s" "length (RingBuffer_list (dq_sendQueue (st_queue s))) = 32"
    using dq_reach_filled [of 32] by auto
  define f where "f = \<lparr>df_DataLenPresent = True, df_Data = [2], df_FECProtected = False\<rparr>"
  define s1 where "s1 = s\<lparr>st_adds := st_adds s @ [AddLoop f]\<rparr>"
  define s2 where "s2 = s1\<lparr>st_queue := (st_queue s)\<lparr>dq_sent := False\<rparr>, st_adds := (st_adds s1)[length (st_adds s) := AddWait f]\<rparr>"
  have "RingBuffer_inv (dq_sendQueue (st_queue s))"
    using dq_reach_inv [OF s(1)] by (simp add: dq_inv_def)
  then have "datagramQueue_Add (st_queue s1) f = Ok ((st_queue s)\<lparr>dq_sent := False\<rparr>, False)"
    using ring.len_law [of "dq_sendQueue (st_queue s)"] s(2) by (simp add: datagramQueue_Add_def s1_def maxDatagramSendQueueLen_def)
  then have "dq_step True s1 s2"
    unfolding s2_def by (intro dq_step.add_full) (simp_all add: s1_def)
  moreover have "dq_step True s s1"
    unfolding s1_def by (rule dq_step.call_add)
  ultimately have run: "(dq_step True)\<^sup>*\<^sup>* dq_init s2"
    using s(1) by (meson rtranclp.rtrancl_into_rtrancl)
  have "AddWait f \<in> set (st_adds s2)"
    by (simp add: s2_def s1_def)
  then show ?thesis
    using datagram_add_not_stuck [OF run] run by blast
qed

text \<open>
  C26 (datagram-receive). As long as calls of \<^verbatim>\<open>ReceiveDatagram\<close> do not overlap, a caller
  that waits is woken whenever a datagram is queued.
\<close>

theorem datagram_receive_woken:
  assumes "(dq_step False)\<^sup>*\<^sup>* dq_init s" "RcvWait \<in> set (st_rcvs s)" "dq_rcvQueue (st_queue s) \<noteq> []"
  shows "dq_rcvd (st_queue s)"
  using dq_reach_rcv_live [OF assms(1)] assms(2,3) by (simp add: rcv_live_def)

theorem datagram_receive_woken_witness:
  "\<exists>s. (dq_step False)\<^sup>*\<^sup>* dq_init s \<and> RcvWait \<in> set (st_rcvs s) \<and> dq_rcvQueue (st_queue s) \<noteq> []
     \<and> dq_rcvd (st_queue s)"
proof -
  let ?f = "\<lparr>df_DataLenPresent = True, df_Data = [1], df_FECProtected = False\<rparr>"
  define s1 where "s1 = dq_init\<lparr>st_rcvs := [RcvLoop]\<rparr>"
  define s2 where "s2 = s1\<lparr>st_queue := st_queue s1, st_rcvs := [RcvWait]\<rparr>"
  define s3 where "s3 = s2\<lparr>st_queue := HandleDatagramFrame (st_queue s2) ?f\<rparr>"
  have "dq_step False dq_init s1" "dq_step False s2 s3"
    using dq_step.call_rcv [of False dq_init] unfolding s1_def s3_def
    by (simp_all add: dq_init_def dq_step.handle)
  moreover have "dq_step False s1 s2"
    using dq_step.rcv_empty [of 0 s1 "st_queue s1" False] unfolding s2_def
    by (simp add: s1_def dq_init_def newDatagramQueue_def datagramQueue_Receive_def)
  ultimately have run: "(dq_step False)\<^sup>*\<^sup>* dq_init s3"
    by (meson rtranclp.rtrancl_into_rtrancl rtranclp.rtrancl_refl)
  have "RcvWait \<in> set (st_rcvs s3)" "dq_rcvQueue (st_queue s3) \<noteq> []"
    by (simp_all add: s3_def s2_def s1_def dq_init_def newDatagramQueue_def HandleDatagramFrame_def maxDatagramRcvQueueLen_def)
  then show ?thesis
    using datagram_receive_woken [OF run] run by blast
qed

text \<open>
  C27 (datagram-lost-wakeup). With two overlapping calls of \<^verbatim>\<open>ReceiveDatagram\<close> it is not so:
  both wait, two datagrams arrive before one of the callers runs, the channel keeps a single
  token, and the second caller goes on waiting next to the second datagram.
\<close>

theorem datagram_lost_wakeup:
  "\<exists>s. (dq_step True)\<^sup>*\<^sup>* dq_init s \<and> RcvWait \<in> set (st_rcvs s) \<and> RcvLoop \<notin> set (st_rcvs s)
     \<and> dq_rcvQueue (st_queue s) \<noteq> [] \<and> \<not> dq_rcvd (st_queue s)"
proof -
  let ?f = "\<lambda>x. \<lparr>df_DataLenPresent = True, df_Data = [x], df_FECProtected = False\<rparr>"
  let ?q = "\<lambda>b xs. newDatagramQueue\<lparr>dq_rcvd := b, dq_rcvQueue := xs\<rparr>"
  let ?s = "\<lambda>b xs rs. \<lparr>st_queue = ?q b xs, st_adds = [], st_rcvs = rs\<rparr>"
  note defs = dq_init_def newDatagramQueue_def datagramQueue_Receive_def HandleDatagramFrame_def maxDatagramRcvQueueLen_def
  have "(dq_step True)\<^sup>*\<^sup>* dq_init (?s False [] [RcvLoop])"
    using dq_step.call_rcv [of True dq_init] by (intro r_into_rtranclp) (simp add: defs)
  also have "dq_step True (?s False [] [RcvLoop]) (?s False [] [RcvLoop, RcvLoop])"
    using dq_step.call_rcv [of True "?s False [] [RcvLoop]"] by (simp add: defs)
  also have "dq_step True (?s False [] [RcvLoop, RcvLoop]) (?s False [] [RcvWait, RcvLoop])"
    using dq_step.rcv_empty [of 0 "?s False [] [RcvLoop, RcvLoop]" "?q False []" True] by (simp add: defs)
  also have "dq_step True (?s False [] [RcvWait, RcvLoop]) (?s False [] [RcvWait, RcvWait])"
    using dq_step.rcv_empty [of 1 "?s False [] [RcvWait, RcvLoop]" "?q False []" True] by (simp add: defs)
  also have "dq_step True (?s False [] [RcvWait, RcvWait]) (?s True [[1]] [RcvWait, RcvWait])"
    using dq_step.handle [of True "?s False [] [RcvWait, RcvWait]" "?f 1"] by (simp add: defs)
  also have "dq_step True (?s True [[1]] [RcvWait, RcvWait]) (?s True [[1], [2]] [RcvWait, RcvWait])"
    using dq_step.handle [of True "?s True [[1]] [RcvWait, RcvWait]" "?f 2"] by (simp add: defs)
  also have "dq_step True (?s True [[1], [2]] [RcvWait, RcvWait]) (?s False [[1], [2]] [RcvLoop, RcvWait])"
    using dq_step.rcv_woken [of 0 "?s True [[1], [2]] [RcvWait, RcvWait]" True] by (simp add: defs)
  also have "dq_step True (?s False [[1], [2]] [RcvLoop, RcvWait]) (?s False [[2]] [RcvDone (Some [1]), RcvWait])"
    using dq_step.rcv_done [of 0 "?s False [[1], [2]] [RcvLoop, RcvWait]" "?q False [[2]]" "[1]" True] by (simp add: defs)
  finally have "(dq_step True)\<^sup>*\<^sup>* dq_init (?s False [[2]] [RcvDone (Some [1]), RcvWait])" .
  then show ?thesis
    by (intro exI [of _ "?s False [[2]] [RcvDone (Some [1]), RcvWait]"]) simp
qed

end
