(* ===== verification/Protocol.thy ===== *)
theory Protocol
  imports Frames
begin

text \<open>
  Packet numbers and stream identifiers (\<^verbatim>\<open>internal/protocol\<close>: \<^verbatim>\<open>packet_number.go\<close>,
  \<^verbatim>\<open>stream.go\<close>, \<^verbatim>\<open>perspective.go\<close>). Packet numbers are below \<open>2 ^ 62\<close>, so the sums of
  the source stay within 64 bits.
\<close>

section \<open>Packet numbers\<close>

definition InvalidPacketNumber :: int where
  "InvalidPacketNumber = - 1"

text \<open>The four lengths that \<^verbatim>\<open>PacketNumberLen\<close> names; any other length leaves the delta at zero.\<close>

definition epochDelta :: "nat \<Rightarrow> int" where
  "epochDelta packetNumberLength =
     (if packetNumberLength = 1 then push_bit 8 1
      else if packetNumberLength = 2 then push_bit 16 1
      else if packetNumberLength = 3 then push_bit 24 1
      else if packetNumberLength = 4 then push_bit 32 1
      else 0)"

definition delta :: "int \<Rightarrow> int \<Rightarrow> int" where
  "delta a b = (if a < b then b - a else a - b)"

definition closestTo :: "int \<Rightarrow> int \<Rightarrow> int \<Rightarrow> int" where
  "closestTo target a b = (if delta target a < delta target b then a else b)"

definition DecodePacketNumber :: "nat \<Rightarrow> int \<Rightarrow> int \<Rightarrow> int" where
  "DecodePacketNumber packetNumberLength lastPacketNumber wirePacketNumber =
     (let d = epochDelta packetNumberLength;
          epoch = lastPacketNumber AND NOT (d - 1);
          prevEpochBegin = (if epoch > d then epoch - d else 0);
          nextEpochBegin = epoch + d
      in closestTo (lastPacketNumber + 1) (epoch + wirePacketNumber)
           (closestTo (lastPacketNumber + 1) (prevEpochBegin + wirePacketNumber) (nextEpochBegin + wirePacketNumber)))"

definition GetPacketNumberLengthForHeader :: "int \<Rightarrow> int \<Rightarrow> nat" where
  "GetPacketNumberLengthForHeader packetNumber leastUnacked =
     (let diff = to_u64 (packetNumber - leastUnacked) in
      if diff < push_bit 15 1 then 2 else if diff < push_bit 23 1 then 3 else 4)"

subsection \<open>Decoding\<close>

lemma int_and_not_mask: "(k :: int) AND NOT (2 ^ n - 1) = k - k mod 2 ^ n"
proof -
  have "k AND NOT (mask n) = push_bit n (drop_bit n k)"
    by (rule bit_eqI) (auto simp: bit_simps)
  then show ?thesis
    using bits_ident [of n k] by (simp add: mask_eq_exp_minus_1 take_bit_eq_mod)
qed

lemma epochDelta_power: "l \<in> {1, 2, 3, 4} \<Longrightarrow> epochDelta l = 2 ^ (8 * l)"
  by (auto simp: epochDelta_def push_bit_eq_mult)

text \<open>
  A number closer to the target than half a window is chosen over any other with the same
  remainder.
\<close>

lemma closestTo_first: "delta t a < delta t b \<Longrightarrow> closestTo t a b = a"
  by (simp add: closestTo_def)

lemma closestTo_second: "\<not> delta t a < delta t b \<Longrightarrow> closestTo t a b = b"
  by (simp add: closestTo_def)

lemma delta_shift:
  fixes D k :: int
  assumes "2 * delta t a < D" "k \<noteq> 0"
  shows "delta t a < delta t (a + k * D)"
proof -
  have D: "0 < D"
    using assms(1) by (auto simp: delta_def split: if_splits)
  have "k \<le> - 1 \<or> 1 \<le> k"
    using assms(2) by linarith
  then have "k * D \<le> - D \<or> D \<le> k * D"
    using D mult_right_mono [of k "- 1" D] mult_right_mono [of 1 k D] by auto
  moreover define m where "m = k * D"
  ultimately have "m \<le> - D \<or> D \<le> m"
    by simp
  then have "delta t a < delta t (a + m)"
    using assms(1) unfolding delta_def by presburger
  then show ?thesis
    by (simp add: m_def)
qed

lemma DecodePacketNumber_closest:
  fixes pn last :: int
  assumes l: "l \<in> {1, 2, 3, 4}" and "0 \<le> pn" "- 1 \<le> last" and near: "2 * delta (last + 1) pn < 2 ^ (8 * l)"
  shows "DecodePacketNumber l last (pn mod 2 ^ (8 * l)) = pn"
proof -
  define D :: int where "D = 2 ^ (8 * l)"
  define e where "e = last - last mod D"
  define w where "w = pn mod D"
  define k where "k = pn div D - last div D"
  have D: "0 < D" by (simp add: D_def)
  have e: "e = last div D * D" by (simp add: e_def minus_mod_eq_div_mult)
  have pn: "pn = e + k * D + w"
    by (simp add: e k_def w_def algebra_simps)
  have bounds: "0 \<le> w" "w < D" "e \<le> last" "last < e + D"
    using D by (simp_all add: w_def e_def pos_mod_bound)
  have k: "- 1 \<le> k" "k \<le> 1"
  proof -
    have "pn < e + 2 * D" "e - D < pn"
      using near bounds by (auto simp: delta_def D_def split: if_splits)
    then have "k * D < 2 * D" "(- 2) * D < k * D"
      using pn bounds by linarith+
    then show "- 1 \<le> k" "k \<le> 1"
      using D mult_less_cancel_right_pos [OF D, of k 2] mult_less_cancel_right_pos [OF D, of "- 2" k] by linarith+
  qed
  have shift: "closestTo (last + 1) pn (pn + j * D) = pn" "closestTo (last + 1) (pn + j * D) pn = pn" for j
    using delta_shift [of "last + 1" pn D j] near by (cases "j = 0"; auto simp: closestTo_def D_def)+
  define p where "p = (if e > D then e - D else 0)"
  have d: "epochDelta l = D" "last AND NOT (D - 1) = e"
    by (simp_all add: epochDelta_power [OF l] D_def e_def int_and_not_mask)
  have eq: "DecodePacketNumber l last w
      = closestTo (last + 1) (e + w) (closestTo (last + 1) (p + w) (e + D + w))"
    unfolding DecodePacketNumber_def Let_def d p_def by (rule refl)
  obtain j where j: "p = e + j * D"
  proof (cases "e > D")
    case True
    then show ?thesis
      using that [of "- 1"] by (simp add: p_def)
  next
    case False
    then show ?thesis
      using that [of "- (last div D)"] by (simp add: p_def e)
  qed
  have "k = - 1 \<or> k = 0 \<or> k = 1"
    using k by linarith
  then have "closestTo (last + 1) (e + w) (closestTo (last + 1) (p + w) (e + D + w)) = pn"
  proof (elim disjE)
    assume "k = - 1"
    moreover from this have "0 < e"
      using pn bounds \<open>0 \<le> pn\<close> by simp
    then have "1 \<le> last div D"
      using D unfolding e zero_less_mult_iff by linarith
    then have "D \<le> e"
      using D mult_right_mono [of 1 "last div D" D] by (simp add: e)
    ultimately have "e + w = pn + 1 * D" "p + w = pn" "e + D + w = pn + 2 * D"
      using pn by (simp_all add: p_def)
    then show ?thesis
      using shift(1) [of 2] shift(2) [of 1] by (simp only:)
  next
    assume "k = 0"
    then have "e + w = pn" "p + w = pn + j * D" "e + D + w = pn + 1 * D"
      using pn j by simp_all
    moreover have "closestTo (last + 1) pn (closestTo (last + 1) (pn + j * D) (pn + 1 * D)) = pn"
      using shift(1) [of j] shift(1) [of 1] closestTo_def [of "last + 1" "pn + j * D" "pn + 1 * D"]
      by (simp split: if_splits)
    ultimately show ?thesis
      by (simp only:)
  next
    assume "k = 1"
    then have "e + w = pn + (- 1) * D" "p + w = pn + (j - 1) * D" "e + D + w = pn"
      using pn j by (simp_all add: algebra_simps)
    then show ?thesis
      using shift(2) [of "j - 1"] shift(2) [of "- 1"] by (simp only:)
  qed
  then show ?thesis
    using eq by (simp add: w_def D_def)
qed

lemma GetPacketNumberLengthForHeader_window:
  assumes "0 \<le> pn - acked" "pn - acked < 2 ^ 31"
  shows "GetPacketNumberLengthForHeader pn acked \<in> {1, 2, 3, 4}"
    "2 * (pn - acked) < 2 ^ (8 * GetPacketNumberLengthForHeader pn acked)"
proof -
  have u: "uint (to_u64 (pn - acked)) = pn - acked"
    using assms by simp
  have c: "uint (push_bit 15 1 :: u64) = 2 ^ 15" "uint (push_bit 23 1 :: u64) = 2 ^ 23"
    by (simp_all add: push_bit_eq_mult)
  show "GetPacketNumberLengthForHeader pn acked \<in> {1, 2, 3, 4}"
    "2 * (pn - acked) < 2 ^ (8 * GetPacketNumberLengthForHeader pn acked)"
    using assms by (auto simp: GetPacketNumberLengthForHeader_def Let_def word_less_def u c)
qed

text \<open>A packet number is decoded by a receiver that is within the window of the sender.\<close>

lemma packet_number_decoded:
  assumes "0 \<le> pn" "- 1 \<le> acked" "acked \<le> largest" "acked < pn" "pn - acked < 2 ^ 31"
    and "2 * (largest + 1 - pn) < 2 ^ (8 * GetPacketNumberLengthForHeader pn acked)"
  shows "DecodePacketNumber (GetPacketNumberLengthForHeader pn acked) largest
      (pn mod 2 ^ (8 * GetPacketNumberLengthForHeader pn acked)) = pn"
proof (rule DecodePacketNumber_closest)
  show "2 * delta (largest + 1) pn < 2 ^ (8 * GetPacketNumberLengthForHeader pn acked)"
    using assms GetPacketNumberLengthForHeader_window(2) [of pn acked] by (auto simp: delta_def)
qed (use assms GetPacketNumberLengthForHeader_window(1) [of pn acked] in auto)

section \<open>Stream identifiers\<close>

datatype Perspective = PerspectiveServer | PerspectiveClient

definition Perspective_Opposite :: "Perspective \<Rightarrow> Perspective" where
  "Perspective_Opposite p = (case p of PerspectiveServer \<Rightarrow> PerspectiveClient | PerspectiveClient \<Rightarrow> PerspectiveServer)"

definition InvalidStreamID :: int where
  "InvalidStreamID = - 1"

definition StreamNum_StreamID :: "int \<Rightarrow> StreamType \<Rightarrow> Perspective \<Rightarrow> int" where
  "StreamNum_StreamID s stype pers =
     (if s = 0 then InvalidStreamID
      else
        let first = (case (stype, pers) of
              (StreamTypeBidi, PerspectiveClient) \<Rightarrow> 0
            | (StreamTypeBidi, PerspectiveServer) \<Rightarrow> 1
            | (StreamTypeUni, PerspectiveClient) \<Rightarrow> 2
            | (StreamTypeUni, PerspectiveServer) \<Rightarrow> 3)
        in first + 4 * (s - 1))"

definition StreamID_InitiatedBy :: "int \<Rightarrow> Perspective" where
  "StreamID_InitiatedBy s = (if go_mod s 2 = 0 then PerspectiveClient else PerspectiveServer)"

definition StreamID_Type :: "int \<Rightarrow> StreamType" where
  "StreamID_Type s = (if go_mod s 4 \<ge> 2 then StreamTypeUni else StreamTypeBidi)"

definition StreamID_StreamNum :: "int \<Rightarrow> int" where
  "StreamID_StreamNum s = go_div s 4 + 1"

lemma StreamNum_StreamID_inverse:
  assumes "0 < n"
  shows "StreamID_StreamNum (StreamNum_StreamID n t p) = n" "StreamID_Type (StreamNum_StreamID n t p) = t"
    "StreamID_InitiatedBy (StreamNum_StreamID n t p) = p"
  using assms
  by (cases t; cases p; simp add: StreamNum_StreamID_def StreamID_StreamNum_def StreamID_Type_def StreamID_InitiatedBy_def;
      presburger)+

lemma StreamID_inverse:
  "0 \<le> s \<Longrightarrow> StreamNum_StreamID (StreamID_StreamNum s) (StreamID_Type s) (StreamID_InitiatedBy s) = s"
  unfolding StreamNum_StreamID_def StreamID_StreamNum_def StreamID_Type_def StreamID_InitiatedBy_def
  by (auto simp: Let_def; presburger)



end
