(* ===== verification/GoFloat.thy ===== *)
theory GoFloat
  imports Prelude Complex_Main "HOL-Library.Log_Nat"
begin

text \<open>
  Go's floating point numbers, for the few places where the source computes with them. A
  \<^verbatim>\<open>float64\<close> or \<^verbatim>\<open>float32\<close> is the rational number it stands for, and each operation is the
  exact one followed by rounding to the nearest representable number, ties to even. The
  values of the source are far from the limits of the exponent, which is unbounded here.
\<close>

definition floor_log2 :: "rat \<Rightarrow> int" where
  "floor_log2 x =
     (let (a, b) = quotient_of x; k = int (floorlog 2 (nat a)) - int (floorlog 2 (nat b))
      in if 2 powi k \<le> x then k else k - 1)"

definition round_even :: "rat \<Rightarrow> int" where
  "round_even x =
     (let n = \<lfloor>x\<rfloor>; r = x - of_int n
      in if r < 1 / 2 then n else if r > 1 / 2 then n + 1 else if even n then n else n + 1)"

definition fl :: "int \<Rightarrow> rat \<Rightarrow> rat" where
  "fl p x =
     (if x = 0 then 0
      else let u = 2 powi (floor_log2 \<bar>x\<bar> - p + 1) in of_int (round_even (x / u)) * u)"

definition float64 :: "rat \<Rightarrow> rat" where
  "float64 = fl 53"

definition float32 :: "rat \<Rightarrow> rat" where
  "float32 = fl 24"

text \<open>The conversion of a floating point number to an integer type drops the fraction.\<close>

definition float_to_int :: "rat \<Rightarrow> int" where
  "float_to_int x = (if x \<ge> 0 then \<lfloor>x\<rfloor> else - \<lfloor>- x\<rfloor>)"

section \<open>Numbers that need no rounding\<close>

lemma floor_log2_le:
  assumes "0 < x"
  shows "2 powi (floor_log2 x) \<le> x"
proof -
  obtain a b where q: "quotient_of x = (a, b)"
    by (cases "quotient_of x")
  have b: "0 < b" and x: "x = of_int a / of_int b"
    using quotient_of_denom_pos [OF q] quotient_of_div [OF q] by simp_all
  have a: "0 < a"
    using assms b by (simp add: x zero_less_divide_iff)
  define i where "i = floorlog 2 (nat a)"
  define j where "j = floorlog 2 (nat b)"
  have i: "1 \<le> i" "2 ^ (i - 1) \<le> nat a"
    using a floorlog_bounds [of "nat a" 2] floorlog_geI [of 2 0 "nat a"] by (auto simp: i_def floorlog_def)
  have j: "nat b < 2 ^ j"
    using b floorlog_bounds [of "nat b" 2] by (auto simp: j_def)
  have "(2 :: rat) ^ (i - 1) \<le> of_int a"
    using i(2) a of_nat_mono [of "2 ^ (i - 1)" "nat a", where 'a = rat] by simp
  moreover have "(of_int b :: rat) \<le> 2 ^ j"
    using j b of_nat_mono [of "nat b" "2 ^ j", where 'a = rat] by simp
  ultimately have "(2 :: rat) ^ (i - 1) / 2 ^ j \<le> x"
    unfolding x using a b by (intro frac_le) simp_all
  moreover have "(2 :: rat) powi (int i - int j - 1) = 2 ^ (i - 1) / 2 ^ j"
    using i(1) by (simp add: power_int_diff of_nat_diff power_diff)
  ultimately show ?thesis
    by (simp add: floor_log2_def q Let_def i_def [symmetric] j_def [symmetric])
qed

lemma round_even_of_int: "round_even (of_int n) = n"
  by (simp add: round_even_def)

lemma fl_exact:
  assumes x: "x = of_int m * 2 powi k" and m: "\<bar>m\<bar> < 2 ^ p"
  shows "fl (int p) x = x"
proof (cases "m = 0")
  case True
  then show ?thesis
    by (simp add: x fl_def)
next
  case False
  define e where "e = floor_log2 \<bar>x\<bar>"
  have "2 powi e \<le> \<bar>x\<bar>"
    using False x unfolding e_def by (intro floor_log2_le) simp
  also have "\<bar>x\<bar> < 2 powi (int p + k)"
  proof -
    have "\<bar>of_int m :: rat\<bar> < 2 ^ p"
      using m by (metis of_int_abs of_int_less_iff of_int_numeral of_int_power)
    then show ?thesis
      by (simp add: x abs_mult power_int_add)
  qed
  finally have "e < int p + k"
    using power_int_increasing [of "int p + k" e "2 :: rat"] by (fastforce simp: not_le [symmetric])
  then obtain n where n: "k = e - int p + 1 + int n"
    using zle_iff_zadd [of "e - int p + 1" k] by auto
  have "x / 2 powi (e - int p + 1) = of_int (m * 2 ^ n)"
    by (simp add: x n power_int_add)
  then have "of_int (round_even (x / 2 powi (e - int p + 1))) = x / 2 powi (e - int p + 1)"
    by (metis round_even_of_int)
  then show ?thesis
    by (simp add: fl_def Let_def e_def)
qed

lemma float64_of_int: "\<bar>m\<bar> < 2 ^ 53 \<Longrightarrow> float64 (of_int m) = of_int m"
  using fl_exact [of "of_int m" m 0 53] by (simp add: float64_def)

lemma float64_quarter: "\<bar>m\<bar> < 2 ^ 53 \<Longrightarrow> float64 (of_int m / 4) = of_int m / 4"
  using fl_exact [of "of_int m / 4" m "- 2" 53] by (simp add: float64_def power_int_minus)

end
