(* ===== verification/FlowControl.thy ===== *)
theory FlowControl
  imports GoFloat Frames
begin

text \<open>
  Flow control (\<^verbatim>\<open>internal/flowcontrol\<close>): the controller shared by streams and the
  connection, the two controllers that embed it, and a step relation for a connection with
  any number of streams. The embedding is record extension. \<^verbatim>\<open>time.Now\<close> and the smoothed
  round-trip time are arguments; the zero time is \<^const>\<open>None\<close>. The callback
  \<^verbatim>\<open>queueWindowUpdate\<close> is counted.
\<close>

section \<open>The base controller\<close>

record baseFlowController =
  fc_bytesSent :: int
  fc_sendWindow :: int
  fc_lastBlockedAt :: int
  fc_bytesRead :: int
  fc_highestReceived :: int
  fc_receiveWindow :: int
  fc_receiveWindowSize :: int
  fc_maxReceiveWindowSize :: int
  fc_allowWindowIncrease :: "(int \<Rightarrow> bool) option"
  fc_epochStartTime :: "int option"
  fc_epochStartOffset :: int
  fc_queuedWindowUpdates :: nat

definition WindowUpdateThreshold :: rat where
  "WindowUpdateThreshold = 1 / 4"

definition ConnectionFlowControlMultiplier :: rat where
  "ConnectionFlowControlMultiplier = 3 / 2"

definition fc_sendWindowSize :: "'a baseFlowController_scheme \<Rightarrow> int" where
  "fc_sendWindowSize c =
     (if fc_bytesSent c > fc_sendWindow c then 0 else fc_sendWindow c - fc_bytesSent c)"

definition IsNewlyBlocked :: "'a baseFlowController_scheme \<Rightarrow> 'a baseFlowController_scheme \<times> bool \<times> int" where
  "IsNewlyBlocked c =
     (if fc_sendWindowSize c \<noteq> 0 \<or> fc_sendWindow c = fc_lastBlockedAt c then (c, False, 0)
      else (c\<lparr>fc_lastBlockedAt := fc_sendWindow c\<rparr>, True, fc_sendWindow c))"

definition fc_AddBytesSent :: "'a baseFlowController_scheme \<Rightarrow> int \<Rightarrow> 'a baseFlowController_scheme" where
  "fc_AddBytesSent c n = c\<lparr>fc_bytesSent := fc_bytesSent c + n\<rparr>"

definition UpdateSendWindow :: "'a baseFlowController_scheme \<Rightarrow> int \<Rightarrow> 'a baseFlowController_scheme \<times> bool" where
  "UpdateSendWindow c offset =
     (if offset > fc_sendWindow c then (c\<lparr>fc_sendWindow := offset\<rparr>, True) else (c, False))"

definition startNewAutoTuningEpoch :: "int \<Rightarrow> 'a baseFlowController_scheme \<Rightarrow> 'a baseFlowController_scheme" where
  "startNewAutoTuningEpoch now c = c\<lparr>fc_epochStartTime := Some now, fc_epochStartOffset := fc_bytesRead c\<rparr>"

definition fc_addBytesRead :: "int \<Rightarrow> 'a baseFlowController_scheme \<Rightarrow> int \<Rightarrow> 'a baseFlowController_scheme" where
  "fc_addBytesRead now c n =
     (let c = (if fc_bytesRead c = 0 then startNewAutoTuningEpoch now c else c)
      in c\<lparr>fc_bytesRead := fc_bytesRead c + n\<rparr>)"

definition hasWindowUpdate :: "'a baseFlowController_scheme \<Rightarrow> bool" where
  "hasWindowUpdate c \<longleftrightarrow>
     fc_receiveWindow c - fc_bytesRead c
       \<le> float_to_int (float64 (float64 (of_int (fc_receiveWindowSize c)) * (1 - WindowUpdateThreshold)))"

text \<open>\<^verbatim>\<open>time.Time.Sub\<close>: the difference to the zero time is cut off at the largest duration.\<close>

definition time_Sub :: "int \<Rightarrow> int option \<Rightarrow> int" where
  "time_Sub now t = (case t of None \<Rightarrow> 2 ^ 63 - 1 | Some t \<Rightarrow> now - t)"

definition maybeAdjustWindowSize :: "int \<Rightarrow> int \<Rightarrow> 'a baseFlowController_scheme \<Rightarrow> 'a baseFlowController_scheme" where
  "maybeAdjustWindowSize srtt now c =
     (let bytesReadInEpoch = fc_bytesRead c - fc_epochStartOffset c in
      if bytesReadInEpoch \<le> go_div (fc_receiveWindowSize c) 2 then c
      else if srtt = 0 then c
      else
        let fraction = float64 (float64 (of_int bytesReadInEpoch) / float64 (of_int (fc_receiveWindowSize c)));
            newSize = min (2 * fc_receiveWindowSize c) (fc_maxReceiveWindowSize c);
            c = (if time_Sub now (fc_epochStartTime c)
                    < float_to_int (float64 (float64 (4 * fraction) * float64 (of_int srtt)))
                    \<and> newSize > fc_receiveWindowSize c
                    \<and> (case fc_allowWindowIncrease c of None \<Rightarrow> True | Some allow \<Rightarrow> allow (newSize - fc_receiveWindowSize c))
                 then c\<lparr>fc_receiveWindowSize := newSize\<rparr> else c)
        in startNewAutoTuningEpoch now c)"

definition fc_getWindowUpdate :: "int \<Rightarrow> int \<Rightarrow> 'a baseFlowController_scheme \<Rightarrow> 'a baseFlowController_scheme \<times> int" where
  "fc_getWindowUpdate srtt now c =
     (if \<not> hasWindowUpdate c then (c, 0)
      else
        let c = maybeAdjustWindowSize srtt now c;
            c = c\<lparr>fc_receiveWindow := fc_bytesRead c + fc_receiveWindowSize c\<rparr>
        in (c, fc_receiveWindow c))"

definition checkFlowControlViolation :: "'a baseFlowController_scheme \<Rightarrow> bool" where
  "checkFlowControlViolation c \<longleftrightarrow> fc_highestReceived c > fc_receiveWindow c"

definition fc_queueWindowUpdate :: "'a baseFlowController_scheme \<Rightarrow> 'a baseFlowController_scheme" where
  "fc_queueWindowUpdate c = c\<lparr>fc_queuedWindowUpdates := fc_queuedWindowUpdates c + 1\<rparr>"

section \<open>The connection\<close>

type_synonym connectionFlowController = baseFlowController

definition FlowControlError :: u64 where
  "FlowControlError = 0x3"

definition FinalSizeError :: u64 where
  "FinalSizeError = 0x6"

definition NewConnectionFlowController :: "int \<Rightarrow> int \<Rightarrow> (int \<Rightarrow> bool) option \<Rightarrow> connectionFlowController" where
  "NewConnectionFlowController receiveWindow maxReceiveWindow allowWindowIncrease =
     \<lparr>fc_bytesSent = 0, fc_sendWindow = 0, fc_lastBlockedAt = 0, fc_bytesRead = 0, fc_highestReceived = 0,
      fc_receiveWindow = receiveWindow, fc_receiveWindowSize = receiveWindow,
      fc_maxReceiveWindowSize = maxReceiveWindow, fc_allowWindowIncrease = allowWindowIncrease,
      fc_epochStartTime = None, fc_epochStartOffset = 0, fc_queuedWindowUpdates = 0\<rparr>"

definition conn_SendWindowSize :: "connectionFlowController \<Rightarrow> int" where
  "conn_SendWindowSize c = fc_sendWindowSize c"

definition IncrementHighestReceived :: "connectionFlowController \<Rightarrow> int \<Rightarrow> connectionFlowController \<times> unit outcome" where
  "IncrementHighestReceived c increment =
     (let c = c\<lparr>fc_highestReceived := fc_highestReceived c + increment\<rparr> in
      if checkFlowControlViolation c
      then (c, Err (TransportError 0 FlowControlError ''received too many bytes for the connection''))
      else (c, Ok ()))"

definition conn_AddBytesRead :: "int \<Rightarrow> connectionFlowController \<Rightarrow> int \<Rightarrow> connectionFlowController" where
  "conn_AddBytesRead now c n =
     (let c = fc_addBytesRead now c n
      in if hasWindowUpdate c then fc_queueWindowUpdate c else c)"

definition conn_GetWindowUpdate :: "int \<Rightarrow> int \<Rightarrow> connectionFlowController \<Rightarrow> connectionFlowController \<times> int" where
  "conn_GetWindowUpdate srtt now c = fc_getWindowUpdate srtt now c"

text \<open>
  The callback is called without the check for \<^verbatim>\<open>nil\<close> that \<^verbatim>\<open>maybeAdjustWindowSize\<close> has.
\<close>

definition EnsureMinimumWindowSize :: "int \<Rightarrow> connectionFlowController \<Rightarrow> int \<Rightarrow> connectionFlowController outcome" where
  "EnsureMinimumWindowSize now c inc =
     (if inc > fc_receiveWindowSize c then
        let newSize = min inc (fc_maxReceiveWindowSize c); d = newSize - fc_receiveWindowSize c in
        if d > 0 then
          (case fc_allowWindowIncrease c of
             None \<Rightarrow> Panic ''invalid memory address or nil pointer dereference''
           | Some allow \<Rightarrow>
               Ok (startNewAutoTuningEpoch now (if allow d then c\<lparr>fc_receiveWindowSize := newSize\<rparr> else c)))
        else Ok (startNewAutoTuningEpoch now c)
      else Ok c)"

definition conn_Reset :: "connectionFlowController \<Rightarrow> connectionFlowController \<times> unit outcome" where
  "conn_Reset c =
     (if fc_bytesRead c > 0 \<or> fc_highestReceived c > 0 \<or> fc_epochStartTime c \<noteq> None
      then (c, Err (ErrorString ''flow controller reset after reading data''))
      else (c\<lparr>fc_bytesSent := 0, fc_lastBlockedAt := 0\<rparr>, Ok ()))"

section \<open>A stream\<close>

text \<open>Methods that reach the controller of the connection take it as a second argument and return it.\<close>

record streamFlowController = baseFlowController +
  sfc_streamID :: int
  sfc_receivedFinalOffset :: bool

definition NewStreamFlowController :: "int \<Rightarrow> int \<Rightarrow> int \<Rightarrow> int \<Rightarrow> streamFlowController" where
  "NewStreamFlowController streamID receiveWindow maxReceiveWindow initialSendWindow =
     \<lparr>fc_bytesSent = 0, fc_sendWindow = initialSendWindow, fc_lastBlockedAt = 0, fc_bytesRead = 0, fc_highestReceived = 0,
      fc_receiveWindow = receiveWindow, fc_receiveWindowSize = receiveWindow,
      fc_maxReceiveWindowSize = maxReceiveWindow, fc_allowWindowIncrease = None,
      fc_epochStartTime = None, fc_epochStartOffset = 0, fc_queuedWindowUpdates = 0,
      sfc_streamID = streamID, sfc_receivedFinalOffset = False\<rparr>"

definition UpdateHighestReceived ::
  "streamFlowController \<Rightarrow> connectionFlowController \<Rightarrow> int \<Rightarrow> bool
   \<Rightarrow> streamFlowController \<times> connectionFlowController \<times> unit outcome" where
  "UpdateHighestReceived c connection offset final =
     (if sfc_receivedFinalOffset c \<and> final \<and> offset \<noteq> fc_highestReceived c
      then (c, connection, Err (TransportError 0 FinalSizeError ''received inconsistent final offset''))
      else if sfc_receivedFinalOffset c \<and> offset > fc_highestReceived c
      then (c, connection, Err (TransportError 0 FinalSizeError ''final offset was already received''))
      else
        let c = (if final then c\<lparr>sfc_receivedFinalOffset := True\<rparr> else c) in
        if offset = fc_highestReceived c then (c, connection, Ok ())
        else if offset \<le> fc_highestReceived c then
          (c, connection, if final
             then Err (TransportError 0 FinalSizeError ''received final offset, but already received a higher one before'')
             else Ok ())
        else
          let increment = offset - fc_highestReceived c;
              c = c\<lparr>fc_highestReceived := offset\<rparr>
          in if checkFlowControlViolation c
             then (c, connection, Err (TransportError 0 FlowControlError ''received too many bytes on stream''))
             else let (connection, r) = IncrementHighestReceived connection increment in (c, connection, r))"

definition shouldQueueWindowUpdate :: "streamFlowController \<Rightarrow> bool" where
  "shouldQueueWindowUpdate c \<longleftrightarrow> \<not> sfc_receivedFinalOffset c \<and> hasWindowUpdate c"

definition stream_AddBytesRead ::
  "int \<Rightarrow> streamFlowController \<Rightarrow> connectionFlowController \<Rightarrow> int \<Rightarrow> streamFlowController \<times> connectionFlowController" where
  "stream_AddBytesRead now c connection n =
     (let c = fc_addBytesRead now c n;
          c = (if shouldQueueWindowUpdate c then fc_queueWindowUpdate c else c)
      in (c, conn_AddBytesRead now connection n))"

definition Abandon :: "int \<Rightarrow> streamFlowController \<Rightarrow> connectionFlowController \<Rightarrow> connectionFlowController" where
  "Abandon now c connection =
     (let unread = fc_highestReceived c - fc_bytesRead c
      in if unread > 0 then conn_AddBytesRead now connection unread else connection)"

definition stream_AddBytesSent ::
  "streamFlowController \<Rightarrow> connectionFlowController \<Rightarrow> int \<Rightarrow> streamFlowController \<times> connectionFlowController" where
  "stream_AddBytesSent c connection n = (fc_AddBytesSent c n, fc_AddBytesSent connection n)"

definition stream_SendWindowSize :: "streamFlowController \<Rightarrow> connectionFlowController \<Rightarrow> int" where
  "stream_SendWindowSize c connection = min (fc_sendWindowSize c) (conn_SendWindowSize connection)"

definition stream_GetWindowUpdate ::
  "int \<Rightarrow> int \<Rightarrow> streamFlowController \<Rightarrow> connectionFlowController
   \<Rightarrow> (streamFlowController \<times> connectionFlowController \<times> int) outcome" where
  "stream_GetWindowUpdate srtt now c connection =
     (if sfc_receivedFinalOffset c then Ok (c, connection, 0)
      else
        let oldWindowSize = fc_receiveWindowSize c;
            (c, offset) = fc_getWindowUpdate srtt now c
        in if fc_receiveWindowSize c > oldWindowSize
           then bindr (EnsureMinimumWindowSize now connection
                  (float_to_int (float64 (float64 (of_int (fc_receiveWindowSize c)) * ConnectionFlowControlMultiplier))))
                (\<lambda>connection. Ok (c, connection, offset))
           else Ok (c, connection, offset))"

section \<open>Laws of the base controller\<close>

lemma threshold:
  assumes "0 \<le> n" "n < 2 ^ 51"
  shows "float_to_int (float64 (float64 (of_int n) * (1 - WindowUpdateThreshold))) = 3 * n div 4"
proof -
  have n: "float64 (of_int n) * (1 - WindowUpdateThreshold) = of_int (3 * n) / 4"
    using assms by (simp add: float64_of_int WindowUpdateThreshold_def)
  have q: "float64 (of_int (3 * n) / 4) = of_int (3 * n) / 4"
    using assms by (intro float64_quarter) simp
  have "\<lfloor>of_int (3 * n) / 4 :: rat\<rfloor> = 3 * n div 4"
    using floor_divide_of_int_eq [of "3 * n" 4, where 'a = rat] by simp
  then show ?thesis
    unfolding n q float_to_int_def using assms by simp
qed

definition fc_inv :: "'a baseFlowController_scheme \<Rightarrow> bool" where
  "fc_inv c \<longleftrightarrow> 0 \<le> fc_bytesRead c \<and> fc_bytesRead c \<le> fc_highestReceived c
     \<and> fc_highestReceived c \<le> fc_receiveWindow c
     \<and> fc_receiveWindow c \<le> fc_bytesRead c + fc_receiveWindowSize c
     \<and> fc_receiveWindowSize c \<le> fc_maxReceiveWindowSize c \<and> fc_maxReceiveWindowSize c < 2 ^ 51
     \<and> 0 \<le> fc_bytesSent c \<and> fc_bytesSent c \<le> max 0 (fc_sendWindow c)"

lemma fc_inv_size: "fc_inv c \<Longrightarrow> 0 \<le> fc_receiveWindowSize c \<and> fc_receiveWindowSize c < 2 ^ 51"
  by (simp add: fc_inv_def)

lemma hasWindowUpdate_iff:
  "fc_inv c \<Longrightarrow> hasWindowUpdate c \<longleftrightarrow> fc_receiveWindow c - fc_bytesRead c \<le> 3 * fc_receiveWindowSize c div 4"
  using fc_inv_size [of c] by (simp add: hasWindowUpdate_def threshold)

lemma adjust_fields:
  "fc_bytesRead (maybeAdjustWindowSize srtt now c) = fc_bytesRead c"
  "fc_highestReceived (maybeAdjustWindowSize srtt now c) = fc_highestReceived c"
  "fc_receiveWindow (maybeAdjustWindowSize srtt now c) = fc_receiveWindow c"
  "fc_maxReceiveWindowSize (maybeAdjustWindowSize srtt now c) = fc_maxReceiveWindowSize c"
  "fc_bytesSent (maybeAdjustWindowSize srtt now c) = fc_bytesSent c"
  "fc_sendWindow (maybeAdjustWindowSize srtt now c) = fc_sendWindow c"
  "fc_allowWindowIncrease (maybeAdjustWindowSize srtt now c) = fc_allowWindowIncrease c"
  by (simp_all add: maybeAdjustWindowSize_def startNewAutoTuningEpoch_def Let_def)

lemma adjust_size:
  "fc_receiveWindowSize c \<le> fc_maxReceiveWindowSize c \<Longrightarrow>
   fc_receiveWindowSize c \<le> fc_receiveWindowSize (maybeAdjustWindowSize srtt now c)
   \<and> fc_receiveWindowSize (maybeAdjustWindowSize srtt now c) \<le> fc_maxReceiveWindowSize c"
  by (simp add: maybeAdjustWindowSize_def startNewAutoTuningEpoch_def Let_def)

lemma adjust_more [simp]:
  "streamFlowController.sfc_receivedFinalOffset (maybeAdjustWindowSize srtt now c) = sfc_receivedFinalOffset c"
  by (simp add: maybeAdjustWindowSize_def startNewAutoTuningEpoch_def Let_def)

lemma getWindowUpdate_fields:
  assumes "fc_getWindowUpdate srtt now c = (c', offset)"
  shows "fc_bytesRead c' = fc_bytesRead c" "fc_highestReceived c' = fc_highestReceived c"
    "fc_bytesSent c' = fc_bytesSent c" "fc_sendWindow c' = fc_sendWindow c"
    "fc_maxReceiveWindowSize c' = fc_maxReceiveWindowSize c" "fc_allowWindowIncrease c' = fc_allowWindowIncrease c"
  using assms by (auto simp: fc_getWindowUpdate_def Let_def adjust_fields split: if_splits)

lemma getWindowUpdate_inv:
  assumes "fc_inv c" "fc_getWindowUpdate srtt now c = (c', offset)"
  shows "fc_inv c'" "fc_receiveWindow c \<le> fc_receiveWindow c'"
    "offset = (if hasWindowUpdate c then fc_receiveWindow c' else 0)"
    "hasWindowUpdate c \<Longrightarrow> fc_receiveWindow c + fc_receiveWindowSize c div 4 \<le> fc_receiveWindow c'"
    "fc_receiveWindowSize c \<le> fc_receiveWindowSize c'"
proof -
  let ?m = "maybeAdjustWindowSize srtt now c"
  have sz: "0 \<le> fc_receiveWindowSize c" "fc_receiveWindowSize c \<le> fc_receiveWindowSize ?m"
      "fc_receiveWindowSize ?m \<le> fc_maxReceiveWindowSize c"
    using fc_inv_size [OF assms(1)] adjust_size [of c srtt now] assms(1) by (simp_all add: fc_inv_def)
  have c': "c' = (if hasWindowUpdate c then ?m\<lparr>fc_receiveWindow := fc_bytesRead c + fc_receiveWindowSize ?m\<rparr> else c)"
    using assms(2) by (auto simp: fc_getWindowUpdate_def Let_def adjust_fields)
  have ext: "fc_receiveWindow c + fc_receiveWindowSize c div 4 \<le> fc_bytesRead c + fc_receiveWindowSize ?m"
    if "hasWindowUpdate c"
    using that sz unfolding hasWindowUpdate_iff [OF assms(1)] by linarith
  show "fc_inv c'"
  proof (cases "hasWindowUpdate c")
    case True
    then have "fc_highestReceived c \<le> fc_bytesRead c + fc_receiveWindowSize ?m"
      using ext [OF True] sz assms(1) by (simp add: fc_inv_def)
    then show ?thesis
      using assms(1) sz True by (simp add: c' fc_inv_def adjust_fields)
  qed (use assms(1) c' in simp)
  show "fc_receiveWindow c \<le> fc_receiveWindow c'" "fc_receiveWindowSize c \<le> fc_receiveWindowSize c'"
    using ext sz by (auto simp: c')
  show "offset = (if hasWindowUpdate c then fc_receiveWindow c' else 0)"
    using assms(2) by (auto simp: fc_getWindowUpdate_def Let_def adjust_fields)
  show "fc_receiveWindow c + fc_receiveWindowSize c div 4 \<le> fc_receiveWindow c'" if "hasWindowUpdate c"
    using ext [OF that] that by (simp add: c')
qed



section \<open>A connection and its streams\<close>

text \<open>
  The controllers of a connection that has not been closed by an error. A stream is paired
  with whether it has been abandoned, which happens once, when its final size is known. Data
  is read after it was received and sent within the window. \<open>reset\<close> is the rejection of
  0-RTT, which drops all streams.
\<close>

record fc_state =
  fs_conn :: connectionFlowController
  fs_streams :: "(streamFlowController \<times> bool) list"

inductive fc_step :: "fc_state \<Rightarrow> fc_state \<Rightarrow> bool" where
  open_stream: "0 \<le> w \<Longrightarrow> w \<le> m \<Longrightarrow> m < 2 ^ 51 \<Longrightarrow>
    fc_step s (s\<lparr>fs_streams := fs_streams s @ [(NewStreamFlowController sid w m sw, False)]\<rparr>)"
| receive: "i < length (fs_streams s) \<Longrightarrow> fs_streams s ! i = (c, a) \<Longrightarrow> 0 \<le> offset \<Longrightarrow>
    UpdateHighestReceived c (fs_conn s) offset final = (c', conn', Ok ()) \<Longrightarrow>
    fc_step s \<lparr>fs_conn = conn', fs_streams = (fs_streams s)[i := (c', a)]\<rparr>"
| read: "i < length (fs_streams s) \<Longrightarrow> fs_streams s ! i = (c, False) \<Longrightarrow>
    0 \<le> n \<Longrightarrow> n \<le> fc_highestReceived c - fc_bytesRead c \<Longrightarrow>
    stream_AddBytesRead now c (fs_conn s) n = (c', conn') \<Longrightarrow>
    fc_step s \<lparr>fs_conn = conn', fs_streams = (fs_streams s)[i := (c', False)]\<rparr>"
| abandon: "i < length (fs_streams s) \<Longrightarrow> fs_streams s ! i = (c, False) \<Longrightarrow> sfc_receivedFinalOffset c \<Longrightarrow>
    fc_step s \<lparr>fs_conn = Abandon now c (fs_conn s), fs_streams = (fs_streams s)[i := (c, True)]\<rparr>"
| send: "i < length (fs_streams s) \<Longrightarrow> fs_streams s ! i = (c, a) \<Longrightarrow>
    0 \<le> n \<Longrightarrow> n \<le> stream_SendWindowSize c (fs_conn s) \<Longrightarrow>
    stream_AddBytesSent c (fs_conn s) n = (c', conn') \<Longrightarrow>
    fc_step s \<lparr>fs_conn = conn', fs_streams = (fs_streams s)[i := (c', a)]\<rparr>"
| stream_update: "i < length (fs_streams s) \<Longrightarrow> fs_streams s ! i = (c, a) \<Longrightarrow>
    stream_GetWindowUpdate srtt now c (fs_conn s) = Ok (c', conn', offset) \<Longrightarrow>
    fc_step s \<lparr>fs_conn = conn', fs_streams = (fs_streams s)[i := (c', a)]\<rparr>"
| conn_update: "conn_GetWindowUpdate srtt now (fs_conn s) = (conn', offset) \<Longrightarrow>
    fc_step s (s\<lparr>fs_conn := conn'\<rparr>)"
| max_stream_data: "i < length (fs_streams s) \<Longrightarrow> fs_streams s ! i = (c, a) \<Longrightarrow>
    fc_step s (s\<lparr>fs_streams := (fs_streams s)[i := (fst (UpdateSendWindow c offset), a)]\<rparr>)"
| max_data: "fc_step s (s\<lparr>fs_conn := fst (UpdateSendWindow (fs_conn s) offset)\<rparr>)"
| reset: "conn_Reset (fs_conn s) = (conn', Ok ()) \<Longrightarrow> fc_step s \<lparr>fs_conn = conn', fs_streams = []\<rparr>"

definition fs_highest :: "fc_state \<Rightarrow> int" where
  "fs_highest s = (\<Sum>(c, a) \<leftarrow> fs_streams s. fc_highestReceived c)"

definition fs_read :: "fc_state \<Rightarrow> int" where
  "fs_read s = (\<Sum>(c, a) \<leftarrow> fs_streams s. if a then fc_highestReceived c else fc_bytesRead c)"

definition fs_sent :: "fc_state \<Rightarrow> int" where
  "fs_sent s = (\<Sum>(c, a) \<leftarrow> fs_streams s. fc_bytesSent c)"

definition fs_inv :: "fc_state \<Rightarrow> bool" where
  "fs_inv s \<longleftrightarrow> fc_inv (fs_conn s) \<and> fc_highestReceived (fs_conn s) = fs_highest s
     \<and> fc_bytesRead (fs_conn s) = fs_read s \<and> fc_bytesSent (fs_conn s) = fs_sent s
     \<and> (\<forall>(c, a) \<in> set (fs_streams s). fc_inv c \<and> (a \<longrightarrow> sfc_receivedFinalOffset c))"

lemmas fs_sums = fs_highest_def fs_read_def fs_sent_def

lemma sum_list_replace:
  fixes g :: "'a \<Rightarrow> int"
  shows "i < length xs \<Longrightarrow> (\<Sum>x \<leftarrow> xs[i := y]. g x) = (\<Sum>x \<leftarrow> xs. g x) + (g y - g (xs ! i))"
  by (induction xs arbitrary: i) (auto split: nat.splits)

lemma fs_read_le: "\<forall>(c, a) \<in> set xs. fc_inv c \<Longrightarrow>
  (\<Sum>(c, a) \<leftarrow> xs. if a then fc_highestReceived c else fc_bytesRead c) \<le> (\<Sum>(c, a) \<leftarrow> xs. fc_highestReceived c)"
  by (intro sum_list_mono) (auto simp: fc_inv_def)

lemma inv_at: "fs_inv s \<Longrightarrow> i < length (fs_streams s) \<Longrightarrow> fs_streams s ! i = (c, a) \<Longrightarrow>
  fc_inv c \<and> (a \<longrightarrow> sfc_receivedFinalOffset c)"
  unfolding fs_inv_def by (metis (mono_tags, lifting) case_prodD nth_mem)

text \<open>One stream changes, and the sums of the connection change by the same amount.\<close>

lemma fs_inv_update:
  assumes inv: "fs_inv s" and i: "i < length (fs_streams s)" "fs_streams s ! i = (c, a)"
    and c': "fc_inv c'" "a' \<longrightarrow> sfc_receivedFinalOffset c'" and conn: "fc_inv conn'"
    and h: "fc_highestReceived conn' - fc_highestReceived (fs_conn s) = fc_highestReceived c' - fc_highestReceived c"
    and r: "fc_bytesRead conn' - fc_bytesRead (fs_conn s)
      = (if a' then fc_highestReceived c' else fc_bytesRead c') - (if a then fc_highestReceived c else fc_bytesRead c)"
    and b: "fc_bytesSent conn' - fc_bytesSent (fs_conn s) = fc_bytesSent c' - fc_bytesSent c"
  shows "fs_inv \<lparr>fs_conn = conn', fs_streams = (fs_streams s)[i := (c', a')]\<rparr>"
proof -
  have "\<forall>(c, a) \<in> set ((fs_streams s)[i := (c', a')]). fc_inv c \<and> (a \<longrightarrow> sfc_receivedFinalOffset c)"
    using inv c' set_update_subset_insert [of "fs_streams s" i "(c', a')"] unfolding fs_inv_def by fast
  then show ?thesis
    using inv i h r b conn by (simp add: fs_inv_def fs_sums sum_list_replace)
qed

lemma addBytesRead_fields:
  "fc_bytesRead (fc_addBytesRead now c n) = fc_bytesRead c + n"
  "fc_highestReceived (fc_addBytesRead now c n) = fc_highestReceived c"
  "fc_bytesSent (fc_addBytesRead now c n) = fc_bytesSent c" "fc_sendWindow (fc_addBytesRead now c n) = fc_sendWindow c"
  "fc_receiveWindow (fc_addBytesRead now c n) = fc_receiveWindow c"
  "fc_receiveWindowSize (fc_addBytesRead now c n) = fc_receiveWindowSize c"
  "fc_maxReceiveWindowSize (fc_addBytesRead now c n) = fc_maxReceiveWindowSize c"
  "fc_inv c \<Longrightarrow> 0 \<le> n \<Longrightarrow> n \<le> fc_highestReceived c - fc_bytesRead c \<Longrightarrow> fc_inv (fc_addBytesRead now c n)"
  by (simp_all add: fc_addBytesRead_def startNewAutoTuningEpoch_def Let_def fc_inv_def)

lemma queue_fields:
  "fc_bytesRead (fc_queueWindowUpdate c) = fc_bytesRead c" "fc_highestReceived (fc_queueWindowUpdate c) = fc_highestReceived c"
  "fc_bytesSent (fc_queueWindowUpdate c) = fc_bytesSent c" "fc_inv (fc_queueWindowUpdate c) = fc_inv c"
  by (simp_all add: fc_queueWindowUpdate_def fc_inv_def)

lemma conn_AddBytesRead_fields:
  "fc_bytesRead (conn_AddBytesRead now c n) = fc_bytesRead c + n"
  "fc_highestReceived (conn_AddBytesRead now c n) = fc_highestReceived c"
  "fc_bytesSent (conn_AddBytesRead now c n) = fc_bytesSent c"
  "fc_inv c \<Longrightarrow> 0 \<le> n \<Longrightarrow> n \<le> fc_highestReceived c - fc_bytesRead c \<Longrightarrow> fc_inv (conn_AddBytesRead now c n)"
  by (simp_all add: conn_AddBytesRead_def Let_def queue_fields addBytesRead_fields)

lemma EnsureMinimum_fields:
  assumes "EnsureMinimumWindowSize now c inc = Ok c'" "fc_inv c"
  shows "fc_inv c'" "fc_bytesRead c' = fc_bytesRead c" "fc_highestReceived c' = fc_highestReceived c"
    "fc_bytesSent c' = fc_bytesSent c"
  using assms by (auto simp: EnsureMinimumWindowSize_def startNewAutoTuningEpoch_def Let_def fc_inv_def
      split: if_splits option.splits)

lemma unread_le:
  assumes "fs_inv s" "i < length (fs_streams s)" "fs_streams s ! i = (c, False)"
  shows "fc_highestReceived c - fc_bytesRead c \<le> fc_highestReceived (fs_conn s) - fc_bytesRead (fs_conn s)"
proof -
  have "\<forall>(c, a) \<in> set ((fs_streams s)[i := (c, True)]). fc_inv c"
    using assms inv_at [OF assms] set_update_subset_insert [of "fs_streams s" i "(c, True)"] unfolding fs_inv_def by fast
  from fs_read_le [OF this] show ?thesis
    using assms by (simp add: fs_inv_def fs_sums sum_list_replace)
qed

lemma UpdateHighestReceived_inv:
  assumes "fc_inv c" "fc_inv conn" "UpdateHighestReceived c conn offset final = (c', conn', Ok ())"
  shows "fc_inv c'" "fc_inv conn'" "fc_bytesRead c' = fc_bytesRead c" "fc_bytesRead conn' = fc_bytesRead conn"
    "fc_highestReceived conn' - fc_highestReceived conn = fc_highestReceived c' - fc_highestReceived c"
    "fc_bytesSent c' = fc_bytesSent c" "fc_bytesSent conn' = fc_bytesSent conn"
    "sfc_receivedFinalOffset c \<Longrightarrow> fc_highestReceived c' = fc_highestReceived c \<and> sfc_receivedFinalOffset c'"
  using assms by (auto simp: UpdateHighestReceived_def IncrementHighestReceived_def checkFlowControlViolation_def
      fc_inv_def Let_def split: if_splits)

lemma stream_GetWindowUpdate_inv:
  assumes "fc_inv c" "fc_inv conn" "stream_GetWindowUpdate srtt now c conn = Ok (c', conn', offset)"
  shows "fc_inv c'" "fc_inv conn'" "fc_bytesRead c' = fc_bytesRead c" "fc_bytesRead conn' = fc_bytesRead conn"
    "fc_highestReceived conn' = fc_highestReceived conn" "fc_highestReceived c' = fc_highestReceived c"
    "fc_bytesSent c' = fc_bytesSent c" "fc_bytesSent conn' = fc_bytesSent conn"
    "sfc_receivedFinalOffset c \<Longrightarrow> sfc_receivedFinalOffset c'"
proof -
  obtain d off where d: "fc_getWindowUpdate srtt now c = (d, off)"
    by (cases "fc_getWindowUpdate srtt now c")
  note facts = getWindowUpdate_inv(1) [OF assms(1) d] getWindowUpdate_fields [OF d]
  have "(c', conn') = (c, conn) \<or> c' = d \<and> (conn' = conn \<or> (\<exists>inc. EnsureMinimumWindowSize now conn inc = Ok conn'))"
    using assms(3) d by (auto simp: stream_GetWindowUpdate_def bindr_eq_Ok_iff split: if_splits)
  then show "fc_inv c'" "fc_inv conn'" "fc_bytesRead c' = fc_bytesRead c" "fc_bytesRead conn' = fc_bytesRead conn"
    "fc_highestReceived conn' = fc_highestReceived conn" "fc_highestReceived c' = fc_highestReceived c"
    "fc_bytesSent c' = fc_bytesSent c" "fc_bytesSent conn' = fc_bytesSent conn"
    using facts assms(1,2) EnsureMinimum_fields [of now conn _ conn'] by auto
  show "sfc_receivedFinalOffset c \<Longrightarrow> sfc_receivedFinalOffset c'"
    using assms(3) by (simp add: stream_GetWindowUpdate_def)
qed

lemma fs_inv_fst: "fs_inv s \<Longrightarrow> fc_inv (fs_conn s)"
  by (simp add: fs_inv_def)

lemma fc_step_inv: "fc_step s s' \<Longrightarrow> fs_inv s \<Longrightarrow> fs_inv s'"
proof (induction rule: fc_step.induct)
  case (open_stream w m s sid sw)
  then show ?case
    by (auto simp: fs_inv_def fs_sums NewStreamFlowController_def fc_inv_def)
next
  case (receive i s c a offset final c' conn')
  note c = inv_at [OF receive.prems receive.hyps(1,2)]
  show ?case
    using UpdateHighestReceived_inv [OF _ fs_inv_fst [OF receive.prems] receive.hyps(4)] c receive
    by (intro fs_inv_update [OF receive.prems receive.hyps(1,2)]) auto
next
  case (read i s c n now c' conn')
  note c = inv_at [OF read.prems read.hyps(1,2)]
  have eq: "c' = (let d = fc_addBytesRead now c n in if shouldQueueWindowUpdate d then fc_queueWindowUpdate d else d)"
      "conn' = conn_AddBytesRead now (fs_conn s) n"
    using read.hyps(5) by (simp_all add: stream_AddBytesRead_def Let_def)
  have "n \<le> fc_highestReceived (fs_conn s) - fc_bytesRead (fs_conn s)"
    using unread_le [OF read.prems read.hyps(1,2)] read.hyps(4) by linarith
  then show ?case
    using c read.hyps fs_inv_fst [OF read.prems] unfolding eq
    by (intro fs_inv_update [OF read.prems read.hyps(1,2)])
      (auto simp: Let_def conn_AddBytesRead_fields addBytesRead_fields queue_fields)
next
  case (abandon i s c now)
  note c = inv_at [OF abandon.prems abandon.hyps(1,2)]
  have "fc_bytesRead c \<le> fc_highestReceived c"
    using c by (simp add: fc_inv_def)
  then show ?case
    using c abandon.hyps fs_inv_fst [OF abandon.prems] unread_le [OF abandon.prems abandon.hyps(1,2)]
    by (intro fs_inv_update [OF abandon.prems abandon.hyps(1,2)])
      (auto simp: Abandon_def Let_def conn_AddBytesRead_fields)
next
  case (send i s c a n c' conn')
  note c = inv_at [OF send.prems send.hyps(1,2)]
  have eq: "c' = fc_AddBytesSent c n" "conn' = fc_AddBytesSent (fs_conn s) n"
    using send.hyps(5) by (simp_all add: stream_AddBytesSent_def)
  show ?case
    using c send.hyps fs_inv_fst [OF send.prems] unfolding eq
    by (intro fs_inv_update [OF send.prems send.hyps(1,2)])
      (auto simp: fc_AddBytesSent_def fc_inv_def stream_SendWindowSize_def conn_SendWindowSize_def fc_sendWindowSize_def
         split: if_splits)
next
  case (stream_update i s c a srtt now c' conn' offset)
  note c = inv_at [OF stream_update.prems stream_update.hyps(1,2)]
  show ?case
    using stream_GetWindowUpdate_inv [OF _ fs_inv_fst [OF stream_update.prems] stream_update.hyps(3)] c
    by (intro fs_inv_update [OF stream_update.prems stream_update.hyps(1,2)]) auto
next
  case (conn_update srtt now s conn' offset)
  then have upd: "fc_getWindowUpdate srtt now (fs_conn s) = (conn', offset)"
    by (simp add: conn_GetWindowUpdate_def)
  show ?case
    using getWindowUpdate_inv(1) [OF fs_inv_fst [OF conn_update.prems] upd] getWindowUpdate_fields [OF upd] conn_update.prems
    by (simp add: fs_inv_def fs_sums)
next
  case (max_stream_data i s c a offset)
  note c = inv_at [OF max_stream_data.prems max_stream_data.hyps(1,2)]
  have "fs_inv \<lparr>fs_conn = fs_conn s, fs_streams = (fs_streams s)[i := (fst (UpdateSendWindow c offset), a)]\<rparr>"
    using c fs_inv_fst [OF max_stream_data.prems]
    by (intro fs_inv_update [OF max_stream_data.prems max_stream_data.hyps(1,2)]) (auto simp: UpdateSendWindow_def fc_inv_def)
  then show ?case
    by (simp add: fs_inv_def fs_sums)
next
  case (max_data s offset)
  then show ?case
    by (auto simp: fs_inv_def fs_sums UpdateSendWindow_def fc_inv_def)
next
  case (reset s conn')
  then show ?case
    by (auto simp: fs_inv_def fs_sums conn_Reset_def fc_inv_def split: if_splits)
qed

lemma fc_step_max: "fc_step s s' \<Longrightarrow> fc_maxReceiveWindowSize (fs_conn s') = fc_maxReceiveWindowSize (fs_conn s)"
proof (induction rule: fc_step.induct)
  case (stream_update i s c a srtt now c' conn' offset)
  then have "conn' = fs_conn s \<or> (\<exists>inc. EnsureMinimumWindowSize now (fs_conn s) inc = Ok conn')"
    by (auto simp: stream_GetWindowUpdate_def bindr_eq_Ok_iff split: if_splits prod.splits)
  then show ?case
    by (auto simp: EnsureMinimumWindowSize_def startNewAutoTuningEpoch_def Let_def split: if_splits option.splits)
qed (auto simp: UpdateHighestReceived_def IncrementHighestReceived_def stream_AddBytesRead_def conn_AddBytesRead_def
    Abandon_def stream_AddBytesSent_def fc_AddBytesSent_def conn_GetWindowUpdate_def UpdateSendWindow_def conn_Reset_def
    addBytesRead_fields fc_queueWindowUpdate_def getWindowUpdate_fields Let_def split: if_splits)

lemma fc_reach_inv:
  assumes "fc_step\<^sup>*\<^sup>* \<lparr>fs_conn = NewConnectionFlowController w m (Some allow), fs_streams = []\<rparr> s"
    and "0 \<le> w" "w \<le> m" "m < 2 ^ 51"
  shows "fs_inv s \<and> fc_maxReceiveWindowSize (fs_conn s) = m"
  using assms(1)
proof (induction rule: rtranclp_induct)
  case base
  then show ?case
    using assms(2-4) by (simp add: fs_inv_def fs_sums fc_inv_def NewConnectionFlowController_def)
next
  case (step s s')
  then show ?case
    using fc_step_inv fc_step_max by simp
qed

text \<open>
  C35 (flow-control). In every state of a connection that no error has closed, the books of
  the connection are the sums over its streams: received, read (all of an abandoned stream)
  and sent. What was received is within the advertised windows, what was sent within the
  peer's, and the data that is received but not read, which the receiver has to buffer, is
  at most the configured maximum, per stream and in total.
\<close>

theorem flow_control_accounting:
  assumes run: "fc_step\<^sup>*\<^sup>* \<lparr>fs_conn = NewConnectionFlowController w m (Some allow), fs_streams = []\<rparr> s"
    and "0 \<le> w" "w \<le> m" "m < 2 ^ 51"
  shows "fc_highestReceived (fs_conn s) = (\<Sum>(c, a) \<leftarrow> fs_streams s. fc_highestReceived c)
    \<and> fc_bytesRead (fs_conn s) = (\<Sum>(c, a) \<leftarrow> fs_streams s. if a then fc_highestReceived c else fc_bytesRead c)
    \<and> fc_bytesSent (fs_conn s) = (\<Sum>(c, a) \<leftarrow> fs_streams s. fc_bytesSent c)
    \<and> fc_highestReceived (fs_conn s) \<le> fc_receiveWindow (fs_conn s)
    \<and> fc_bytesSent (fs_conn s) \<le> max 0 (fc_sendWindow (fs_conn s))
    \<and> fc_highestReceived (fs_conn s) - fc_bytesRead (fs_conn s) \<le> m
    \<and> list_all (\<lambda>(c, a). fc_highestReceived c \<le> fc_receiveWindow c \<and> fc_bytesSent c \<le> max 0 (fc_sendWindow c)
         \<and> fc_highestReceived c - fc_bytesRead c \<le> fc_maxReceiveWindowSize c) (fs_streams s)"
proof -
  have inv: "fs_inv s" "fc_maxReceiveWindowSize (fs_conn s) = m"
    using fc_reach_inv [OF assms] by simp_all
  have "fc_inv c \<Longrightarrow> fc_highestReceived c \<le> fc_receiveWindow c \<and> fc_bytesSent c \<le> max 0 (fc_sendWindow c)
      \<and> fc_highestReceived c - fc_bytesRead c \<le> fc_maxReceiveWindowSize c" for c :: "'a baseFlowController_scheme"
    by (auto simp: fc_inv_def)
  then have "list_all (\<lambda>(c, a). fc_highestReceived c \<le> fc_receiveWindow c \<and> fc_bytesSent c \<le> max 0 (fc_sendWindow c)
      \<and> fc_highestReceived c - fc_bytesRead c \<le> fc_maxReceiveWindowSize c) (fs_streams s)"
    using inv(1) unfolding fs_inv_def list_all_iff by fast
  then show ?thesis
    using inv unfolding fs_inv_def fs_sums fc_inv_def by auto
qed

theorem flow_control_accounting_witness:
  "\<exists>s. fc_step\<^sup>*\<^sup>* \<lparr>fs_conn = NewConnectionFlowController 150 300 (Some (\<lambda>_. True)), fs_streams = []\<rparr> s
     \<and> fc_highestReceived (fs_conn s) = 70 \<and> fc_highestReceived (fs_conn s) - fc_bytesRead (fs_conn s) \<le> 300"
proof -
  let ?c = "NewConnectionFlowController 150 300 (Some (\<lambda>_. True))"
  let ?d = "NewStreamFlowController 4 100 200 0"
  let ?s0 = "\<lparr>fs_conn = ?c, fs_streams = []\<rparr>"
  let ?s1 = "\<lparr>fs_conn = ?c, fs_streams = [(?d, False)]\<rparr>"
  let ?s2 = "\<lparr>fs_conn = ?c\<lparr>fc_highestReceived := 70\<rparr>, fs_streams = [(?d\<lparr>fc_highestReceived := 70\<rparr>, False)]\<rparr>"
  have "fc_step ?s0 ?s1"
    using fc_step.open_stream [of 100 200 ?s0 4 0] by simp
  moreover have "fc_step ?s1 ?s2"
    using fc_step.receive [of 0 ?s1 ?d False 70 False "?d\<lparr>fc_highestReceived := 70\<rparr>" "?c\<lparr>fc_highestReceived := 70\<rparr>"]
    by (simp add: UpdateHighestReceived_def IncrementHighestReceived_def checkFlowControlViolation_def
        NewStreamFlowController_def NewConnectionFlowController_def)
  ultimately have run: "fc_step\<^sup>*\<^sup>* ?s0 ?s2"
    by (meson rtranclp.rtrancl_into_rtrancl rtranclp.rtrancl_refl)
  show ?thesis
    using flow_control_accounting [OF run] run by (intro exI [of _ ?s2]) simp
qed

end
