(* ===== verification/AckFrame.thy ===== *)
theory AckFrame
  imports Frames
begin

text \<open>
  ACK frames (\<^verbatim>\<open>internal/wire/ack_frame.go\<close>, \<^verbatim>\<open>ack_range.go\<close>): the ranges, their
  encoding as gaps and lengths, the limit on the number of encoded ranges, parsing, the
  validation of received ranges and the binary search of \<^verbatim>\<open>AcksPacket\<close>. The lemmas show
  that a written frame is read back as its prefix of ranges with the delay rounded down,
  that the search agrees with membership in a range, and that the parser only returns
  ordered, disjoint ranges.
\<close>

section \<open>Searching\<close>

text \<open>
  \<^verbatim>\<open>sort.Search\<close> of the Go standard library: binary search in \<open>[i, j)\<close> for the
  smallest index with \<open>f\<close>.
\<close>

function sort_Search_loop :: "(nat \<Rightarrow> bool) \<Rightarrow> nat \<Rightarrow> nat \<Rightarrow> nat" where
  "sort_Search_loop f i j =
     (if i < j then
        let h = (i + j) div 2 in
        if \<not> f h then sort_Search_loop f (h + 1) j else sort_Search_loop f i h
      else i)"
  by pat_completeness auto
termination
  by (relation "measure (\<lambda>(f, i, j). j - i)") (auto simp: Let_def)

declare sort_Search_loop.simps [simp del]

definition sort_Search :: "nat \<Rightarrow> (nat \<Rightarrow> bool) \<Rightarrow> nat" where
  "sort_Search n f = sort_Search_loop f 0 n"

lemma sort_Search_loop_spec:
  assumes mono: "\<And>k l. k \<le> l \<Longrightarrow> l < n \<Longrightarrow> f k \<Longrightarrow> f l"
    and "i \<le> j" "j \<le> n" "\<forall>k < i. \<not> f k" "\<forall>k. j \<le> k \<and> k < n \<longrightarrow> f k"
  shows "sort_Search_loop f i j \<le> n \<and> (\<forall>k < sort_Search_loop f i j. \<not> f k)
    \<and> (\<forall>k. sort_Search_loop f i j \<le> k \<and> k < n \<longrightarrow> f k)"
  using assms(2-5)
proof (induction "j - i" arbitrary: i j rule: less_induct)
  case less
  define h where "h = (i + j) div 2"
  consider "i = j" | "i < j" "f h" | "i < j" "\<not> f h"
    using less.prems(1) by linarith
  then show ?case
  proof cases
    case 1
    then show ?thesis
      using less.prems by (subst (1 2 3) sort_Search_loop.simps) auto
  next
    case 2
    then have h: "i \<le> h" "h < j" by (auto simp: h_def)
    then have "\<forall>k. h \<le> k \<and> k < n \<longrightarrow> f k"
      using 2 mono by blast
    moreover have "sort_Search_loop f i j = sort_Search_loop f i h"
      using 2 by (subst sort_Search_loop.simps) (simp add: Let_def flip: h_def)
    moreover have "h - i < j - i" "h \<le> n"
      using h less.prems by auto
    ultimately show ?thesis
      using less.hyps [of h i] less.prems h by metis
  next
    case 3
    then have h: "i \<le> h" "h < j" by (auto simp: h_def)
    then have "\<forall>k < h + 1. \<not> f k"
      using 3 mono [of _ h] less.prems by (metis Suc_eq_plus1 less_Suc_eq_le less_le_trans)
    moreover have "sort_Search_loop f i j = sort_Search_loop f (h + 1) j"
      using 3 by (subst sort_Search_loop.simps) (simp add: Let_def flip: h_def)
    moreover have "j - (h + 1) < j - i" "h + 1 \<le> j"
      using h by auto
    ultimately show ?thesis
      using less.hyps [of j "h + 1"] less.prems by metis
  qed
qed

lemma sort_Search_spec:
  assumes "\<And>k l. k \<le> l \<Longrightarrow> l < n \<Longrightarrow> f k \<Longrightarrow> f l"
  shows "sort_Search n f \<le> n" "\<And>k. k < sort_Search n f \<Longrightarrow> \<not> f k"
    and "\<And>k. sort_Search n f \<le> k \<Longrightarrow> k < n \<Longrightarrow> f k"
proof -
  have "sort_Search_loop f 0 n \<le> n \<and> (\<forall>k < sort_Search_loop f 0 n. \<not> f k)
    \<and> (\<forall>k. sort_Search_loop f 0 n \<le> k \<and> k < n \<longrightarrow> f k)"
    by (rule sort_Search_loop_spec, erule (2) assms) auto
  then show "sort_Search n f \<le> n" "\<And>k. k < sort_Search n f \<Longrightarrow> \<not> f k"
    and "\<And>k. sort_Search n f \<le> k \<Longrightarrow> k < n \<Longrightarrow> f k"
    unfolding sort_Search_def by blast+
qed

section \<open>The frame\<close>

record AckRange =
  ar_Smallest :: PacketNumber
  ar_Largest :: PacketNumber

definition AckRange_Len :: "AckRange \<Rightarrow> PacketNumber" where
  "AckRange_Len r = ar_Largest r - ar_Smallest r + 1"

record AckFrame =
  af_AckRanges :: "AckRange list"
  af_DelayTime :: int
  af_ECT0 :: u64
  af_ECT1 :: u64
  af_ECNCE :: u64

definition MaxAckFrameSize :: ByteCount where
  "MaxAckFrameSize = 1000"

definition AckDelayExponent :: nat where
  "AckDelayExponent = 3"

definition InfDuration :: int where
  "InfDuration = 2 ^ 63 - 1"

abbreviation errInvalidAckRanges :: go_error where
  "errInvalidAckRanges \<equiv> ErrorString ''AckFrame: ACK frame contains invalid ACK ranges''"

definition AckFrame_Reset :: "AckFrame \<Rightarrow> AckFrame" where
  "AckFrame_Reset f = \<lparr>af_AckRanges = [], af_DelayTime = 0, af_ECT0 = 0, af_ECT1 = 0, af_ECNCE = 0\<rparr>"

definition encodeAckDelay :: "int \<Rightarrow> u64" where
  "encodeAckDelay delay = to_u64 (go_div delay (1000 * 2 ^ AckDelayExponent))"

definition HasMissingRanges :: "AckFrame \<Rightarrow> bool" where
  "HasMissingRanges f \<longleftrightarrow> length (af_AckRanges f) > 1"

definition validateAckRanges :: "AckFrame \<Rightarrow> bool" where
  "validateAckRanges f \<longleftrightarrow>
     (let rs = af_AckRanges f in
      length rs \<noteq> 0
      \<and> list_all (\<lambda>r. \<not> ar_Smallest r > ar_Largest r) rs
      \<and> list_all (\<lambda>i. \<not> ar_Smallest (rs ! (i - 1)) \<le> ar_Smallest (rs ! i)
                     \<and> \<not> ar_Smallest (rs ! (i - 1)) \<le> ar_Largest (rs ! i) + 1) [1..<length rs])"

definition LargestAcked :: "AckFrame \<Rightarrow> PacketNumber outcome" where
  "LargestAcked f = (case af_AckRanges f of [] \<Rightarrow> Panic ''index out of range'' | r # _ \<Rightarrow> Ok (ar_Largest r))"

definition LowestAcked :: "AckFrame \<Rightarrow> PacketNumber outcome" where
  "LowestAcked f =
     (if af_AckRanges f = [] then Panic ''index out of range'' else Ok (ar_Smallest (last (af_AckRanges f))))"

definition AcksPacket :: "AckFrame \<Rightarrow> PacketNumber \<Rightarrow> bool outcome" where
  "AcksPacket f p =
     bindr (LowestAcked f) (\<lambda>lowest. bindr (LargestAcked f) (\<lambda>largest.
     if p < lowest \<or> p > largest then Ok False
     else
       let i = sort_Search (length (af_AckRanges f)) (\<lambda>i. p \<ge> ar_Smallest (af_AckRanges f ! i)) in
       if i \<ge> length (af_AckRanges f) then Panic ''index out of range''
       else Ok (p \<le> ar_Largest (af_AckRanges f ! i))))"

definition encodeAckRange :: "AckFrame \<Rightarrow> nat \<Rightarrow> (u64 \<times> u64) outcome" where
  "encodeAckRange f i =
     (let rs = af_AckRanges f in
      if i \<ge> length rs then Panic ''index out of range''
      else if i = 0 then Ok (0, to_u64 (ar_Largest (rs ! 0) - ar_Smallest (rs ! 0)))
      else Ok (to_u64 (ar_Smallest (rs ! (i - 1)) - ar_Largest (rs ! i) - 2),
               to_u64 (ar_Largest (rs ! i) - ar_Smallest (rs ! i))))"

text \<open>
  The loop of \<^verbatim>\<open>numEncodableAckRanges\<close> from index \<open>i\<close>, with \<open>k\<close> ranges to go.
\<close>

fun numEncodable_loop :: "AckFrame \<Rightarrow> nat \<Rightarrow> nat \<Rightarrow> int \<Rightarrow> int outcome" where
  "numEncodable_loop f i 0 len = Ok (int (length (af_AckRanges f)))"
| "numEncodable_loop f i (Suc k) len =
     bindr (encodeAckRange f i) (\<lambda>(gap, l).
     bindr (addLen (quicvarint_Len gap) l) (\<lambda>rangeLen.
     if len + rangeLen > MaxAckFrameSize then Ok (int i - 1)
     else numEncodable_loop f (i + 1) k (len + rangeLen)))"

definition numEncodableAckRanges :: "AckFrame \<Rightarrow> int outcome" where
  "numEncodableAckRanges f =
     bindr (LargestAcked f) (\<lambda>largest.
     bindr (addLen (addLen (Ok 1) (to_u64 largest)) (encodeAckDelay (af_DelayTime f))) (\<lambda>len.
     numEncodable_loop f 1 (length (af_AckRanges f) - 1) (len + 2)))"

text \<open>The loops of \<^verbatim>\<open>Append\<close> and \<^verbatim>\<open>Length\<close> over the ranges from index \<open>i\<close>.\<close>

fun AppendRanges :: "AckFrame \<Rightarrow> nat \<Rightarrow> nat \<Rightarrow> byte list \<Rightarrow> byte list outcome" where
  "AppendRanges f i 0 b = Ok b"
| "AppendRanges f i (Suc k) b =
     bindr (encodeAckRange f i) (\<lambda>(gap, l).
     bindr (appv (appv (Ok b) gap) l) (\<lambda>b. AppendRanges f (i + 1) k b))"

fun LengthRanges :: "AckFrame \<Rightarrow> nat \<Rightarrow> nat \<Rightarrow> int \<Rightarrow> int outcome" where
  "LengthRanges f i 0 len = Ok len"
| "LengthRanges f i (Suc k) len =
     bindr (encodeAckRange f i) (\<lambda>(gap, l).
     bindr (addLen (addLen (Ok len) gap) l) (\<lambda>len. LengthRanges f (i + 1) k len))"

definition hasECN :: "AckFrame \<Rightarrow> bool" where
  "hasECN f \<longleftrightarrow> af_ECT0 f > 0 \<or> af_ECT1 f > 0 \<or> af_ECNCE f > 0"

definition AckFrame_Append :: "byte list \<Rightarrow> AckFrame \<Rightarrow> byte list outcome" where
  "AckFrame_Append b f =
     (let b = (if hasECN f then b @ [0x3] else b @ [0x2]) in
      bindr (LargestAcked f) (\<lambda>largest.
      bindr (appv (appv (Ok b) (to_u64 largest)) (encodeAckDelay (af_DelayTime f))) (\<lambda>b.
      bindr (numEncodableAckRanges f) (\<lambda>numRanges.
      bindr (appv (Ok b) (to_u64 (numRanges - 1))) (\<lambda>b.
      bindr (encodeAckRange f 0) (\<lambda>(_, firstRange).
      bindr (appv (Ok b) firstRange) (\<lambda>b.
      bindr (AppendRanges f 1 (nat (numRanges - 1)) b) (\<lambda>b.
      if hasECN f then appv (appv (appv (Ok b) (af_ECT0 f)) (af_ECT1 f)) (af_ECNCE f)
      else Ok b))))))))"

definition AckFrame_Length :: "AckFrame \<Rightarrow> int outcome" where
  "AckFrame_Length f =
     (case af_AckRanges f of [] \<Rightarrow> Panic ''index out of range''
      | r0 # _ \<Rightarrow>
        bindr (numEncodableAckRanges f) (\<lambda>numRanges.
        bindr (addLen (addLen (addLen (addLen (Ok 1) (to_u64 (ar_Largest r0)))
                 (encodeAckDelay (af_DelayTime f))) (to_u64 (numRanges - 1)))
                 (to_u64 (ar_Largest r0 - ar_Smallest r0))) (\<lambda>len.
        bindr (LengthRanges f 1 (nat (numRanges - 1)) len) (\<lambda>len.
        if hasECN f then addLen (addLen (addLen (Ok len) (af_ECT0 f)) (af_ECT1 f)) (af_ECNCE f)
        else Ok len))))"

text \<open>
  Parsing: the loop over the further ranges, and the whole frame. The ranges are appended
  to those of the frame that is passed in.
\<close>

fun parseAckRanges :: "nat \<Rightarrow> PacketNumber \<Rightarrow> reader \<Rightarrow> (AckRange list \<times> reader) outcome" where
  "parseAckRanges 0 smallest r = Ok ([], r)"
| "parseAckRanges (Suc numBlocks) smallest r =
     bindr (quicvarint_Read r) (\<lambda>(g, r).
     let gap = to_i64 g in
     if smallest < gap + 2 then Err errInvalidAckRanges
     else
       let largest = smallest - gap - 2 in
       bindr (quicvarint_Read r) (\<lambda>(ab, r).
       let ackBlock = to_i64 ab in
       if ackBlock > largest then Err errInvalidAckRanges
       else
         let smallest = largest - ackBlock in
         bindr (parseAckRanges numBlocks smallest r) (\<lambda>(rs, r).
         Ok (\<lparr>ar_Smallest = smallest, ar_Largest = largest\<rparr> # rs, r))))"

text \<open>
  \<^verbatim>\<open>time.Duration(delay*1<<ackDelayExponent) * time.Microsecond\<close>, with the wrap-around
  of the shift and of the multiplication.
\<close>

definition ackDelayTime :: "u64 \<Rightarrow> byte \<Rightarrow> int" where
  "ackDelayTime delay ackDelayExponent =
     (let delayTime = to_i64 (to_u64 (to_i64 (push_bit (unat ackDelayExponent) delay) * 1000))
      in if delayTime < 0 then InfDuration else delayTime)"

definition parseAckFrame :: "AckFrame \<Rightarrow> reader \<Rightarrow> u64 \<Rightarrow> byte \<Rightarrow> (AckFrame \<times> reader) outcome" where
  "parseAckFrame frame r typ ackDelayExponent =
     bindr (quicvarint_Read r) (\<lambda>(la, r).
     let largestAcked = to_i64 la in
     bindr (quicvarint_Read r) (\<lambda>(delay, r).
     bindr (quicvarint_Read r) (\<lambda>(numBlocks, r).
     bindr (quicvarint_Read r) (\<lambda>(ab, r).
     let ackBlock = to_i64 ab in
     if ackBlock > largestAcked then Err (ErrorString ''invalid first ACK range'')
     else
       let smallest = largestAcked - ackBlock in
       bindr (parseAckRanges (unat numBlocks) smallest r) (\<lambda>(rs, r).
       let frame = frame\<lparr>af_DelayTime := ackDelayTime delay ackDelayExponent,
             af_AckRanges := af_AckRanges frame
               @ \<lparr>ar_Smallest = smallest, ar_Largest = largestAcked\<rparr> # rs\<rparr> in
       if \<not> validateAckRanges frame then Err errInvalidAckRanges
       else if typ = 0x3 then
         bindr (quicvarint_Read r) (\<lambda>(ect0, r).
         bindr (quicvarint_Read r) (\<lambda>(ect1, r).
         bindr (quicvarint_Read r) (\<lambda>(ecnce, r).
         Ok (frame\<lparr>af_ECT0 := ect0, af_ECT1 := ect1, af_ECNCE := ecnce\<rparr>, r))))
       else Ok (frame, r))))))"

section \<open>Ordered ranges\<close>

text \<open>
  The ranges \<open>rs\<close> are non-empty, lie below \<open>s\<close> and below each other, with gaps.
\<close>

fun ranges_below :: "PacketNumber \<Rightarrow> AckRange list \<Rightarrow> bool" where
  "ranges_below s [] \<longleftrightarrow> True"
| "ranges_below s (r # rs) \<longleftrightarrow>
     ar_Largest r + 1 < s \<and> ar_Smallest r \<le> ar_Largest r \<and> ranges_below (ar_Smallest r) rs"

lemma list_all_successively:
  "list_all (\<lambda>i. P (xs ! (i - 1)) (xs ! i)) [1..<length xs] \<longleftrightarrow> successively P xs"
proof -
  have "(\<forall>i \<in> {1..<n}. Q (i - 1) i) \<longleftrightarrow> (\<forall>i. Suc i < n \<longrightarrow> Q i (Suc i))" for n and Q :: "nat \<Rightarrow> nat \<Rightarrow> bool"
    by (metis Suc_eq_plus1 Suc_le_D atLeastLessThan_iff diff_Suc_1 le_add2 One_nat_def)
  then show ?thesis
    by (simp add: list_all_iff successively_conv_nth)
qed

lemma ranges_below_successively:
  "ranges_below (ar_Smallest r) rs \<longleftrightarrow> list_all (\<lambda>r. ar_Smallest r \<le> ar_Largest r) rs
     \<and> successively (\<lambda>l r. ar_Smallest r < ar_Smallest l \<and> ar_Largest r + 1 < ar_Smallest l) (r # rs)"
  by (induction rs arbitrary: r) (auto simp: successively_Cons)

lemma validateAckRanges_below:
  "validateAckRanges f \<longleftrightarrow> (\<exists>r rs. af_AckRanges f = r # rs \<and> ar_Smallest r \<le> ar_Largest r
     \<and> ranges_below (ar_Smallest r) rs)"
  using list_all_successively [of "\<lambda>l r. \<not> ar_Smallest l \<le> ar_Smallest r \<and> \<not> ar_Smallest l \<le> ar_Largest r + 1"
      "af_AckRanges f"]
  by (cases "af_AckRanges f")
    (auto simp: validateAckRanges_def Let_def not_le not_less ranges_below_successively simp del: upt_Suc)

lemma ranges_below_nth:
  "ranges_below s rs \<Longrightarrow> i < length rs \<Longrightarrow>
     ar_Largest (rs ! i) + 1 < s \<and> ar_Smallest (rs ! i) \<le> ar_Largest (rs ! i)"
proof (induction rs arbitrary: s i)
  case (Cons r rs)
  then show ?case
    by (cases i) (auto dest!: Cons.IH [of "ar_Smallest r"])
qed simp

lemma ranges_below_order:
  "ranges_below s rs \<Longrightarrow> i < j \<Longrightarrow> j < length rs \<Longrightarrow> ar_Largest (rs ! j) + 1 < ar_Smallest (rs ! i)"
proof (induction rs arbitrary: s i j)
  case (Cons r rs)
  then show ?case
    by (cases i; cases j) (auto dest: ranges_below_nth [of "ar_Smallest r" rs])
qed simp

lemma ranges_below_take: "ranges_below s rs \<Longrightarrow> ranges_below s (take n rs)"
  by (induction rs arbitrary: s n) (auto simp: take_Cons split: nat.split)

lemma ranges_below_drop:
  "ranges_below s rs \<Longrightarrow> i < length rs \<Longrightarrow> ranges_below (ar_Smallest (rs ! i)) (drop (Suc i) rs)"
proof (induction rs arbitrary: s i)
  case (Cons r rs)
  then show ?case
    by (cases i) auto
qed simp

text \<open>The ranges of a valid frame, with their order.\<close>

lemma validate_order:
  assumes "validateAckRanges f" "i < j" "j < length (af_AckRanges f)"
  shows "ar_Largest (af_AckRanges f ! j) + 1 < ar_Smallest (af_AckRanges f ! i)"
proof -
  obtain r rs where "af_AckRanges f = r # rs" "ar_Smallest r \<le> ar_Largest r" "ranges_below (ar_Smallest r) rs"
    using assms(1) by (auto simp: validateAckRanges_below)
  then have "ranges_below (ar_Largest r + 2) (af_AckRanges f)"
    by simp
  then show ?thesis
    using ranges_below_order assms(2,3) by blast
qed

lemma validate_range:
  assumes "validateAckRanges f" "i < length (af_AckRanges f)"
  shows "ar_Smallest (af_AckRanges f ! i) \<le> ar_Largest (af_AckRanges f ! i)"
  using assms by (auto simp: validateAckRanges_def list_all_length Let_def not_less)

text \<open>
  C16 (ack-search). On a frame with valid ranges the binary search of \<^verbatim>\<open>AcksPacket\<close>
  finds a packet number exactly when one of the ranges contains it, without an index out
  of range.
\<close>

theorem AcksPacket_correct:
  assumes v: "validateAckRanges f"
  shows "AcksPacket f p = Ok (\<exists>r \<in> set (af_AckRanges f). ar_Smallest r \<le> p \<and> p \<le> ar_Largest r)"
proof -
  let ?rs = "af_AckRanges f"
  let ?P = "\<lambda>i. ar_Smallest (?rs ! i) \<le> p"
  define n where "n = length ?rs"
  define i where "i = sort_Search n ?P"
  have n: "0 < n" using v by (auto simp: n_def validateAckRanges_def Let_def)
  note order = validate_order [OF v, folded n_def] and range = validate_range [OF v, folded n_def]
  have lo: "LowestAcked f = Ok (ar_Smallest (?rs ! (n - 1)))"
    using n by (auto simp: LowestAcked_def n_def last_conv_nth)
  have hi: "LargestAcked f = Ok (ar_Largest (?rs ! 0))"
    using n by (cases ?rs) (auto simp: LargestAcked_def n_def)
  have mono: "?P l" if "k \<le> l" "l < n" "?P k" for k l
    using that order [of k l] range [of l] by (cases "k = l") auto
  have search: "i \<le> n" "\<And>k. k < i \<Longrightarrow> \<not> ?P k" "\<And>k. i \<le> k \<Longrightarrow> k < n \<Longrightarrow> ?P k"
    unfolding i_def by (rule sort_Search_spec; use mono in blast)+
  have mem: "(\<exists>r \<in> set ?rs. ar_Smallest r \<le> p \<and> p \<le> ar_Largest r) \<longleftrightarrow>
      (\<exists>j < n. ?P j \<and> p \<le> ar_Largest (?rs ! j))"
    by (auto simp: set_conv_nth n_def)
  show ?thesis
  proof (cases "p < ar_Smallest (?rs ! (n - 1)) \<or> p > ar_Largest (?rs ! 0)")
    case True
    have "\<not> (?P j \<and> p \<le> ar_Largest (?rs ! j))" if "j < n" for j
    proof -
      have "j = n - 1 \<or> j < n - 1" "j = 0 \<or> 0 < j"
        using that by linarith+
      then show ?thesis
        using True order [of j "n - 1"] order [of 0 j] range [of "n - 1"] range [of 0] that by fastforce
    qed
    then show ?thesis
      using True unfolding mem by (auto simp: AcksPacket_def lo hi)
  next
    case False
    then have "i < n" "?P i"
      using search(2) [of "n - 1"] search(3) [of i] n by (force simp: not_less)+
    moreover have "j = i" if "j < n" "?P j" "p \<le> ar_Largest (?rs ! j)" for j
      using that search(2) [of j] order [of i j] \<open>?P i\<close> by (metis add_increasing2 le_less_trans less_irrefl less_le_trans linorder_neqE_nat order_trans zero_le_one)
    ultimately have "(\<exists>j < n. ?P j \<and> p \<le> ar_Largest (?rs ! j)) \<longleftrightarrow> p \<le> ar_Largest (?rs ! i)"
      by blast
    then show ?thesis
      using False \<open>i < n\<close> unfolding mem
      by (simp add: AcksPacket_def lo hi Let_def flip: n_def i_def)
  qed
qed

theorem AcksPacket_correct_witness:
  "AcksPacket \<lparr>af_AckRanges = [\<lparr>ar_Smallest = 8, ar_Largest = 9\<rparr>, \<lparr>ar_Smallest = 2, ar_Largest = 5\<rparr>],
     af_DelayTime = 0, af_ECT0 = 0, af_ECT1 = 0, af_ECNCE = 0\<rparr> 4 = Ok True"
  using AcksPacket_correct [of "\<lparr>af_AckRanges = [\<lparr>ar_Smallest = 8, ar_Largest = 9\<rparr>, \<lparr>ar_Smallest = 2, ar_Largest = 5\<rparr>],
     af_DelayTime = 0, af_ECT0 = 0, af_ECT1 = 0, af_ECNCE = 0\<rparr>" 4]
  by (simp add: validateAckRanges_def)

section \<open>Writing and reading back\<close>

text \<open>The bytes of the ranges \<open>rs\<close> that follow a range with smallest element \<open>s\<close>.\<close>

fun ranges_bytes :: "PacketNumber \<Rightarrow> AckRange list \<Rightarrow> byte list" where
  "ranges_bytes s [] = []"
| "ranges_bytes s (r # rs) = varint (to_u64 (s - ar_Largest r - 2))
     @ varint (to_u64 (ar_Largest r - ar_Smallest r)) @ ranges_bytes (ar_Smallest r) rs"

definition AckFrame_wf :: "AckFrame \<Rightarrow> bool" where
  "AckFrame_wf f \<longleftrightarrow> validateAckRanges f
     \<and> list_all (\<lambda>r. 0 \<le> ar_Smallest r \<and> ar_Largest r < 2 ^ 62) (af_AckRanges f)
     \<and> 0 \<le> af_DelayTime f \<and> af_DelayTime f < 2 ^ 63
     \<and> fits_u (af_ECT0 f) \<and> fits_u (af_ECT1 f) \<and> fits_u (af_ECNCE f)"

lemma AckFrame_wf_nth:
  assumes "AckFrame_wf f" "i < length (af_AckRanges f)"
  shows "fits_i (ar_Largest (af_AckRanges f ! i))" "fits_i (ar_Largest (af_AckRanges f ! i) - ar_Smallest (af_AckRanges f ! i))"
    and "0 < i \<Longrightarrow> fits_i (ar_Smallest (af_AckRanges f ! (i - 1)) - ar_Largest (af_AckRanges f ! i) - 2)"
proof -
  have v: "validateAckRanges f"
    and b: "\<And>j. j < length (af_AckRanges f) \<Longrightarrow>
      0 \<le> ar_Smallest (af_AckRanges f ! j) \<and> ar_Largest (af_AckRanges f ! j) < 2 ^ 62"
    using assms by (auto simp: AckFrame_wf_def list_all_length)
  have r: "ar_Smallest (af_AckRanges f ! j) \<le> ar_Largest (af_AckRanges f ! j)"
    if "j < length (af_AckRanges f)" for j
    using validate_range [OF v that] .
  show "fits_i (ar_Largest (af_AckRanges f ! i))"
    "fits_i (ar_Largest (af_AckRanges f ! i) - ar_Smallest (af_AckRanges f ! i))"
    using r [of i] b [of i] assms(2) by (auto simp: fits_i_def)
  show "fits_i (ar_Smallest (af_AckRanges f ! (i - 1)) - ar_Largest (af_AckRanges f ! i) - 2)" if "0 < i"
  proof -
    have "i - 1 < length (af_AckRanges f)"
      using assms(2) by linarith
    then show ?thesis
      using r [of i] r [of "i - 1"] b [of i] b [of "i - 1"] validate_order [OF v, of "i - 1" i] assms(2) that
      by (auto simp: fits_i_def)
  qed
qed

lemma encodeAckRange_Ok:
  "i < length (af_AckRanges f) \<Longrightarrow> 0 < i \<Longrightarrow> encodeAckRange f i =
     Ok (to_u64 (ar_Smallest (af_AckRanges f ! (i - 1)) - ar_Largest (af_AckRanges f ! i) - 2),
         to_u64 (ar_Largest (af_AckRanges f ! i) - ar_Smallest (af_AckRanges f ! i)))"
  by (simp add: encodeAckRange_def Let_def)

lemma AppendRanges_Ok:
  assumes "AckFrame_wf f" "0 < i" "i + k \<le> length (af_AckRanges f)"
  shows "AppendRanges f i k b =
    Ok (b @ ranges_bytes (ar_Smallest (af_AckRanges f ! (i - 1))) (take k (drop i (af_AckRanges f))))"
  using assms(2,3)
proof (induction k arbitrary: i b)
  case (Suc k)
  then show ?case
    using AckFrame_wf_nth [OF assms(1), of i]
    by (simp add: encodeAckRange_Ok Cons_nth_drop_Suc [of i, symmetric])
qed simp

lemma LengthRanges_Ok:
  assumes "AckFrame_wf f" "0 < i" "i + k \<le> length (af_AckRanges f)"
  shows "LengthRanges f i k len = Ok (len
    + int (length (ranges_bytes (ar_Smallest (af_AckRanges f ! (i - 1))) (take k (drop i (af_AckRanges f))))))"
  using assms(2,3)
proof (induction k arbitrary: i len)
  case (Suc k)
  then show ?case
    using AckFrame_wf_nth [OF assms(1), of i]
    by (simp add: encodeAckRange_Ok Cons_nth_drop_Suc [of i, symmetric])
qed simp

lemma parseAckRanges_bytes:
  "ranges_below s rs \<Longrightarrow> s < 2 ^ 62 \<Longrightarrow> list_all (\<lambda>r. 0 \<le> ar_Smallest r) rs \<Longrightarrow>
     parseAckRanges (length rs) s (ranges_bytes s rs @ r) = Ok (rs, r)"
proof (induction rs arbitrary: s)
  case (Cons a rs)
  then have "fits_i (s - ar_Largest a - 2)" "fits_i (ar_Largest a - ar_Smallest a)"
    by (auto simp: fits_i_def)
  then show ?case
    using Cons by simp
qed simp

text \<open>
  How many ranges are written: at least the first one, at most all, and never more than
  what fits: the written ranges take at most \<open>MaxAckFrameSize - len\<close> bytes.
\<close>

lemma numEncodable_loop_Ok:
  assumes "AckFrame_wf f" "0 < i" "i + k = length (af_AckRanges f)" "len \<le> MaxAckFrameSize"
  shows "\<exists>n. numEncodable_loop f i k len = Ok (int n) \<and> i - 1 \<le> n \<and> n \<le> length (af_AckRanges f)
    \<and> len + int (length (ranges_bytes (ar_Smallest (af_AckRanges f ! (i - 1)))
        (take (n - i) (drop i (af_AckRanges f))))) \<le> MaxAckFrameSize"
  using assms(2-4)
proof (induction k arbitrary: i len)
  case 0
  then show ?case by auto
next
  case (Suc k)
  define g l where "g = to_u64 (ar_Smallest (af_AckRanges f ! (i - 1)) - ar_Largest (af_AckRanges f ! i) - 2)"
    and "l = to_u64 (ar_Largest (af_AckRanges f ! i) - ar_Smallest (af_AckRanges f ! i))"
  have fits: "fits_u g" "fits_u l"
    using AckFrame_wf_nth [OF assms(1), of i] Suc.prems by (simp_all add: g_def l_def)
  have enc: "encodeAckRange f i = Ok (g, l)"
    using Suc.prems by (simp add: encodeAckRange_Ok g_def l_def)
  define rl where "rl = int (length (varint g)) + int (length (varint l))"
  have step: "numEncodable_loop f i (Suc k) len =
      (if len + rl > MaxAckFrameSize then Ok (int i - 1) else numEncodable_loop f (i + 1) k (len + rl))"
    using fits by (simp add: enc rl_def quicvarint_Len_Ok fits_u_def)
  show ?case
  proof (cases "len + rl > MaxAckFrameSize")
    case True
    then show ?thesis
      using step Suc.prems by (auto intro!: exI [of _ "i - 1"])
  next
    case False
    then obtain n where n: "numEncodable_loop f (i + 1) k (len + rl) = Ok (int n)" "i \<le> n"
      "n \<le> length (af_AckRanges f)"
      "len + rl + int (length (ranges_bytes (ar_Smallest (af_AckRanges f ! i))
        (take (n - (i + 1)) (drop (i + 1) (af_AckRanges f))))) \<le> MaxAckFrameSize"
      using Suc.IH [of "i + 1" "len + rl"] Suc.prems by auto
    have "take (n - i) (drop i (af_AckRanges f)) =
        (if n = i then [] else af_AckRanges f ! i # take (n - (i + 1)) (drop (i + 1) (af_AckRanges f)))"
      using n Suc.prems by (auto simp: take_Cons' Cons_nth_drop_Suc [of i, symmetric])
    then show ?thesis
      using n step False by (auto intro!: exI [of _ n] simp: rl_def g_def l_def)
  qed
qed

lemma encodeAckDelay_fits:
  assumes "0 \<le> d" "d < 2 ^ 63"
  shows "encodeAckDelay d = to_u64 (d div 8000)" "fits_i (d div 8000)" "fits_u (encodeAckDelay d)"
proof -
  show "encodeAckDelay d = to_u64 (d div 8000)"
    using assms by (simp add: encodeAckDelay_def AckDelayExponent_def)
  moreover show "fits_i (d div 8000)"
    using assms by (auto simp: fits_i_def)
  ultimately show "fits_u (encodeAckDelay d)"
    by simp
qed

definition first_range :: "AckFrame \<Rightarrow> AckRange" where
  "first_range f = af_AckRanges f ! 0"

lemma AckFrame_wfD:
  assumes "AckFrame_wf f"
  shows "af_AckRanges f = first_range f # tl (af_AckRanges f)"
    and "fits_i (ar_Largest (first_range f))" "fits_i (ar_Largest (first_range f) - ar_Smallest (first_range f))"
    and "fits_u (encodeAckDelay (af_DelayTime f))"
    and "fits_u (af_ECT0 f)" "fits_u (af_ECT1 f)" "fits_u (af_ECNCE f)"
proof -
  have "af_AckRanges f \<noteq> []"
    using assms by (auto simp: AckFrame_wf_def validateAckRanges_def Let_def)
  then show "af_AckRanges f = first_range f # tl (af_AckRanges f)"
    by (cases "af_AckRanges f") (auto simp: first_range_def)
  show "fits_i (ar_Largest (first_range f))" "fits_i (ar_Largest (first_range f) - ar_Smallest (first_range f))"
    using AckFrame_wf_nth [OF assms, of 0] \<open>af_AckRanges f \<noteq> []\<close> by (simp_all add: first_range_def)
  show "fits_u (encodeAckDelay (af_DelayTime f))" "fits_u (af_ECT0 f)" "fits_u (af_ECT1 f)" "fits_u (af_ECNCE f)"
    using assms encodeAckDelay_fits by (simp_all add: AckFrame_wf_def)
qed

lemma LargestAcked_wf: "AckFrame_wf f \<Longrightarrow> LargestAcked f = Ok (ar_Largest (first_range f))"
  by (subst LargestAcked_def, subst AckFrame_wfD(1)) simp_all

definition ack_head :: "AckFrame \<Rightarrow> byte list" where
  "ack_head f = varint (to_u64 (ar_Largest (first_range f))) @ varint (encodeAckDelay (af_DelayTime f))"

lemma length_ack_head: "length (ack_head f) \<le> 16"
  using length_varint_le [of "to_u64 (ar_Largest (first_range f))"]
    length_varint_le [of "encodeAckDelay (af_DelayTime f)"] by (simp add: ack_head_def)

lemma numEncodableAckRanges_Ok:
  assumes wf: "AckFrame_wf f"
  shows "\<exists>n. numEncodableAckRanges f = Ok (int (Suc n)) \<and> Suc n \<le> length (af_AckRanges f)
    \<and> 3 + length (ack_head f)
        + length (ranges_bytes (ar_Smallest (first_range f)) (take n (tl (af_AckRanges f)))) \<le> 1000"
proof -
  define h where "h = 3 + int (length (ack_head f))"
  have h: "h \<le> 19" using length_ack_head [of f] by (simp add: h_def)
  have eq: "numEncodableAckRanges f = numEncodable_loop f 1 (length (af_AckRanges f) - 1) h"
    using AckFrame_wfD [OF wf] by (simp add: numEncodableAckRanges_def LargestAcked_wf [OF wf] h_def ack_head_def algebra_simps)
  have ne: "0 < length (af_AckRanges f)" using AckFrame_wfD(1) [OF wf] by (metis length_greater_0_conv list.distinct(1))
  obtain m where m: "numEncodable_loop f 1 (length (af_AckRanges f) - 1) h = Ok (int m)"
      "m \<le> length (af_AckRanges f)"
      "h + int (length (ranges_bytes (ar_Smallest (first_range f)) (take (m - 1) (tl (af_AckRanges f))))) \<le> MaxAckFrameSize"
    using numEncodable_loop_Ok [OF wf, of 1 "length (af_AckRanges f) - 1" h] h ne
    by (auto simp: MaxAckFrameSize_def drop_Suc first_range_def)
  have "m \<noteq> 0"
  proof (cases "length (af_AckRanges f) - 1")
    case 0
    then show ?thesis using m(1) ne by simp
  next
    case (Suc k)
    then have two: "2 + k = length (af_AckRanges f)" "1 < length (af_AckRanges f)" by auto
    note e = encodeAckRange_Ok [OF two(2) zero_less_one] and fits = AckFrame_wf_nth [OF wf two(2)]
    define l where "l = length (varint (to_u64 (ar_Smallest (af_AckRanges f ! 0) - ar_Largest (af_AckRanges f ! 1) - 2)))
      + length (varint (to_u64 (ar_Largest (af_AckRanges f ! 1) - ar_Smallest (af_AckRanges f ! 1))))"
    have "l \<le> 16" unfolding l_def by (metis add_mono length_varint_le numeral_Bit0)
    then have "numEncodable_loop f 1 (Suc k) h = numEncodable_loop f 2 k (h + int l)" "h + int l \<le> MaxAckFrameSize"
      using h fits e by (simp_all add: l_def MaxAckFrameSize_def quicvarint_Len_Ok fits_u_def [symmetric] numeral_2_eq_2)
    then show ?thesis
      using m(1) Suc numEncodable_loop_Ok [OF wf, of 2 k "h + int l"] two by auto
  qed
  then obtain n where "m = Suc n" by (cases m) auto
  then show ?thesis
    using m eq by (auto simp: h_def MaxAckFrameSize_def)
qed

text \<open>The number of ranges after the first one that are written.\<close>

definition further_ranges :: "AckFrame \<Rightarrow> nat" where
  "further_ranges f = (case numEncodableAckRanges f of Ok n \<Rightarrow> nat (n - 1) | _ \<Rightarrow> 0)"

lemma further_ranges:
  assumes "AckFrame_wf f"
  shows "numEncodableAckRanges f = Ok (1 + int (further_ranges f))"
    and "further_ranges f < length (af_AckRanges f)"
    and "3 + length (ack_head f) + length (ranges_bytes (ar_Smallest (first_range f))
      (take (further_ranges f) (tl (af_AckRanges f)))) \<le> 1000"
  using numEncodableAckRanges_Ok [OF assms] by (auto simp: further_ranges_def)

definition ecn_bytes :: "AckFrame \<Rightarrow> byte list" where
  "ecn_bytes f = (if hasECN f then varint (af_ECT0 f) @ varint (af_ECT1 f) @ varint (af_ECNCE f) else [])"

definition AckFrame_type :: "AckFrame \<Rightarrow> u64" where
  "AckFrame_type f = (if hasECN f then 0x3 else 0x2)"

definition ack_body :: "AckFrame \<Rightarrow> byte list" where
  "ack_body f = ack_head f @ varint (to_u64 (int (further_ranges f)))
     @ varint (to_u64 (ar_Largest (first_range f) - ar_Smallest (first_range f)))
     @ ranges_bytes (ar_Smallest (first_range f)) (take (further_ranges f) (tl (af_AckRanges f)))
     @ ecn_bytes f"

text \<open>Each range takes two bytes at least, so that there are fewer than 500.\<close>

lemma length_ranges_bytes:
  "ranges_below s rs \<Longrightarrow> s < 2 ^ 62 \<Longrightarrow> list_all (\<lambda>r. 0 \<le> ar_Smallest r) rs \<Longrightarrow>
     2 * length rs \<le> length (ranges_bytes s rs)"
proof (induction rs arbitrary: s)
  case (Cons a rs)
  then have "fits_u (to_u64 (s - ar_Largest a - 2))" "fits_u (to_u64 (ar_Largest a - ar_Smallest a))"
    by (auto simp: fits_i_def)
  then have "1 \<le> length (varint (to_u64 (s - ar_Largest a - 2)))" "1 \<le> length (varint (to_u64 (ar_Largest a - ar_Smallest a)))"
    using length_varint_pos unfolding fits_u_def One_nat_def Suc_le_eq by blast+
  moreover have "2 * length rs \<le> length (ranges_bytes (ar_Smallest a) rs)"
    using Cons by simp
  ultimately show ?case
    by (simp del: One_nat_def length_0_conv)
qed simp

lemma AckFrame_wf_tl:
  assumes "AckFrame_wf f"
  shows "ranges_below (ar_Smallest (first_range f)) (take n (tl (af_AckRanges f)))"
    and "ar_Smallest (first_range f) < 2 ^ 62" "list_all (\<lambda>r. 0 \<le> ar_Smallest r) (take n (tl (af_AckRanges f)))"
proof -
  obtain r rs where r: "af_AckRanges f = r # rs" "ranges_below (ar_Smallest r) rs" "ar_Smallest r \<le> ar_Largest r"
    using assms by (auto simp: AckFrame_wf_def validateAckRanges_below)
  then show "ranges_below (ar_Smallest (first_range f)) (take n (tl (af_AckRanges f)))"
    and "ar_Smallest (first_range f) < 2 ^ 62"
    using assms by (auto simp: first_range_def ranges_below_take AckFrame_wf_def)
  show "list_all (\<lambda>r. 0 \<le> ar_Smallest r) (take n (tl (af_AckRanges f)))"
    using assms r by (auto simp: AckFrame_wf_def list_all_iff dest: in_set_takeD)
qed

lemma further_ranges_less: "AckFrame_wf f \<Longrightarrow> further_ranges f < 500"
  using further_ranges [of f] length_ranges_bytes [OF AckFrame_wf_tl, of f "further_ranges f"] by simp

lemma AckFrame_Append_bytes:
  assumes wf: "AckFrame_wf f"
  shows "AckFrame_Append b f = Ok (b @ ucast (AckFrame_type f) # ack_body f)"
proof -
  note d = AckFrame_wfD [OF wf] and n = further_ranges [OF wf]
  have fits: "fits_i (int (further_ranges f))"
    using further_ranges_less [OF wf] by (simp add: fits_i_def)
  have enc0: "encodeAckRange f 0 = Ok (0, to_u64 (ar_Largest (first_range f) - ar_Smallest (first_range f)))"
    using n(2) by (auto simp: encodeAckRange_def Let_def first_range_def)
  have rng: "AppendRanges f 1 (further_ranges f) b' =
      Ok (b' @ ranges_bytes (ar_Smallest (first_range f)) (take (further_ranges f) (tl (af_AckRanges f))))" for b'
    using AppendRanges_Ok [OF wf, of 1 "further_ranges f" b'] n(2) by (simp add: first_range_def drop_Suc)
  show ?thesis
    using d fits
    by (simp add: AckFrame_Append_def Let_def LargestAcked_wf [OF wf] n(1) enc0 rng [simplified]
        ack_body_def ack_head_def ecn_bytes_def AckFrame_type_def)
qed

lemma AckFrame_Length_bytes:
  assumes wf: "AckFrame_wf f"
  shows "AckFrame_Length f = Ok (1 + int (length (ack_body f)))"
proof -
  note d = AckFrame_wfD [OF wf] and n = further_ranges [OF wf]
  have fits: "fits_i (int (further_ranges f))"
    using further_ranges_less [OF wf] by (simp add: fits_i_def)
  have rng: "LengthRanges f 1 (further_ranges f) l =
      Ok (l + int (length (ranges_bytes (ar_Smallest (first_range f)) (take (further_ranges f) (tl (af_AckRanges f))))))" for l
    using LengthRanges_Ok [OF wf, of 1 "further_ranges f" l] n(2) by (simp add: first_range_def drop_Suc)
  have "AckFrame_Length f = bindr (numEncodableAckRanges f) (\<lambda>numRanges.
        bindr (addLen (addLen (addLen (addLen (Ok 1) (to_u64 (ar_Largest (first_range f))))
                 (encodeAckDelay (af_DelayTime f))) (to_u64 (numRanges - 1)))
                 (to_u64 (ar_Largest (first_range f) - ar_Smallest (first_range f)))) (\<lambda>len.
        bindr (LengthRanges f 1 (nat (numRanges - 1)) len) (\<lambda>len.
        if hasECN f then addLen (addLen (addLen (Ok len) (af_ECT0 f)) (af_ECT1 f)) (af_ECNCE f)
        else Ok len)))"
    unfolding AckFrame_Length_def by (subst d(1)) simp
  then show ?thesis
    using d fits
    by (simp add: n(1) rng [simplified] ack_body_def ack_head_def ecn_bytes_def algebra_simps)
qed

text \<open>
  What comes back: the ranges that were written, and the delay in units of eight
  microseconds.
\<close>

definition AckFrame_norm :: "AckFrame \<Rightarrow> AckFrame" where
  "AckFrame_norm f = f\<lparr>af_AckRanges := take (further_ranges f + 1) (af_AckRanges f),
     af_DelayTime := af_DelayTime f div 8000 * 8000\<rparr>"

definition newAckFrame :: AckFrame where
  "newAckFrame = \<lparr>af_AckRanges = [], af_DelayTime = 0, af_ECT0 = 0, af_ECT1 = 0, af_ECNCE = 0\<rparr>"

lemma ackDelayTime_encode:
  assumes "0 \<le> d" "d < 2 ^ 63"
  shows "ackDelayTime (encodeAckDelay d) 3 = d div 8000 * 8000"
proof -
  define q where "q = d div 8000"
  have q: "0 \<le> q" "q * 8000 < 2 ^ 63" "0 \<le> q * 8"
    using assms by (auto simp: q_def)
  have "push_bit 3 (to_u64 q) = to_u64 (q * 8)"
    by (simp add: to_u64_def push_word)
  then have "to_i64 (push_bit 3 (to_u64 q)) = q * 8"
    using q by simp
  then show ?thesis
    using q by (simp add: ackDelayTime_def encodeAckDelay_fits(1) [OF assms] Let_def flip: q_def)
qed

lemma parseAckFrame_body:
  assumes wf: "AckFrame_wf f"
  shows "parseAckFrame newAckFrame (ack_body f @ r) (AckFrame_type f) 3 = Ok (AckFrame_norm f, r)"
proof -
  note d = AckFrame_wfD [OF wf] and n = further_ranges [OF wf] and t = AckFrame_wf_tl [OF wf]
  define k where "k = further_ranges f"
  define rs where "rs = take k (tl (af_AckRanges f))"
  define s l where "s = ar_Smallest (first_range f)" and "l = ar_Largest (first_range f)"
  have k: "fits_i (int k)" "unat (to_u64 (int k)) = k" "length rs = k"
    using further_ranges_less [OF wf] n(2) by (simp_all add: fits_i_def k_def rs_def to_u64_def unat_of_nat)
  have sl: "fits_i l" "fits_i (l - s)" "s \<le> l" "fits_u (encodeAckDelay (af_DelayTime f))"
    using d by (simp_all add: s_def l_def fits_i_def)
  have s0: "0 \<le> s"
    using wf n(2) by (force simp: AckFrame_wf_def s_def first_range_def list_all_length)
  have first: "take (k + 1) (af_AckRanges f) = \<lparr>ar_Smallest = s, ar_Largest = l\<rparr> # rs"
    by (subst d(1)) (simp add: rs_def s_def l_def)
  have v: "validateAckRanges (newAckFrame\<lparr>af_DelayTime := dt, af_AckRanges := \<lparr>ar_Smallest = s, ar_Largest = l\<rparr> # rs\<rparr>)" for dt
    using t(1) [of k] sl by (simp add: validateAckRanges_below flip: rs_def s_def)
  have rng: "parseAckRanges k s (ranges_bytes s rs @ r) = Ok (rs, r)" for r
    using parseAckRanges_bytes [of s rs r] t(1) [of k] t(2) t(3) [of k] k by (simp add: rs_def s_def)
  have delay: "ackDelayTime (encodeAckDelay (af_DelayTime f)) 3 = af_DelayTime f div 8000 * 8000"
    using wf by (intro ackDelayTime_encode) (simp_all add: AckFrame_wf_def)
  have ecn: "\<not> hasECN f \<Longrightarrow> af_ECT0 f = 0 \<and> af_ECT1 f = 0 \<and> af_ECNCE f = 0"
    by (simp add: hasECN_def word_greater_zero_iff)
  have body: "ack_body f = varint (to_u64 l) @ varint (encodeAckDelay (af_DelayTime f)) @ varint (to_u64 (int k))
      @ varint (to_u64 (l - s)) @ ranges_bytes s rs @ ecn_bytes f"
    by (simp add: ack_body_def ack_head_def k_def s_def l_def rs_def)
  show ?thesis
    using sl s0 k d(5-7) ecn v [of "ackDelayTime (encodeAckDelay (af_DelayTime f)) 3"] first
    by (cases "hasECN f") (simp_all add: parseAckFrame_def Let_def body rng ecn_bytes_def
        AckFrame_type_def AckFrame_norm_def newAckFrame_def delay flip: k_def)
qed

interpretation ack: frame_codec AckFrame_Append AckFrame_Length AckFrame_type
  "\<lambda>typ r. parseAckFrame newAckFrame r typ 3" AckFrame_norm AckFrame_wf "\<lambda>_. False"
proof (unfold_locales, goal_cases)
  case (1 f)
  then show ?case by (simp add: AckFrame_Append_bytes)
next
  case (2 f b)
  then show ?case by (simp add: AckFrame_Append_bytes)
next
  case (3 f e)
  then show ?case by (auto simp: AckFrame_Append_bytes AckFrame_Length_bytes)
next
  case (4 f e r)
  moreover have "ucast (AckFrame_type f) < (64 :: byte)" "ucast (ucast (AckFrame_type f) :: byte) = AckFrame_type f"
    by (simp_all add: AckFrame_type_def)
  ultimately show ?case
    by (auto simp: AckFrame_Append_bytes parseAckFrame_body)
qed

text \<open>
  C15 (ack-roundtrip). A well-formed ACK frame is written without a panic. Reading the
  bytes back gives the first \<open>n\<close> ranges and the ECN counters exactly, where \<open>n\<close> is the
  positive number \<^verbatim>\<open>numEncodableAckRanges\<close> returns, and the delay rounded down to a
  multiple of 8 microseconds; what follows the frame is left in the reader.
\<close>

theorem ack_roundtrip:
  assumes wf: "AckFrame_wf f"
  shows "\<exists>e bd n. AckFrame_Append b f = Ok (b @ e) \<and> quicvarint_Read (e @ r) = Ok (AckFrame_type f, bd)
    \<and> numEncodableAckRanges f = Ok (int n) \<and> 1 \<le> n \<and> n \<le> length (af_AckRanges f)
    \<and> parseAckFrame newAckFrame bd (AckFrame_type f) 3 =
        Ok (f\<lparr>af_AckRanges := take n (af_AckRanges f),
              af_DelayTime := af_DelayTime f div 8000 * 8000\<rparr>, r)"
proof -
  obtain bd where "quicvarint_Read (ack.enc f @ r) = Ok (AckFrame_type f, bd)"
    "parseAckFrame newAckFrame bd (AckFrame_type f) 3 = Ok (AckFrame_norm f, r)"
    using ack.read_enc [OF wf, of r] by blast
  then show ?thesis
    using ack.append_enc [OF wf, of b] further_ranges [OF wf]
    by (auto simp: AckFrame_norm_def intro!: exI [of _ "further_ranges f + 1"])
qed

theorem ack_roundtrip_witness:
  "\<exists>e bd. AckFrame_Append [] \<lparr>af_AckRanges = [\<lparr>ar_Smallest = 8, ar_Largest = 9\<rparr>, \<lparr>ar_Smallest = 2, ar_Largest = 5\<rparr>],
       af_DelayTime = 17000, af_ECT0 = 1, af_ECT1 = 0, af_ECNCE = 2\<rparr> = Ok e
     \<and> quicvarint_Read e = Ok (3, bd)
     \<and> is_ok (parseAckFrame newAckFrame bd 3 3)"
proof -
  let ?f = "\<lparr>af_AckRanges = [\<lparr>ar_Smallest = 8, ar_Largest = 9\<rparr>, \<lparr>ar_Smallest = 2, ar_Largest = 5\<rparr>],
       af_DelayTime = 17000, af_ECT0 = 1, af_ECT1 = 0, af_ECNCE = 2\<rparr>"
  have "AckFrame_wf ?f" "AckFrame_type ?f = 3"
    by (simp_all add: AckFrame_wf_def validateAckRanges_def fits_u_def maxVarInt8_def AckFrame_type_def hasECN_def)
  then show ?thesis
    using ack_roundtrip [of ?f "[]" "[]"] by (auto simp: is_ok_iff)
qed

text \<open>
  C18 (ack-length). \<^verbatim>\<open>AckFrame.Length\<close> is the number of bytes \<^verbatim>\<open>AckFrame.Append\<close>
  writes, and it exceeds \<open>MaxAckFrameSize\<close> by at most the 8 bytes of the first range
  and the 24 bytes of the ECN counters, which the limit does not account for.
\<close>

theorem ack_length_bound:
  assumes wf: "AckFrame_wf f"
  shows "\<exists>e. AckFrame_Append [] f = Ok e \<and> AckFrame_Length f = Ok (int (length e))
    \<and> int (length e) \<le> MaxAckFrameSize + 8 + (if hasECN f then 24 else 0)"
proof -
  have fits: "fits_i (int (further_ranges f))" "int (further_ranges f) < 16384"
    using further_ranges_less [OF wf] by (simp_all add: fits_i_def)
  have n: "length (varint (to_u64 (int (further_ranges f)))) \<le> 2"
    using length_varint_bounds(1,2) [OF fits(1)] fits(2) by (cases "int (further_ranges f) < 64") auto
  have "length (ecn_bytes f) \<le> (if hasECN f then 24 else 0)"
    using length_varint_le [of "af_ECT0 f"] length_varint_le [of "af_ECT1 f"] length_varint_le [of "af_ECNCE f"]
    by (simp add: ecn_bytes_def)
  then have "1 + length (ack_body f) \<le> 1008 + (if hasECN f then 24 else 0)"
    using n further_ranges(3) [OF wf]
      length_varint_le [of "to_u64 (ar_Largest (first_range f) - ar_Smallest (first_range f))"]
    by (simp add: ack_body_def)
  then show ?thesis
    using AckFrame_Append_bytes [OF wf] AckFrame_Length_bytes [OF wf]
    by (auto simp: MaxAckFrameSize_def split: if_splits)
qed

theorem ack_length_bound_witness:
  "\<exists>e. AckFrame_Append [] \<lparr>af_AckRanges = [\<lparr>ar_Smallest = 8, ar_Largest = 9\<rparr>],
       af_DelayTime = 17000, af_ECT0 = 0, af_ECT1 = 0, af_ECNCE = 0\<rparr> = Ok e \<and> int (length e) \<le> 1008"
proof -
  let ?f = "\<lparr>af_AckRanges = [\<lparr>ar_Smallest = 8, ar_Largest = 9\<rparr>],
       af_DelayTime = 17000, af_ECT0 = 0, af_ECT1 = 0, af_ECNCE = 0\<rparr>"
  have "AckFrame_wf ?f" "\<not> hasECN ?f"
    by (simp_all add: AckFrame_wf_def validateAckRanges_def fits_u_def maxVarInt8_def hasECN_def)
  then show ?thesis
    using ack_length_bound [of ?f] by (auto simp: MaxAckFrameSize_def)
qed

section \<open>What the parser accepts\<close>

lemma parseAckRanges_OkD:
  "parseAckRanges n s r = Ok (rs, r') \<Longrightarrow> s < 2 ^ 62 \<Longrightarrow>
     ranges_below s rs \<and> list_all (\<lambda>r. 0 \<le> ar_Smallest r \<and> ar_Largest r < 2 ^ 62) rs
     \<and> length rs = n \<and> length r' \<le> length r"
proof (induction n arbitrary: s r rs r')
  case (Suc n)
  obtain g r1 ab r2 rs' where steps: "quicvarint_Read r = Ok (g, r1)" "\<not> s < to_i64 g + 2"
      "quicvarint_Read r1 = Ok (ab, r2)" "\<not> to_i64 ab > s - to_i64 g - 2"
      "parseAckRanges n (s - to_i64 g - 2 - to_i64 ab) r2 = Ok (rs', r')"
      "rs = \<lparr>ar_Smallest = s - to_i64 g - 2 - to_i64 ab, ar_Largest = s - to_i64 g - 2\<rparr> # rs'"
    using Suc.prems(1) by (auto simp: bindr_eq_Ok_iff Let_def split: if_splits)
  moreover have "0 \<le> to_i64 g" "0 \<le> to_i64 ab"
    using steps fits_i_Read by (auto simp: fits_i_def)
  ultimately show ?case
    using Suc.IH [OF steps(5)] Suc.prems(2)
      quicvarint_Read_OkD(2) [OF steps(1)] quicvarint_Read_OkD(2) [OF steps(3)] by auto
qed simp

lemma parseAckRanges_no_panic [simp, no_panic]: "\<not> is_panic (parseAckRanges n s r)"
  by (induction n s r rule: parseAckRanges.induct)
    (auto simp: is_panic_bindr Let_def split: prod.split)

lemma parseAckFrame_no_panic: "\<not> is_panic (parseAckFrame frame r typ ackDelayExponent)"
  by (auto simp: parseAckFrame_def is_panic_bindr Let_def split: prod.split)

lemma parseAckFrame_OkD:
  assumes p: "parseAckFrame newAckFrame r typ ackDelayExponent = Ok (f, r')"
  shows "validateAckRanges f" "list_all (\<lambda>r. 0 \<le> ar_Smallest r \<and> ar_Largest r < 2 ^ 62) (af_AckRanges f)"
    and "0 \<le> af_DelayTime f" "af_DelayTime f < 2 ^ 63" and "length r' + 4 \<le> length r"
proof -
  from p obtain la r1 delay r2 num r3 ab r4 rs r5
    where s: "quicvarint_Read r = Ok (la, r1)" "quicvarint_Read r1 = Ok (delay, r2)"
      "quicvarint_Read r2 = Ok (num, r3)" "quicvarint_Read r3 = Ok (ab, r4)" "\<not> to_i64 ab > to_i64 la"
      "parseAckRanges (unat num) (to_i64 la - to_i64 ab) r4 = Ok (rs, r5)"
      and f: "af_AckRanges f = \<lparr>ar_Smallest = to_i64 la - to_i64 ab, ar_Largest = to_i64 la\<rparr> # rs"
      "af_DelayTime f = ackDelayTime delay ackDelayExponent" and r': "length r' \<le> length r5"
    by (fastforce simp: parseAckFrame_def bindr_eq_Ok_iff Let_def newAckFrame_def split: if_splits
        dest: quicvarint_Read_OkD(2))
  have la: "0 \<le> to_i64 ab" "to_i64 la < 2 ^ 62"
    using s(1,4) fits_i_Read by (auto simp: fits_i_def)
  note rs = parseAckRanges_OkD [OF s(6)]
  show "validateAckRanges f" "list_all (\<lambda>r. 0 \<le> ar_Smallest r \<and> ar_Largest r < 2 ^ 62) (af_AckRanges f)"
    using rs s(5) f la by (auto simp: validateAckRanges_below)
  have "- (2 ^ 63) \<le> to_i64 x \<and> to_i64 x < 2 ^ 63" for x
    using sint_range_size [of x] by (simp add: to_i64_def word_size)
  then show "0 \<le> af_DelayTime f" "af_DelayTime f < 2 ^ 63"
    unfolding f ackDelayTime_def Let_def InfDuration_def by (auto simp: not_less)
  show "length r' + 4 \<le> length r"
    using rs r' la s(1-4) by (fastforce dest!: quicvarint_Read_OkD(2))
qed



end
