(* ===== verification/FrameParser.thy ===== *)
theory FrameParser
  imports AckFrame
begin

text \<open>
  The frame parser (\<^verbatim>\<open>internal/wire/frame_parser.go\<close>): the sum of all frames, the
  methods of the \<^verbatim>\<open>Frame\<close> interface by dispatch, the type switch of
  \<^verbatim>\<open>parseFrame\<close>, the encryption-level check and the loop that skips padding. The lemmas
  lift the laws of the single codecs to the parser: what is appended is parsed back, and no
  packet that fits a packet buffer makes the parser panic.
\<close>

section \<open>All frames\<close>

datatype Frame =
    FPing
  | FAck AckFrame
  | FResetStream ResetStreamFrame
  | FStopSending StopSendingFrame
  | FCrypto CryptoFrame
  | FNewToken NewTokenFrame
  | FStream StreamFrame
  | FMaxData MaxDataFrame
  | FMaxStreamData MaxStreamDataFrame
  | FMaxStreams MaxStreamsFrame
  | FDataBlocked DataBlockedFrame
  | FStreamDataBlocked StreamDataBlockedFrame
  | FStreamsBlocked StreamsBlockedFrame
  | FNewConnectionID NewConnectionIDFrame
  | FRetireConnectionID RetireConnectionIDFrame
  | FPathChallenge PathChallengeFrame
  | FPathResponse PathResponseFrame
  | FConnectionClose ConnectionCloseFrame
  | FHandshakeDone
  | FRepair RepairFrame
  | FSourceSymbol SourceSymbolFrame
  | FFECWindow FECWindowFrame
  | FDatagram DatagramFrame

text \<open>The methods \<^verbatim>\<open>Append\<close> and \<^verbatim>\<open>Length\<close> of the interface \<^verbatim>\<open>wire.Frame\<close>.\<close>

primrec Frame_Append :: "byte list \<Rightarrow> Frame \<Rightarrow> byte list outcome" where
  "Frame_Append b FPing = PingFrame_Append b ()"
| "Frame_Append b (FAck f) = AckFrame_Append b f"
| "Frame_Append b (FResetStream f) = ResetStreamFrame_Append b f"
| "Frame_Append b (FStopSending f) = StopSendingFrame_Append b f"
| "Frame_Append b (FCrypto f) = CryptoFrame_Append b f"
| "Frame_Append b (FNewToken f) = NewTokenFrame_Append b f"
| "Frame_Append b (FStream f) = StreamFrame_Append b f"
| "Frame_Append b (FMaxData f) = MaxDataFrame_Append b f"
| "Frame_Append b (FMaxStreamData f) = MaxStreamDataFrame_Append b f"
| "Frame_Append b (FMaxStreams f) = MaxStreamsFrame_Append b f"
| "Frame_Append b (FDataBlocked f) = DataBlockedFrame_Append b f"
| "Frame_Append b (FStreamDataBlocked f) = StreamDataBlockedFrame_Append b f"
| "Frame_Append b (FStreamsBlocked f) = StreamsBlockedFrame_Append b f"
| "Frame_Append b (FNewConnectionID f) = NewConnectionIDFrame_Append b f"
| "Frame_Append b (FRetireConnectionID f) = RetireConnectionIDFrame_Append b f"
| "Frame_Append b (FPathChallenge f) = PathChallengeFrame_Append b f"
| "Frame_Append b (FPathResponse f) = PathResponseFrame_Append b f"
| "Frame_Append b (FConnectionClose f) = ConnectionCloseFrame_Append b f"
| "Frame_Append b FHandshakeDone = HandshakeDoneFrame_Append b ()"
| "Frame_Append b (FRepair f) = RepairFrame_Append b f"
| "Frame_Append b (FSourceSymbol f) = SourceSymbolFrame_Append b f"
| "Frame_Append b (FFECWindow f) = FECWindowFrame_Append b f"
| "Frame_Append b (FDatagram f) = DatagramFrame_Append b f"

primrec Frame_Length :: "Frame \<Rightarrow> int outcome" where
  "Frame_Length FPing = PingFrame_Length ()"
| "Frame_Length (FAck f) = AckFrame_Length f"
| "Frame_Length (FResetStream f) = ResetStreamFrame_Length f"
| "Frame_Length (FStopSending f) = StopSendingFrame_Length f"
| "Frame_Length (FCrypto f) = CryptoFrame_Length f"
| "Frame_Length (FNewToken f) = NewTokenFrame_Length f"
| "Frame_Length (FStream f) = StreamFrame_Length f"
| "Frame_Length (FMaxData f) = MaxDataFrame_Length f"
| "Frame_Length (FMaxStreamData f) = MaxStreamDataFrame_Length f"
| "Frame_Length (FMaxStreams f) = MaxStreamsFrame_Length f"
| "Frame_Length (FDataBlocked f) = DataBlockedFrame_Length f"
| "Frame_Length (FStreamDataBlocked f) = StreamDataBlockedFrame_Length f"
| "Frame_Length (FStreamsBlocked f) = StreamsBlockedFrame_Length f"
| "Frame_Length (FNewConnectionID f) = NewConnectionIDFrame_Length f"
| "Frame_Length (FRetireConnectionID f) = RetireConnectionIDFrame_Length f"
| "Frame_Length (FPathChallenge f) = PathChallengeFrame_Length f"
| "Frame_Length (FPathResponse f) = PathResponseFrame_Length f"
| "Frame_Length (FConnectionClose f) = ConnectionCloseFrame_Length f"
| "Frame_Length FHandshakeDone = HandshakeDoneFrame_Length ()"
| "Frame_Length (FRepair f) = RepairFrame_Length f"
| "Frame_Length (FSourceSymbol f) = SourceSymbolFrame_Length f"
| "Frame_Length (FFECWindow f) = FECWindowFrame_Length f"
| "Frame_Length (FDatagram f) = DatagramFrame_Length f"

section \<open>The parser\<close>

datatype EncryptionLevel = EncryptionInitial | EncryptionHandshake | Encryption0RTT | Encryption1RTT

text \<open>
  The cached \<^verbatim>\<open>bytes.Reader\<close> is the reader argument of the functions below; the cached
  ACK frame is reset before each use.
\<close>

record FrameParser =
  fp_ackDelayExponent :: byte
  fp_supportsDatagrams :: bool
  fp_ackFrame :: AckFrame

definition NewFrameParser :: "bool \<Rightarrow> FrameParser" where
  "NewFrameParser supportsDatagrams =
     \<lparr>fp_ackDelayExponent = 0, fp_supportsDatagrams = supportsDatagrams, fp_ackFrame = newAckFrame\<rparr>"

definition SetAckDelayExponent :: "FrameParser \<Rightarrow> byte \<Rightarrow> FrameParser" where
  "SetAckDelayExponent p e = p\<lparr>fp_ackDelayExponent := e\<rparr>"

definition DefaultAckDelayExponent :: byte where
  "DefaultAckDelayExponent = 3"

definition FrameEncodingError :: u64 where
  "FrameEncodingError = 0x7"

fun isAllowedAtEncLevel :: "Frame \<Rightarrow> EncryptionLevel \<Rightarrow> bool" where
  "isAllowedAtEncLevel f Encryption1RTT = True"
| "isAllowedAtEncLevel f Encryption0RTT = (case f of
     FCrypto _ \<Rightarrow> False | FAck _ \<Rightarrow> False | FConnectionClose _ \<Rightarrow> False | FNewToken _ \<Rightarrow> False
   | FPathResponse _ \<Rightarrow> False | FRetireConnectionID _ \<Rightarrow> False | _ \<Rightarrow> True)"
| "isAllowedAtEncLevel f _ = (case f of
     FCrypto _ \<Rightarrow> True | FAck _ \<Rightarrow> True | FConnectionClose _ \<Rightarrow> True | FPing \<Rightarrow> True | _ \<Rightarrow> False)"

definition map_frame :: "('a \<Rightarrow> Frame) \<Rightarrow> ('a \<times> reader) outcome \<Rightarrow> (Frame \<times> reader) outcome" where
  "map_frame c m = bindr m (\<lambda>(f, r). Ok (c f, r))"

text \<open>The type switch of \<^verbatim>\<open>parseFrame\<close>, before the encryption-level check.\<close>

definition parseByType :: "FrameParser \<Rightarrow> reader \<Rightarrow> u64 \<Rightarrow> EncryptionLevel \<Rightarrow> (Frame \<times> reader) outcome" where
  "parseByType p r typ encLevel =
     (if typ AND 0xf8 = 0x8 then map_frame FStream (parseStreamFrame typ r)
      else if typ = 0x1 then Ok (FPing, r)
      else if typ = 0x2 \<or> typ = 0x3 then
        map_frame FAck (parseAckFrame (AckFrame_Reset (fp_ackFrame p)) r typ
          (if encLevel \<noteq> Encryption1RTT then DefaultAckDelayExponent else fp_ackDelayExponent p))
      else if typ = 0x4 then map_frame FResetStream (parseResetStreamFrame r)
      else if typ = 0x5 then map_frame FStopSending (parseStopSendingFrame r)
      else if typ = 0x6 then map_frame FCrypto (parseCryptoFrame r)
      else if typ = 0x7 then map_frame FNewToken (parseNewTokenFrame r)
      else if typ = 0x10 then map_frame FMaxData (parseMaxDataFrame r)
      else if typ = 0x11 then map_frame FMaxStreamData (parseMaxStreamDataFrame r)
      else if typ = 0x12 \<or> typ = 0x13 then map_frame FMaxStreams (parseMaxStreamsFrame typ r)
      else if typ = 0x14 then map_frame FDataBlocked (parseDataBlockedFrame r)
      else if typ = 0x15 then map_frame FStreamDataBlocked (parseStreamDataBlockedFrame r)
      else if typ = 0x16 \<or> typ = 0x17 then map_frame FStreamsBlocked (parseStreamsBlockedFrame typ r)
      else if typ = 0x18 then map_frame FNewConnectionID (parseNewConnectionIDFrame r)
      else if typ = 0x19 then map_frame FRetireConnectionID (parseRetireConnectionIDFrame r)
      else if typ = 0x1a then map_frame FPathChallenge (parsePathChallengeFrame r)
      else if typ = 0x1b then map_frame FPathResponse (parsePathResponseFrame r)
      else if typ = 0x1c \<or> typ = 0x1d then map_frame FConnectionClose (parseConnectionCloseFrame typ r)
      else if typ = 0x1e then Ok (FHandshakeDone, r)
      else if typ = repairFrameType then map_frame FRepair (parseRepairFrame r)
      else if typ = sourceSymbolFrameType then map_frame FSourceSymbol (ParseSourceSymbolFrame r)
      else if typ = FECWindowFrameType then map_frame FFECWindow (parseFECWindowFrame r)
      else if (typ = 0x30 \<or> typ = 0x31) \<and> fp_supportsDatagrams p
        then map_frame FDatagram (parseDatagramFrame typ r)
      else Err (ErrorString ''unknown frame type''))"

definition parseFrame :: "FrameParser \<Rightarrow> reader \<Rightarrow> u64 \<Rightarrow> EncryptionLevel \<Rightarrow> (Frame \<times> reader) outcome" where
  "parseFrame p r typ encLevel =
     bindr (parseByType p r typ encLevel) (\<lambda>(frame, r).
     if \<not> isAllowedAtEncLevel frame encLevel
     then Err (ErrorString ''not allowed at encryption level'')
     else Ok (frame, r))"

function parseNext :: "FrameParser \<Rightarrow> reader \<Rightarrow> EncryptionLevel \<Rightarrow> (Frame option \<times> reader) outcome" where
  "parseNext p r encLevel =
     (if r = [] then Ok (None, r)
      else case quicvarint_Read r of
        Panic m \<Rightarrow> Panic m
      | Err err \<Rightarrow> Err (TransportError 0 FrameEncodingError (Error err))
      | Ok (typ, r) \<Rightarrow>
          if typ = 0x0 then parseNext p r encLevel
          else case parseFrame p r typ encLevel of
            Panic m \<Rightarrow> Panic m
          | Err err \<Rightarrow> Err (TransportError typ FrameEncodingError (Error err))
          | Ok (f, r) \<Rightarrow> Ok (Some f, r))"
  by pat_completeness auto
termination
  by (relation "measure (\<lambda>(p, r, e). length r)") (auto dest: quicvarint_Read_OkD(2))

declare parseNext.simps [simp del]

definition ParseNext :: "FrameParser \<Rightarrow> byte list \<Rightarrow> EncryptionLevel \<Rightarrow> (int \<times> Frame option) outcome" where
  "ParseNext p dat encLevel =
     bindr (parseNext p dat encLevel) (\<lambda>(frame, r).
     Ok (int (length dat) - int (length r), frame))"

section \<open>What can be written\<close>

text \<open>
  The frames the codecs can write, their types on the wire, what a receiver gets, and the
  frames that extend to the end of the packet.
\<close>

fun Frame_wf :: "Frame \<Rightarrow> bool" where
  "Frame_wf FPing = True"
| "Frame_wf FHandshakeDone = True"
| "Frame_wf (FAck f) = AckFrame_wf f"
| "Frame_wf (FResetStream f) = ResetStreamFrame_wf f"
| "Frame_wf (FStopSending f) = StopSendingFrame_wf f"
| "Frame_wf (FCrypto f) = CryptoFrame_wf f"
| "Frame_wf (FNewToken f) = NewTokenFrame_wf f"
| "Frame_wf (FStream f) = StreamFrame_wf f"
| "Frame_wf (FMaxData f) = MaxDataFrame_wf f"
| "Frame_wf (FMaxStreamData f) = MaxStreamDataFrame_wf f"
| "Frame_wf (FMaxStreams f) = MaxStreamsFrame_wf f"
| "Frame_wf (FDataBlocked f) = DataBlockedFrame_wf f"
| "Frame_wf (FStreamDataBlocked f) = StreamDataBlockedFrame_wf f"
| "Frame_wf (FStreamsBlocked f) = StreamsBlockedFrame_wf f"
| "Frame_wf (FNewConnectionID f) = NewConnectionIDFrame_wf f"
| "Frame_wf (FRetireConnectionID f) = RetireConnectionIDFrame_wf f"
| "Frame_wf (FPathChallenge f) = (length (pcf_Data f) = 8)"
| "Frame_wf (FPathResponse f) = (length (prf_Data f) = 8)"
| "Frame_wf (FConnectionClose f) = ConnectionCloseFrame_wf f"
| "Frame_wf (FRepair f) = RepairFrame_wf f"
| "Frame_wf (FSourceSymbol f) = SourceSymbolFrame_wf f"
| "Frame_wf (FFECWindow f) = True"
| "Frame_wf (FDatagram f) = DatagramFrame_wf f"

fun Frame_type :: "Frame \<Rightarrow> u64" where
  "Frame_type FPing = 0x1"
| "Frame_type FHandshakeDone = 0x1e"
| "Frame_type (FAck f) = AckFrame_type f"
| "Frame_type (FResetStream f) = 0x4"
| "Frame_type (FStopSending f) = 0x5"
| "Frame_type (FCrypto f) = 0x6"
| "Frame_type (FNewToken f) = 0x7"
| "Frame_type (FStream f) = StreamFrame_type f"
| "Frame_type (FMaxData f) = 0x10"
| "Frame_type (FMaxStreamData f) = 0x11"
| "Frame_type (FMaxStreams f) = (case msf_Type f of StreamTypeBidi \<Rightarrow> 0x12 | StreamTypeUni \<Rightarrow> 0x13)"
| "Frame_type (FDataBlocked f) = 0x14"
| "Frame_type (FStreamDataBlocked f) = 0x15"
| "Frame_type (FStreamsBlocked f) = (case sbf_Type f of StreamTypeBidi \<Rightarrow> 0x16 | StreamTypeUni \<Rightarrow> 0x17)"
| "Frame_type (FNewConnectionID f) = 0x18"
| "Frame_type (FRetireConnectionID f) = 0x19"
| "Frame_type (FPathChallenge f) = 0x1a"
| "Frame_type (FPathResponse f) = 0x1b"
| "Frame_type (FConnectionClose f) = (if ccf_IsApplicationError f then 0x1d else 0x1c)"
| "Frame_type (FRepair f) = repairFrameType"
| "Frame_type (FSourceSymbol f) = sourceSymbolFrameType"
| "Frame_type (FFECWindow f) = FECWindowFrameType"
| "Frame_type (FDatagram f) = DatagramFrame_type f"

fun Frame_norm :: "Frame \<Rightarrow> Frame" where
  "Frame_norm (FAck f) = FAck (AckFrame_norm f)"
| "Frame_norm (FStream f) = FStream (StreamFrame_norm f)"
| "Frame_norm (FDatagram f) = FDatagram (f\<lparr>df_FECProtected := False\<rparr>)"
| "Frame_norm f = f"

fun Frame_open :: "Frame \<Rightarrow> bool" where
  "Frame_open (FStream f) = (\<not> sf_DataLenPresent f)"
| "Frame_open (FDatagram f) = (\<not> df_DataLenPresent f)"
| "Frame_open f = False"

text \<open>
  The parser understands a frame: datagrams have been negotiated, and ACK frames are
  written with the exponent that the parser uses.
\<close>

fun parser_accepts :: "FrameParser \<Rightarrow> EncryptionLevel \<Rightarrow> Frame \<Rightarrow> bool" where
  "parser_accepts p e (FDatagram f) = fp_supportsDatagrams p"
| "parser_accepts p e (FAck f) = (e \<noteq> Encryption1RTT \<or> fp_ackDelayExponent p = 3)"
| "parser_accepts p e f = True"

lemmas append_oks =
  ping.append_ok ack.append_ok reset_stream.append_ok stop_sending.append_ok
  crypto.append_ok new_token.append_ok stream.append_ok max_data.append_ok
  max_stream_data.append_ok max_streams.append_ok data_blocked.append_ok
  stream_data_blocked.append_ok streams_blocked.append_ok new_connection_id.append_ok
  retire_connection_id.append_ok path_challenge.append_ok path_response.append_ok
  connection_close.append_ok handshake_done.append_ok repair.append_ok
  source_symbol.append_ok fec_window.append_ok datagram.append_ok

lemmas append_prefixes =
  ping.append_prefix ack.append_prefix reset_stream.append_prefix
  stop_sending.append_prefix crypto.append_prefix new_token.append_prefix
  stream.append_prefix max_data.append_prefix max_stream_data.append_prefix
  max_streams.append_prefix data_blocked.append_prefix stream_data_blocked.append_prefix
  streams_blocked.append_prefix new_connection_id.append_prefix
  retire_connection_id.append_prefix path_challenge.append_prefix
  path_response.append_prefix connection_close.append_prefix handshake_done.append_prefix
  repair.append_prefix source_symbol.append_prefix fec_window.append_prefix
  datagram.append_prefix

lemmas length_laws =
  ping.length_law ack.length_law reset_stream.length_law stop_sending.length_law
  crypto.length_law new_token.length_law stream.length_law max_data.length_law
  max_stream_data.length_law max_streams.length_law data_blocked.length_law
  stream_data_blocked.length_law streams_blocked.length_law new_connection_id.length_law
  retire_connection_id.length_law path_challenge.length_law path_response.length_law
  connection_close.length_law handshake_done.length_law repair.length_law
  source_symbol.length_law fec_window.length_law datagram.length_law

lemma StreamFrame_type_mask: "StreamFrame_type f AND 0xf8 = 0x8"
  by (simp add: StreamFrame_type_def)

lemmas frame_types = repairFrameType_def sourceSymbolFrameType_def FECWindowFrameType_def
  DatagramFrame_type_def AckFrame_type_def

lemma AckFrame_Reset_new: "AckFrame_Reset f = newAckFrame"
  by (simp add: AckFrame_Reset_def newAckFrame_def)

text \<open>The type switch on the types the codecs write.\<close>

lemma parseByType_dispatch:
  shows "parseByType p r 0x4 e = map_frame FResetStream (parseResetStreamFrame r)"
  and "parseByType p r 0x5 e = map_frame FStopSending (parseStopSendingFrame r)"
  and "parseByType p r 0x6 e = map_frame FCrypto (parseCryptoFrame r)"
  and "parseByType p r 0x7 e = map_frame FNewToken (parseNewTokenFrame r)"
  and "parseByType p r (StreamFrame_type f) e = map_frame FStream (parseStreamFrame (StreamFrame_type f) r)"
  and "parseByType p r 0x10 e = map_frame FMaxData (parseMaxDataFrame r)"
  and "parseByType p r 0x11 e = map_frame FMaxStreamData (parseMaxStreamDataFrame r)"
  and "parseByType p r (case t of StreamTypeBidi \<Rightarrow> 0x12 | StreamTypeUni \<Rightarrow> 0x13) e = map_frame FMaxStreams (parseMaxStreamsFrame (case t of StreamTypeBidi \<Rightarrow> 0x12 | StreamTypeUni \<Rightarrow> 0x13) r)"
  and "parseByType p r 0x14 e = map_frame FDataBlocked (parseDataBlockedFrame r)"
  and "parseByType p r 0x15 e = map_frame FStreamDataBlocked (parseStreamDataBlockedFrame r)"
  and "parseByType p r (case t of StreamTypeBidi \<Rightarrow> 0x16 | StreamTypeUni \<Rightarrow> 0x17) e = map_frame FStreamsBlocked (parseStreamsBlockedFrame (case t of StreamTypeBidi \<Rightarrow> 0x16 | StreamTypeUni \<Rightarrow> 0x17) r)"
  and "parseByType p r 0x18 e = map_frame FNewConnectionID (parseNewConnectionIDFrame r)"
  and "parseByType p r 0x19 e = map_frame FRetireConnectionID (parseRetireConnectionIDFrame r)"
  and "parseByType p r 0x1a e = map_frame FPathChallenge (parsePathChallengeFrame r)"
  and "parseByType p r 0x1b e = map_frame FPathResponse (parsePathResponseFrame r)"
  and "parseByType p r (if c then 0x1d else 0x1c) e = map_frame FConnectionClose (parseConnectionCloseFrame (if c then 0x1d else 0x1c) r)"
  and "parseByType p r repairFrameType e = map_frame FRepair (parseRepairFrame r)"
  and "parseByType p r sourceSymbolFrameType e = map_frame FSourceSymbol (ParseSourceSymbolFrame r)"
  and "parseByType p r FECWindowFrameType e = map_frame FFECWindow (parseFECWindowFrame r)"
  and "parseByType p r 0x1 e = map_frame (\<lambda>_. FPing) (Ok ((), r))"
  and "parseByType p r 0x1e e = map_frame (\<lambda>_. FHandshakeDone) (Ok ((), r))"
  by (simp_all add: parseByType_def map_frame_def StreamFrame_type_mask frame_types split: StreamType.split)

lemma parseByType_dispatch_if:
  "parser_accepts p e (FDatagram f) \<Longrightarrow>
     parseByType p r (DatagramFrame_type f) e = map_frame FDatagram (parseDatagramFrame (DatagramFrame_type f) r)"
  "parser_accepts p e (FAck g) \<Longrightarrow>
     parseByType p r (AckFrame_type g) e = map_frame FAck (parseAckFrame newAckFrame r (AckFrame_type g) 3)"
  by (auto simp: parseByType_def frame_types AckFrame_Reset_new DefaultAckDelayExponent_def)

lemma lift_parse:
  assumes "\<exists>bd. quicvarint_Read x = Ok (t, bd) \<and> P bd = Ok (n, r)"
    and "\<And>bd. parseByType p bd t e = map_frame c (P bd)"
  shows "\<exists>bd. quicvarint_Read x = Ok (t, bd) \<and> parseByType p bd t e = Ok (c n, r)"
  using assms by (auto simp: map_frame_def)

lemmas lifted_parse_laws =
  lift_parse [OF reset_stream.parse_law parseByType_dispatch(1)]
  lift_parse [OF stop_sending.parse_law parseByType_dispatch(2)]
  lift_parse [OF crypto.parse_law parseByType_dispatch(3)]
  lift_parse [OF new_token.parse_law parseByType_dispatch(4)]
  lift_parse [OF stream.parse_law parseByType_dispatch(5)]
  lift_parse [OF max_data.parse_law parseByType_dispatch(6)]
  lift_parse [OF max_stream_data.parse_law parseByType_dispatch(7)]
  lift_parse [OF max_streams.parse_law parseByType_dispatch(8)]
  lift_parse [OF data_blocked.parse_law parseByType_dispatch(9)]
  lift_parse [OF stream_data_blocked.parse_law parseByType_dispatch(10)]
  lift_parse [OF streams_blocked.parse_law parseByType_dispatch(11)]
  lift_parse [OF new_connection_id.parse_law parseByType_dispatch(12)]
  lift_parse [OF retire_connection_id.parse_law parseByType_dispatch(13)]
  lift_parse [OF path_challenge.parse_law parseByType_dispatch(14)]
  lift_parse [OF path_response.parse_law parseByType_dispatch(15)]
  lift_parse [OF connection_close.parse_law parseByType_dispatch(16)]
  lift_parse [OF repair.parse_law parseByType_dispatch(17)]
  lift_parse [OF source_symbol.parse_law parseByType_dispatch(18)]
  lift_parse [OF fec_window.parse_law parseByType_dispatch(19)]
  lift_parse [OF ping.parse_law parseByType_dispatch(20)]
  lift_parse [OF handshake_done.parse_law parseByType_dispatch(21)]
  lift_parse [OF datagram.parse_law parseByType_dispatch_if(1)]
  lift_parse [OF ack.parse_law parseByType_dispatch_if(2)]

interpretation frames: frame_codec Frame_Append Frame_Length Frame_type
  "\<lambda>typ r. parseByType p r typ encLevel" Frame_norm
  "\<lambda>f. Frame_wf f \<and> parser_accepts p encLevel f" Frame_open
  for p :: FrameParser and encLevel :: EncryptionLevel
proof (unfold_locales, goal_cases)
  case (1 f)
  then show ?case
    by (cases f) (simp_all add: append_oks)
next
  case (2 f b)
  then show ?case
    by (cases f) (auto intro: append_prefixes)
next
  case (3 f e)
  then show ?case
    by (cases f) (simp_all add: length_laws)
next
  case (4 f e r)
  then show ?case
    by (cases f) (auto intro!: lifted_parse_laws split del: if_split)
qed

section \<open>What is written is parsed\<close>

lemma Frame_norm_allowed: "isAllowedAtEncLevel (Frame_norm f) e = isAllowedAtEncLevel f e"
  by (cases f; cases e) simp_all

lemma Frame_type_nonzero: "Frame_type f \<noteq> 0"
  by (cases f) (auto simp: frame_types StreamFrame_type_def split: StreamType.split)

lemma parseNext_padding: "parseNext p (replicate k 0 @ r) encLevel = parseNext p r encLevel"
proof (induction k)
  case (Suc k)
  then show ?case
    by (subst parseNext.simps) simp
qed simp

lemma parseNext_enc:
  assumes "Frame_wf f" "parser_accepts p encLevel f" "isAllowedAtEncLevel f encLevel"
    and "Frame_open f \<longrightarrow> r = []" and "Frame_Append [] f = Ok e"
  shows "parseNext p (e @ r) encLevel = Ok (Some (Frame_norm f), r)"
proof -
  obtain bd where bd: "quicvarint_Read (e @ r) = Ok (Frame_type f, bd)"
      "parseByType p bd (Frame_type f) encLevel = Ok (Frame_norm f, r)"
    using frames.parse_law [of f p encLevel e r] assms by auto
  moreover have "e @ r \<noteq> []"
    using bd(1) quicvarint_Read_short(1) by auto
  ultimately show ?thesis
    using assms(3) by (subst parseNext.simps) (simp add: Frame_type_nonzero parseFrame_def Frame_norm_allowed)
qed

text \<open>
  C1 (parser-roundtrip). Every well-formed frame, of any of the 23 kinds, that is written
  by its \<^verbatim>\<open>Append\<close> and stands behind any number of PADDING bytes is returned by
  \<^verbatim>\<open>FrameParser.ParseNext\<close> as the frame it was (up to the fields not on the wire), with
  exactly the padding and the bytes of the frame consumed, when it is allowed at the
  encryption level and negotiated. A frame without its own length has to be the last one.
\<close>

theorem ParseNext_roundtrip:
  assumes "Frame_wf f" "parser_accepts p encLevel f" "isAllowedAtEncLevel f encLevel"
    and "Frame_open f \<longrightarrow> r = []"
  shows "\<exists>e. Frame_Append [] f = Ok e \<and> Frame_Length f = Ok (int (length e))
    \<and> ParseNext p (replicate k 0 @ e @ r) encLevel = Ok (int k + int (length e), Some (Frame_norm f))"
proof -
  have wf: "Frame_wf f \<and> parser_accepts p encLevel f"
    using assms by simp
  obtain e where e: "Frame_Append [] f = Ok e"
    using frames.append_ok [OF wf] by blast
  show ?thesis
    using e frames.length_law [OF wf e] parseNext_enc [OF assms e]
    by (simp add: ParseNext_def parseNext_padding)
qed

theorem ParseNext_roundtrip_witness:
  "\<exists>e. Frame_Append [] (FRepair \<lparr>rf_Metadata = \<lparr>bm_BlockID = 7, bm_ParityID = 0\<rparr>, rf_Payload = [1, 2, 3]\<rparr>) = Ok e
     \<and> ParseNext (NewFrameParser False) (replicate 2 0 @ e @ [1]) Encryption1RTT = Ok (2 + int (length e),
         Some (FRepair \<lparr>rf_Metadata = \<lparr>bm_BlockID = 7, bm_ParityID = 0\<rparr>, rf_Payload = [1, 2, 3]\<rparr>))"
  using ParseNext_roundtrip [of "FRepair \<lparr>rf_Metadata = \<lparr>bm_BlockID = 7, bm_ParityID = 0\<rparr>, rf_Payload = [1, 2, 3]\<rparr>"
      "NewFrameParser False" Encryption1RTT "[1]" 2]
  by (auto simp: RepairFrame_wf_def fits_u_def maxVarInt8_def fits_i_def)

section \<open>No panic, and progress\<close>

text \<open>A reading step that neither panics nor gives back bytes.\<close>

definition sound_parse :: "reader \<Rightarrow> ('a \<times> reader) outcome \<Rightarrow> bool" where
  "sound_parse r m \<longleftrightarrow> \<not> is_panic m \<and> (\<forall>x r'. m = Ok (x, r') \<longrightarrow> length r' \<le> length r)"

lemma sound_bind [intro]:
  assumes "sound_parse r m" "\<And>x r'. length r' \<le> length r \<Longrightarrow> m = Ok (x, r') \<Longrightarrow> sound_parse r' (f x r')"
  shows "sound_parse r (bindr m (\<lambda>(x, r). f x r))"
  using assms by (cases m) (fastforce simp: sound_parse_def)+

lemma sound_bind_pure:
  "\<not> is_panic m \<Longrightarrow> (\<And>x. m = Ok x \<Longrightarrow> sound_parse r (f x)) \<Longrightarrow> sound_parse r (bindr m f)"
  by (cases m) (auto simp: sound_parse_def)

lemma sound_if [intro]:
  "(b \<Longrightarrow> sound_parse r m) \<Longrightarrow> (\<not> b \<Longrightarrow> sound_parse r m') \<Longrightarrow> sound_parse r (if b then m else m')"
  by simp

lemma sound_return [intro]: "length r' \<le> length r \<Longrightarrow> sound_parse r (Ok (x, r'))"
  by (simp add: sound_parse_def)

lemma sound_error [intro]: "sound_parse r (Err e)"
  by (simp add: sound_parse_def)

lemma sound_Read [intro]: "sound_parse r (quicvarint_Read r)"
  by (auto simp: sound_parse_def dest: quicvarint_Read_OkD(2))

lemma sound_ReadFull [intro]: "sound_parse r (ReadFull r n)"
  by (auto simp: sound_parse_def ReadFull_Ok_iff)

lemma sound_ReadFullEOF [intro]: "sound_parse r (ReadFullEOF r n)"
  by (auto simp: sound_parse_def ReadFullEOF_def ReadFull_def)

lemma sound_ReadByte [intro]: "sound_parse r (ReadByte r)"
  by (auto simp: sound_parse_def ReadByte_Ok_iff)

lemma sound_ReadConnectionID [intro]: "sound_parse r (ReadConnectionID r n)"
  by (auto simp: sound_parse_def ReadConnectionID_def ReadFull_def)

lemmas sound_rules = sound_bind sound_if sound_return sound_error sound_Read sound_ReadFull
  sound_ReadFullEOF sound_ReadByte sound_ReadConnectionID

lemma sound_frames:
  shows "sound_parse r (parseResetStreamFrame r)"
  and "sound_parse r (parseStopSendingFrame r)"
  and "sound_parse r (parseCryptoFrame r)"
  and "sound_parse r (parseNewTokenFrame r)"
  and "sound_parse r (parseMaxDataFrame r)"
  and "sound_parse r (parseMaxStreamDataFrame r)"
  and "sound_parse r (parseDataBlockedFrame r)"
  and "sound_parse r (parseStreamDataBlockedFrame r)"
  and "sound_parse r (parseNewConnectionIDFrame r)"
  and "sound_parse r (parseRetireConnectionIDFrame r)"
  and "sound_parse r (parsePathChallengeFrame r)"
  and "sound_parse r (parsePathResponseFrame r)"
  and "sound_parse r (parseRepairFrame r)"
  and "sound_parse r (parseFECWindowFrame r)"
  and "sound_parse r (parseMaxStreamsFrame typ r)"
  and "sound_parse r (parseStreamsBlockedFrame typ r)"
  and "sound_parse r (parseConnectionCloseFrame typ r)"
  and "sound_parse r (parseDatagramFrame typ r)"
  by (auto simp: Let_def parseResetStreamFrame_def parseStopSendingFrame_def parseCryptoFrame_def parseNewTokenFrame_def parseMaxDataFrame_def parseMaxStreamDataFrame_def parseDataBlockedFrame_def parseStreamDataBlockedFrame_def parseNewConnectionIDFrame_def parseRetireConnectionIDFrame_def parsePathChallengeFrame_def parsePathResponseFrame_def parseRepairFrame_def parseFECWindowFrame_def parseMaxStreamsFrame_def parseStreamsBlockedFrame_def parseConnectionCloseFrame_def parseDatagramFrame_def
      intro!: sound_rules)

lemma sound_parseStreamFrame: "sound_parse r (parseStreamFrame typ r)"
  unfolding parseStreamFrame_def Let_def by (rule sound_rules sound_bind_pure | simp)+

lemma sound_ParseSourceSymbolFrame:
  "length r \<le> MaxPacketBufferSize \<Longrightarrow> sound_parse r (ParseSourceSymbolFrame r)"
  by (auto simp: ParseSourceSymbolFrame_def intro!: sound_rules)

lemma sound_parseAckFrame: "sound_parse r (parseAckFrame newAckFrame r typ e)"
  using parseAckFrame_OkD(5) [of r "typ" e] parseAckFrame_no_panic [of newAckFrame r "typ" e]
  by (fastforce simp: sound_parse_def)

lemma sound_map_frame: "sound_parse r m \<Longrightarrow> sound_parse r (map_frame c m)"
  by (auto simp: map_frame_def intro!: sound_rules)

lemma sound_parseByType:
  "length r \<le> MaxPacketBufferSize \<Longrightarrow> sound_parse r (parseByType p r typ encLevel)"
  unfolding parseByType_def AckFrame_Reset_new
  by (intro sound_if sound_map_frame sound_frames sound_parseStreamFrame sound_parseAckFrame
      sound_ParseSourceSymbolFrame sound_return sound_error order.refl)

lemma parseFrame_cases:
  assumes "length r \<le> MaxPacketBufferSize"
  shows "\<not> is_panic (parseFrame p r typ encLevel)"
    and "parseFrame p r typ encLevel = Ok (f, r') \<Longrightarrow> length r' \<le> length r \<and> isAllowedAtEncLevel f encLevel"
  using sound_parseByType [OF assms, of p "typ" encLevel]
  by (auto simp: parseFrame_def sound_parse_def is_panic_bindr bindr_eq_Ok_iff split: if_splits prod.splits)

lemma parseNext_safe:
  "length r \<le> MaxPacketBufferSize \<Longrightarrow> \<not> is_panic (parseNext p r encLevel)
     \<and> (\<forall>r'. parseNext p r encLevel = Ok (None, r') \<longrightarrow> r' = [])
     \<and> (\<forall>f r'. parseNext p r encLevel = Ok (Some f, r') \<longrightarrow> length r' < length r \<and> isAllowedAtEncLevel f encLevel)
     \<and> (\<forall>e. parseNext p r encLevel = Err e \<longrightarrow> (\<exists>t m. e = TransportError t FrameEncodingError m))"
proof (induction p r encLevel rule: parseNext.induct)
  case (1 p r encLevel)
  consider (nil) "r = []" | (eof) e where "r \<noteq> []" "quicvarint_Read r = Err e"
    | (pad) r1 where "r \<noteq> []" "quicvarint_Read r = Ok (0, r1)"
    | (frame) t r1 where "r \<noteq> []" "quicvarint_Read r = Ok (t, r1)" "t \<noteq> 0"
    using quicvarint_Read_no_panic [of r] by (cases "quicvarint_Read r"; cases "r = []") auto
  then show ?case
  proof cases
    case nil
    then show ?thesis by (simp add: parseNext.simps)
  next
    case eof
    then show ?thesis by (simp add: parseNext.simps [of p r])
  next
    case pad
    then show ?thesis
      using "1.IH" [OF pad(1,2) refl refl] "1.prems" quicvarint_Read_OkD(2) [OF pad(2)]
      by (fastforce simp: parseNext.simps [of p r])
  next
    case frame
    have len: "length r1 \<le> MaxPacketBufferSize" "length r1 < length r"
      using quicvarint_Read_OkD(2) [OF frame(2)] "1.prems" by auto
    show ?thesis
      using frame len parseFrame_cases [OF len(1), of p t encLevel]
      by (fastforce simp: parseNext.simps [of p r] split: outcome.splits)
  qed
qed

text \<open>
  C2 (parser-safe). On any data that fits into a packet buffer \<^verbatim>\<open>ParseNext\<close> does not
  panic. When it returns a frame, the frame is allowed at the encryption level and between
  1 and all bytes were consumed; when it returns no frame, all bytes were padding and are
  consumed; every error is a FRAME\_ENCODING\_ERROR. So the loop that calls it until the
  data is used up terminates.
\<close>

theorem ParseNext_safe:
  assumes "length dat \<le> MaxPacketBufferSize"
  shows "\<not> is_panic (ParseNext p dat encLevel)
    \<and> (\<forall>n f. ParseNext p dat encLevel = Ok (n, Some f) \<longrightarrow>
         0 < n \<and> n \<le> int (length dat) \<and> isAllowedAtEncLevel f encLevel)
    \<and> (\<forall>n. ParseNext p dat encLevel = Ok (n, None) \<longrightarrow> n = int (length dat))
    \<and> (\<forall>e. ParseNext p dat encLevel = Err e \<longrightarrow> (\<exists>t m. e = TransportError t FrameEncodingError m))"
  using parseNext_safe [OF assms, of p encLevel]
  by (fastforce simp: ParseNext_def is_panic_bindr bindr_eq_Ok_iff bindr_eq_Err_iff split: prod.splits)

theorem ParseNext_safe_witness:
  "ParseNext (NewFrameParser False) [0, 0, 6, 9, 1, 7] EncryptionInitial =
     Ok (6, Some (FCrypto \<lparr>cf_Offset = 9, cf_Data = [7]\<rparr>))
   \<and> isAllowedAtEncLevel (FCrypto \<lparr>cf_Offset = 9, cf_Data = [7]\<rparr>) EncryptionInitial"
proof -
  have "ParseNext (NewFrameParser False) [0, 0, 6, 9, 1, 7] EncryptionInitial =
     Ok (6, Some (FCrypto \<lparr>cf_Offset = 9, cf_Data = [7]\<rparr>))"
    by code_simp
  then show ?thesis
    using ParseNext_safe [of "[0, 0, 6, 9, 1, 7]" "NewFrameParser False" EncryptionInitial]
    by (simp add: MaxPacketBufferSize_def)
qed

end
