(* ===== verification/ReceivedPackets.thy ===== *)
theory ReceivedPackets
  imports FrameParser
begin

text \<open>
  The packets received (\<^verbatim>\<open>internal/ackhandler\<close>: \<^verbatim>\<open>received_packet_history.go\<close>,
  \<^verbatim>\<open>received_packet_tracker.go\<close>, \<^verbatim>\<open>received_packet_handler.go\<close>). The linked list of ranges
  is a list from its front, with the smallest numbers, to its back. Times are integers and
  the zero time is \<^const>\<open>None\<close>; \<^verbatim>\<open>time.Now\<close> is an argument. What the handler asks of the
  sent packets, the lowest number whose acknowledgement is not confirmed, is an argument too.
\<close>

section \<open>The history\<close>

record interval =
  iv_Start :: PacketNumber
  iv_End :: PacketNumber

record receivedPacketHistory =
  rph_ranges :: "interval list"
  rph_deletedBelow :: PacketNumber

definition MaxNumAckRanges :: nat where
  "MaxNumAckRanges = 32"

definition newReceivedPacketHistory :: receivedPacketHistory where
  "newReceivedPacketHistory = \<lparr>rph_ranges = [], rph_deletedBelow = 0\<rparr>"

text \<open>The loop over the ranges from the back; the list starts with the back here.\<close>

fun addToRanges_loop :: "PacketNumber \<Rightarrow> interval list \<Rightarrow> interval list \<times> bool" where
  "addToRanges_loop p [] = ([\<lparr>iv_Start = p, iv_End = p\<rparr>], True)"
| "addToRanges_loop p (el # prevs) =
     (if p \<ge> iv_Start el \<and> p \<le> iv_End el then (el # prevs, False)
      else if iv_End el = p - 1 then (el\<lparr>iv_End := p\<rparr> # prevs, True)
      else if iv_Start el = p + 1 then
        (case prevs of
           prev # rest \<Rightarrow>
             if iv_End prev + 1 = p then (prev\<lparr>iv_End := iv_End el\<rparr> # rest, True)
             else (el\<lparr>iv_Start := p\<rparr> # prevs, True)
         | [] \<Rightarrow> ([el\<lparr>iv_Start := p\<rparr>], True))
      else if p > iv_End el then (\<lparr>iv_Start = p, iv_End = p\<rparr> # el # prevs, True)
      else let (rs, isNew) = addToRanges_loop p prevs in (el # rs, isNew))"

definition addToRanges :: "receivedPacketHistory \<Rightarrow> PacketNumber \<Rightarrow> receivedPacketHistory \<times> bool" where
  "addToRanges h p =
     (let (rs, isNew) = addToRanges_loop p (rev (rph_ranges h)) in (h\<lparr>rph_ranges := rev rs\<rparr>, isNew))"

definition maybeDeleteOldRanges :: "receivedPacketHistory \<Rightarrow> receivedPacketHistory" where
  "maybeDeleteOldRanges h =
     h\<lparr>rph_ranges := drop (length (rph_ranges h) - MaxNumAckRanges) (rph_ranges h)\<rparr>"

definition history_ReceivedPacket :: "receivedPacketHistory \<Rightarrow> PacketNumber \<Rightarrow> receivedPacketHistory \<times> bool" where
  "history_ReceivedPacket h p =
     (if p < rph_deletedBelow h then (h, False)
      else let (h, isNew) = addToRanges h p in (maybeDeleteOldRanges h, isNew))"

fun DeleteBelow_loop :: "PacketNumber \<Rightarrow> interval list \<Rightarrow> interval list" where
  "DeleteBelow_loop p [] = []"
| "DeleteBelow_loop p (el # els) =
     (if iv_End el < p then DeleteBelow_loop p els
      else if p > iv_Start el \<and> p \<le> iv_End el then el\<lparr>iv_Start := p\<rparr> # els
      else el # els)"

definition DeleteBelow :: "receivedPacketHistory \<Rightarrow> PacketNumber \<Rightarrow> receivedPacketHistory" where
  "DeleteBelow h p =
     (if p < rph_deletedBelow h then h
      else h\<lparr>rph_deletedBelow := p, rph_ranges := DeleteBelow_loop p (rph_ranges h)\<rparr>)"

definition AppendAckRanges :: "receivedPacketHistory \<Rightarrow> AckRange list \<Rightarrow> AckRange list" where
  "AppendAckRanges h ackRanges =
     ackRanges @ map (\<lambda>el. \<lparr>ar_Smallest = iv_Start el, ar_Largest = iv_End el\<rparr>) (rev (rph_ranges h))"

definition GetHighestAckRange :: "receivedPacketHistory \<Rightarrow> AckRange" where
  "GetHighestAckRange h =
     (if length (rph_ranges h) > 0
      then \<lparr>ar_Smallest = iv_Start (last (rph_ranges h)), ar_Largest = iv_End (last (rph_ranges h))\<rparr>
      else \<lparr>ar_Smallest = 0, ar_Largest = 0\<rparr>)"

fun duplicate_loop :: "PacketNumber \<Rightarrow> interval list \<Rightarrow> bool" where
  "duplicate_loop p [] = False"
| "duplicate_loop p (el # prevs) =
     (if p > iv_End el then False
      else if p \<le> iv_End el \<and> p \<ge> iv_Start el then True
      else duplicate_loop p prevs)"

definition history_IsPotentiallyDuplicate :: "receivedPacketHistory \<Rightarrow> PacketNumber \<Rightarrow> bool" where
  "history_IsPotentiallyDuplicate h p \<longleftrightarrow> p < rph_deletedBelow h \<or> duplicate_loop p (rev (rph_ranges h))"

section \<open>The trackers\<close>

datatype ECN = ECNUnsupported | ECNNon | ECT1 | ECT0 | ECNCE

definition ParseECNHeaderBits :: "byte \<Rightarrow> ECN outcome" where
  "ParseECNHeaderBits bits =
     (if bits = 0 then Ok ECNNon else if bits = 2 then Ok ECT0 else if bits = 1 then Ok ECT1
      else if bits = 3 then Ok ECNCE else Panic ''invalid ECN bits'')"

definition ToHeaderBits :: "ECN \<Rightarrow> byte outcome" where
  "ToHeaderBits e =
     (case e of ECNNon \<Rightarrow> Ok 0 | ECT0 \<Rightarrow> Ok 2 | ECT1 \<Rightarrow> Ok 1 | ECNCE \<Rightarrow> Ok 3
      | ECNUnsupported \<Rightarrow> Panic ''ECN unsupported'')"

record receivedPacketTracker =
  rpt_ect0 :: u64
  rpt_ect1 :: u64
  rpt_ecnce :: u64
  rpt_packetHistory :: receivedPacketHistory
  rpt_lastAck :: "AckFrame option"
  rpt_hasNewAck :: bool

definition newReceivedPacketTracker :: receivedPacketTracker where
  "newReceivedPacketTracker = \<lparr>rpt_ect0 = 0, rpt_ect1 = 0, rpt_ecnce = 0,
     rpt_packetHistory = newReceivedPacketHistory, rpt_lastAck = None, rpt_hasNewAck = False\<rparr>"

definition tracker_ReceivedPacket ::
  "'a receivedPacketTracker_scheme \<Rightarrow> PacketNumber \<Rightarrow> ECN \<Rightarrow> bool \<Rightarrow> 'a receivedPacketTracker_scheme \<times> unit outcome" where
  "tracker_ReceivedPacket h pn ecn ackEliciting =
     (let (hist, isNew) = history_ReceivedPacket (rpt_packetHistory h) pn;
          h = h\<lparr>rpt_packetHistory := hist\<rparr>
      in if \<not> isNew then (h, Err (ErrorString ''recevedPacketTracker BUG: ReceivedPacket called for old / duplicate packet''))
         else
           let h = (case ecn of
                 ECT0 \<Rightarrow> h\<lparr>rpt_ect0 := rpt_ect0 h + 1\<rparr>
               | ECT1 \<Rightarrow> h\<lparr>rpt_ect1 := rpt_ect1 h + 1\<rparr>
               | ECNCE \<Rightarrow> h\<lparr>rpt_ecnce := rpt_ecnce h + 1\<rparr>
               | _ \<Rightarrow> h)
           in (if ackEliciting then h\<lparr>rpt_hasNewAck := True\<rparr> else h, Ok ()))"

definition tracker_GetAckFrame ::
  "'a receivedPacketTracker_scheme \<Rightarrow> 'a receivedPacketTracker_scheme \<times> AckFrame option" where
  "tracker_GetAckFrame h =
     (if \<not> rpt_hasNewAck h then (h, None)
      else
        let ack = (case rpt_lastAck h of
              None \<Rightarrow> \<lparr>af_AckRanges = [], af_DelayTime = 0, af_ECT0 = 0, af_ECT1 = 0, af_ECNCE = 0\<rparr>
            | Some ack \<Rightarrow> ack);
            ack = (AckFrame_Reset ack)\<lparr>af_ECT0 := rpt_ect0 h, af_ECT1 := rpt_ect1 h, af_ECNCE := rpt_ecnce h\<rparr>;
            ack = ack\<lparr>af_AckRanges := AppendAckRanges (rpt_packetHistory h) (af_AckRanges ack)\<rparr>
        in (h\<lparr>rpt_lastAck := Some ack, rpt_hasNewAck := False\<rparr>, Some ack))"

definition tracker_IsPotentiallyDuplicate :: "'a receivedPacketTracker_scheme \<Rightarrow> PacketNumber \<Rightarrow> bool" where
  "tracker_IsPotentiallyDuplicate h pn = history_IsPotentiallyDuplicate (rpt_packetHistory h) pn"

definition packetsBeforeAck :: int where
  "packetsBeforeAck = 2"

definition MaxAckDelay :: int where
  "MaxAckDelay = 25000000"

record appDataReceivedPacketTracker = receivedPacketTracker +
  apt_largestObservedRcvdTime :: "int option"
  apt_largestObserved :: PacketNumber
  apt_ignoreBelow :: PacketNumber
  apt_maxAckDelay :: int
  apt_ackQueued :: bool
  apt_ackElicitingPacketsReceivedSinceLastAck :: int
  apt_ackAlarm :: "int option"

definition newAppDataReceivedPacketTracker :: appDataReceivedPacketTracker where
  "newAppDataReceivedPacketTracker = \<lparr>rpt_ect0 = 0, rpt_ect1 = 0, rpt_ecnce = 0,
     rpt_packetHistory = newReceivedPacketHistory, rpt_lastAck = None, rpt_hasNewAck = False,
     apt_largestObservedRcvdTime = None, apt_largestObserved = 0, apt_ignoreBelow = 0, apt_maxAckDelay = MaxAckDelay,
     apt_ackQueued = False, apt_ackElicitingPacketsReceivedSinceLastAck = 0, apt_ackAlarm = None\<rparr>"

definition isMissing :: "appDataReceivedPacketTracker \<Rightarrow> PacketNumber \<Rightarrow> bool outcome" where
  "isMissing h p =
     (case rpt_lastAck h of
        None \<Rightarrow> Ok False
      | Some lastAck \<Rightarrow>
          if p < apt_ignoreBelow h then Ok False
          else bindr (LargestAcked lastAck) (\<lambda>largest.
            if p < largest then bindr (AcksPacket lastAck p) (\<lambda>b. Ok (\<not> b)) else Ok False))"

definition hasNewMissingPackets :: "appDataReceivedPacketTracker \<Rightarrow> bool outcome" where
  "hasNewMissingPackets h =
     (case rpt_lastAck h of
        None \<Rightarrow> Ok False
      | Some lastAck \<Rightarrow>
          let highestRange = GetHighestAckRange (rpt_packetHistory h) in
          bindr (LargestAcked lastAck) (\<lambda>largest.
          Ok (ar_Smallest highestRange > largest + 1 \<and> AckRange_Len highestRange = 1)))"

definition shouldQueueACK :: "appDataReceivedPacketTracker \<Rightarrow> PacketNumber \<Rightarrow> ECN \<Rightarrow> bool \<Rightarrow> bool outcome" where
  "shouldQueueACK h pn ecn wasMissing =
     (if rpt_lastAck h = None then Ok True
      else if wasMissing then Ok True
      else if apt_ackElicitingPacketsReceivedSinceLastAck h \<ge> packetsBeforeAck then Ok True
      else bindr (hasNewMissingPackets h) (\<lambda>b. if b then Ok True else Ok (ecn = ECNCE)))"

definition app_ReceivedPacket ::
  "appDataReceivedPacketTracker \<Rightarrow> PacketNumber \<Rightarrow> ECN \<Rightarrow> int \<Rightarrow> bool \<Rightarrow> appDataReceivedPacketTracker \<times> unit outcome" where
  "app_ReceivedPacket h pn ecn rcvTime ackEliciting =
     (case tracker_ReceivedPacket h pn ecn ackEliciting of
        (h, Ok _) \<Rightarrow>
          let h = (if pn \<ge> apt_largestObserved h
                then h\<lparr>apt_largestObserved := pn, apt_largestObservedRcvdTime := Some rcvTime\<rparr> else h)
          in if \<not> ackEliciting then (h, Ok ())
             else
               let h = h\<lparr>apt_ackElicitingPacketsReceivedSinceLastAck := apt_ackElicitingPacketsReceivedSinceLastAck h + 1\<rparr>
               in case bindr (isMissing h pn) (\<lambda>missing.
                         if apt_ackQueued h then Ok True else shouldQueueACK h pn ecn missing) of
                    Ok True \<Rightarrow>
                      (if apt_ackQueued h then h else h\<lparr>apt_ackQueued := True, apt_ackAlarm := None\<rparr>, Ok ())
                  | Ok False \<Rightarrow> (h\<lparr>apt_ackAlarm := Some (rcvTime + apt_maxAckDelay h)\<rparr>, Ok ())
                  | Err e \<Rightarrow> (h, Err e)
                  | Panic m \<Rightarrow> (h, Panic m)
      | (h, e) \<Rightarrow> (h, e))"

definition IgnoreBelow :: "appDataReceivedPacketTracker \<Rightarrow> PacketNumber \<Rightarrow> appDataReceivedPacketTracker" where
  "IgnoreBelow h pn =
     (if pn \<le> apt_ignoreBelow h then h
      else h\<lparr>apt_ignoreBelow := pn, rpt_packetHistory := DeleteBelow (rpt_packetHistory h) pn\<rparr>)"

definition app_GetAckFrame ::
  "appDataReceivedPacketTracker \<Rightarrow> int \<Rightarrow> bool \<Rightarrow> appDataReceivedPacketTracker \<times> AckFrame option" where
  "app_GetAckFrame h now onlyIfQueued =
     (if onlyIfQueued \<and> \<not> apt_ackQueued h
         \<and> (case apt_ackAlarm h of None \<Rightarrow> True | Some t \<Rightarrow> t > now)
      then (h, None)
      else case tracker_GetAckFrame h of
        (h, None) \<Rightarrow> (h, None)
      | (h, Some ack) \<Rightarrow>
          let ack = ack\<lparr>af_DelayTime := max 0 (case apt_largestObservedRcvdTime h of
                           None \<Rightarrow> 2 ^ 63 - 1 | Some t \<Rightarrow> now - t)\<rparr>
          in (h\<lparr>rpt_lastAck := Some ack, apt_ackQueued := False, apt_ackAlarm := None,
                apt_ackElicitingPacketsReceivedSinceLastAck := 0\<rparr>, Some ack))"

section \<open>The handler\<close>

record receivedPacketHandler =
  rh_initialPackets :: "receivedPacketTracker option"
  rh_handshakePackets :: "receivedPacketTracker option"
  rh_appDataPackets :: appDataReceivedPacketTracker
  rh_lowest1RTTPacket :: PacketNumber

definition newReceivedPacketHandler :: receivedPacketHandler where
  "newReceivedPacketHandler = \<lparr>rh_initialPackets = Some newReceivedPacketTracker,
     rh_handshakePackets = Some newReceivedPacketTracker, rh_appDataPackets = newAppDataReceivedPacketTracker,
     rh_lowest1RTTPacket = - 1\<rparr>"

definition handler_ReceivedPacket ::
  "PacketNumber \<Rightarrow> receivedPacketHandler \<Rightarrow> PacketNumber \<Rightarrow> ECN \<Rightarrow> EncryptionLevel \<Rightarrow> int \<Rightarrow> bool
   \<Rightarrow> receivedPacketHandler \<times> unit outcome" where
  "handler_ReceivedPacket lowestNotConfirmedAcked h pn ecn encLevel rcvTime ackEliciting =
     (case encLevel of
        EncryptionInitial \<Rightarrow>
          (case rh_initialPackets h of
             None \<Rightarrow> (h, Panic ''invalid memory address or nil pointer dereference'')
           | Some t \<Rightarrow> let (t, r) = tracker_ReceivedPacket t pn ecn ackEliciting in (h\<lparr>rh_initialPackets := Some t\<rparr>, r))
      | EncryptionHandshake \<Rightarrow>
          (case rh_handshakePackets h of
             None \<Rightarrow> (h, Ok ())
           | Some t \<Rightarrow> let (t, r) = tracker_ReceivedPacket t pn ecn ackEliciting in (h\<lparr>rh_handshakePackets := Some t\<rparr>, r))
      | Encryption0RTT \<Rightarrow>
          if rh_lowest1RTTPacket h \<noteq> - 1 \<and> pn > rh_lowest1RTTPacket h
          then (h, Err (ErrorString ''received packet number on a 0-RTT packet after a lower one on a 1-RTT packet''))
          else let (t, r) = app_ReceivedPacket (rh_appDataPackets h) pn ecn rcvTime ackEliciting
               in (h\<lparr>rh_appDataPackets := t\<rparr>, r)
      | Encryption1RTT \<Rightarrow>
          let h = (if rh_lowest1RTTPacket h = - 1 \<or> pn < rh_lowest1RTTPacket h then h\<lparr>rh_lowest1RTTPacket := pn\<rparr> else h);
              (t, r) = app_ReceivedPacket (rh_appDataPackets h) pn ecn rcvTime ackEliciting
          in (h\<lparr>rh_appDataPackets := (if is_ok r then IgnoreBelow t lowestNotConfirmedAcked else t)\<rparr>, r))"

definition handler_DropPackets :: "receivedPacketHandler \<Rightarrow> EncryptionLevel \<Rightarrow> receivedPacketHandler outcome" where
  "handler_DropPackets h encLevel =
     (case encLevel of
        EncryptionInitial \<Rightarrow> Ok (h\<lparr>rh_initialPackets := None\<rparr>)
      | EncryptionHandshake \<Rightarrow> Ok (h\<lparr>rh_handshakePackets := None\<rparr>)
      | Encryption0RTT \<Rightarrow> Ok h
      | Encryption1RTT \<Rightarrow> Panic ''Cannot drop keys for encryption level'')"

definition handler_GetAlarmTimeout :: "receivedPacketHandler \<Rightarrow> int option" where
  "handler_GetAlarmTimeout h = apt_ackAlarm (rh_appDataPackets h)"

definition handler_GetAckFrame ::
  "receivedPacketHandler \<Rightarrow> int \<Rightarrow> EncryptionLevel \<Rightarrow> bool \<Rightarrow> receivedPacketHandler \<times> AckFrame option" where
  "handler_GetAckFrame h now encLevel onlyIfQueued =
     (case encLevel of
        EncryptionInitial \<Rightarrow>
          (case rh_initialPackets h of
             None \<Rightarrow> (h, None)
           | Some t \<Rightarrow> let (t, a) = tracker_GetAckFrame t in (h\<lparr>rh_initialPackets := Some t\<rparr>, a))
      | EncryptionHandshake \<Rightarrow>
          (case rh_handshakePackets h of
             None \<Rightarrow> (h, None)
           | Some t \<Rightarrow> let (t, a) = tracker_GetAckFrame t in (h\<lparr>rh_handshakePackets := Some t\<rparr>, a))
      | Encryption1RTT \<Rightarrow>
          let (t, a) = app_GetAckFrame (rh_appDataPackets h) now onlyIfQueued in (h\<lparr>rh_appDataPackets := t\<rparr>, a)
      | Encryption0RTT \<Rightarrow> (h, None))"

definition handler_IsPotentiallyDuplicate :: "receivedPacketHandler \<Rightarrow> PacketNumber \<Rightarrow> EncryptionLevel \<Rightarrow> bool outcome" where
  "handler_IsPotentiallyDuplicate h pn encLevel =
     (let tracker = (\<lambda>t. case t of
            None \<Rightarrow> Panic ''unexpected encryption level''
          | Some t \<Rightarrow> Ok (tracker_IsPotentiallyDuplicate t pn))
      in case encLevel of
           EncryptionInitial \<Rightarrow> tracker (rh_initialPackets h)
         | EncryptionHandshake \<Rightarrow> tracker (rh_handshakePackets h)
         | _ \<Rightarrow> Ok (tracker_IsPotentiallyDuplicate (rh_appDataPackets h) pn))"

section \<open>The history is a set of packet numbers\<close>

definition iv_set :: "interval list \<Rightarrow> PacketNumber set" where
  "iv_set rs = (\<Union>iv \<in> set rs. {iv_Start iv .. iv_End iv})"

definition iv_wf :: "interval list \<Rightarrow> bool" where
  "iv_wf rs \<longleftrightarrow> (\<forall>iv \<in> set rs. iv_Start iv \<le> iv_End iv) \<and> sorted_wrt (\<lambda>a b. iv_End a + 1 < iv_Start b) rs"

definition iv_desc :: "interval list \<Rightarrow> bool" where
  "iv_desc rs \<longleftrightarrow> (\<forall>iv \<in> set rs. iv_Start iv \<le> iv_End iv) \<and> sorted_wrt (\<lambda>a b. iv_End b + 1 < iv_Start a) rs"

lemma iv_desc_rev: "iv_desc (rev rs) = iv_wf rs"
  by (simp add: iv_desc_def iv_wf_def sorted_wrt_rev)

lemma iv_set_rev [simp]: "iv_set (rev rs) = iv_set rs"
  by (simp add: iv_set_def)

lemma iv_set_simps [simp]: "iv_set [] = {}" "iv_set (iv # rs) = {iv_Start iv .. iv_End iv} \<union> iv_set rs"
  "iv_set (xs @ ys) = iv_set xs \<union> iv_set ys"
  by (auto simp: iv_set_def)

lemma iv_desc_Cons: "iv_desc (iv # rs) \<longleftrightarrow> iv_Start iv \<le> iv_End iv \<and> iv_desc rs \<and> (\<forall>q \<in> iv_set rs. q + 1 < iv_Start iv)"
proof -
  have "(\<forall>b \<in> set rs. iv_End b + 1 < iv_Start iv) \<longleftrightarrow> (\<forall>q \<in> iv_set rs. q + 1 < iv_Start iv)"
    if "\<forall>b \<in> set rs. iv_Start b \<le> iv_End b"
    using that by (force simp: iv_set_def)
  then show ?thesis
    unfolding iv_desc_def by auto
qed

lemma addToRanges_loop_law:
  "iv_desc rs \<Longrightarrow> addToRanges_loop p rs = (rs', isNew) \<Longrightarrow>
   iv_desc rs' \<and> iv_set rs' = insert p (iv_set rs) \<and> (isNew \<longleftrightarrow> p \<notin> iv_set rs) \<and> length rs' \<le> Suc (length rs)"
proof (induction p rs arbitrary: rs' isNew rule: addToRanges_loop.induct)
  case (1 p)
  then show ?case
    by (auto simp: iv_desc_Cons iv_desc_def)
next
  case (2 p el prevs)
  have el: "iv_Start el \<le> iv_End el" "iv_desc prevs" "\<And>q. q \<in> iv_set prevs \<Longrightarrow> q + 1 < iv_Start el"
    using \<open>iv_desc (el # prevs)\<close> by (simp_all add: iv_desc_Cons)
  note run = \<open>addToRanges_loop p (el # prevs) = (rs', isNew)\<close>
  have above: "p \<notin> iv_set prevs" if "iv_Start el \<le> p + 1"
    using el(3) [of p] that by auto
  consider (inside) "p \<in> {iv_Start el .. iv_End el}" | (up) "iv_End el = p - 1" | (down) "iv_Start el = p + 1"
    | (after) "iv_End el + 1 < p" | (before) "p + 1 < iv_Start el"
    using el(1) by fastforce
  then show ?case
  proof cases
    case inside
    then show ?thesis
      using run \<open>iv_desc (el # prevs)\<close> by auto
  next
    case up
    have "rs' = el\<lparr>iv_End := p\<rparr> # prevs" "isNew" "{iv_Start el .. p} = insert p {iv_Start el .. iv_End el}"
      using run up el(1) by auto
    then show ?thesis
      using up el above by (simp add: iv_desc_Cons)
  next
    case down
    have ivl: "{p .. iv_End el} = insert p {iv_Start el .. iv_End el}"
      using down el(1) by auto
    show ?thesis
    proof (cases "prevs \<noteq> [] \<and> iv_End (hd prevs) + 1 = p")
      case True
      then obtain prev rest where prevs: "prevs = prev # rest" "iv_End prev + 1 = p"
        by (cases prevs) auto
      have "rs' = prev\<lparr>iv_End := iv_End el\<rparr> # rest" "isNew"
        using run down prevs el(1) by auto
      moreover have "{iv_Start prev .. iv_End el} = {iv_Start prev .. iv_End prev} \<union> {p .. iv_End el}"
        using prevs el(1,2) down by (auto simp: iv_desc_Cons)
      ultimately show ?thesis
        using el above down ivl unfolding prevs(1) by (auto simp: iv_desc_Cons)
    next
      case False
      have "rs' = el\<lparr>iv_Start := p\<rparr> # prevs" "isNew"
        using run down False el(1) by (auto split: list.splits)
      moreover have "q + 1 < p" if q: "q \<in> iv_set prevs" for q
      proof -
        obtain prev rest where prevs: "prevs = prev # rest"
          using q by (cases prevs) auto
        then have "q \<le> iv_End prev" "iv_End prev \<in> iv_set prevs"
          using q el(2) by (auto simp: iv_desc_Cons)
        then show ?thesis
          using el(3) [of "iv_End prev"] down False prevs by auto
      qed
      ultimately show ?thesis
        using el above down ivl by (simp add: iv_desc_Cons)
    qed
  next
    case after
    have "rs' = \<lparr>iv_Start = p, iv_End = p\<rparr> # el # prevs" "isNew"
      using run after el(1) by auto
    moreover have "q + 1 < p" if "q \<in> iv_set prevs" for q
      using el(1) el(3) [OF that] after by linarith
    ultimately show ?thesis
      using after el above by (auto simp: iv_desc_Cons)
  next
    case before
    obtain rs1 where rs1: "addToRanges_loop p prevs = (rs1, isNew)" "rs' = el # rs1"
      using before el(1) run by (auto split: prod.splits if_splits)
    have "iv_desc rs1 \<and> iv_set rs1 = insert p (iv_set prevs) \<and> (isNew \<longleftrightarrow> p \<notin> iv_set prevs) \<and> length rs1 \<le> Suc (length prevs)"
      using before el rs1(1) by (intro "2.IH") auto
    then show ?thesis
      using before el rs1(2) by (auto simp: iv_desc_Cons)
  qed
qed

definition hist_inv :: "receivedPacketHistory \<Rightarrow> bool" where
  "hist_inv h \<longleftrightarrow> iv_wf (rph_ranges h) \<and> length (rph_ranges h) \<le> MaxNumAckRanges
     \<and> (\<forall>p \<in> iv_set (rph_ranges h). rph_deletedBelow h \<le> p)"

definition hist_set :: "receivedPacketHistory \<Rightarrow> PacketNumber set" where
  "hist_set h = iv_set (rph_ranges h)"

lemma newHistory_inv: "hist_inv newReceivedPacketHistory" "hist_set newReceivedPacketHistory = {}"
  by (simp_all add: hist_inv_def hist_set_def newReceivedPacketHistory_def iv_wf_def)

lemma iv_wf_append: "iv_wf (xs @ ys) \<Longrightarrow> iv_wf ys" "iv_wf (xs @ ys) \<Longrightarrow> q \<in> iv_set xs \<Longrightarrow> r \<in> iv_set ys \<Longrightarrow> q < r"
  by (auto simp: iv_wf_def sorted_wrt_append iv_set_def) force

lemma history_ReceivedPacket_law:
  assumes inv: "hist_inv h" and r: "history_ReceivedPacket h p = (h', isNew)"
  shows "hist_inv h'" "isNew \<longleftrightarrow> rph_deletedBelow h \<le> p \<and> p \<notin> hist_set h"
    "hist_set h' \<subseteq> insert p (hist_set h)" "rph_deletedBelow h' = rph_deletedBelow h"
    "rph_deletedBelow h \<le> p \<Longrightarrow> length (rph_ranges h) < MaxNumAckRanges \<Longrightarrow> hist_set h' = insert p (hist_set h)"
proof -
  obtain rs new where rs: "addToRanges_loop p (rev (rph_ranges h)) = (rs, new)"
    by fastforce
  have law: "iv_wf (rev rs)" "iv_set rs = insert p (hist_set h)" "new \<longleftrightarrow> p \<notin> hist_set h" "length rs \<le> Suc (length (rph_ranges h))"
    using addToRanges_loop_law [OF _ rs] inv iv_desc_rev [of "rev rs"] by (auto simp: iv_desc_rev hist_inv_def hist_set_def)
  define k where "k = length rs - MaxNumAckRanges"
  have h': "if p < rph_deletedBelow h then h' = h \<and> \<not> isNew
      else h' = h\<lparr>rph_ranges := drop k (rev rs)\<rparr> \<and> isNew = new"
    using r rs by (auto simp: history_ReceivedPacket_def addToRanges_def maybeDeleteOldRanges_def k_def)
  have drp: "iv_wf (drop k (rev rs))" "iv_set (drop k (rev rs)) \<subseteq> iv_set rs"
    using iv_wf_append(1) [of "take k (rev rs)"] law(1) iv_set_simps(3) [of "take k (rev rs)" "drop k (rev rs)"] by auto
  show "isNew \<longleftrightarrow> rph_deletedBelow h \<le> p \<and> p \<notin> hist_set h" "hist_set h' \<subseteq> insert p (hist_set h)"
      "rph_deletedBelow h' = rph_deletedBelow h"
    using h' law drp by (auto simp: hist_set_def split: if_splits)
  show "hist_set h' = insert p (hist_set h)" if "rph_deletedBelow h \<le> p" "length (rph_ranges h) < MaxNumAckRanges"
    using that h' law(2,4) by (simp add: hist_set_def k_def)
  show "hist_inv h'"
  proof (cases "p < rph_deletedBelow h")
    case False
    then have "h' = h\<lparr>rph_ranges := drop k (rev rs)\<rparr>"
      using h' by simp
    moreover have "\<forall>q \<in> iv_set (drop k (rev rs)). rph_deletedBelow h \<le> q"
      using drp(2) law(2) inv False by (auto simp: hist_inv_def hist_set_def)
    ultimately show ?thesis
      using drp(1) by (simp add: hist_inv_def k_def)
  qed (use h' inv in simp)
qed

lemma iv_wf_Cons: "iv_wf (iv # rs) \<longleftrightarrow> iv_Start iv \<le> iv_End iv \<and> iv_wf rs \<and> (\<forall>q \<in> iv_set rs. iv_End iv + 1 < q)"
proof -
  have "(\<forall>b \<in> set rs. iv_End iv + 1 < iv_Start b) \<longleftrightarrow> (\<forall>q \<in> iv_set rs. iv_End iv + 1 < q)"
    if "\<forall>b \<in> set rs. iv_Start b \<le> iv_End b"
    using that by (force simp: iv_set_def)
  then show ?thesis
    unfolding iv_wf_def by auto
qed

lemma DeleteBelow_loop_law:
  "iv_wf rs \<Longrightarrow> iv_wf (DeleteBelow_loop p rs) \<and> iv_set (DeleteBelow_loop p rs) = iv_set rs \<inter> {p..}
     \<and> length (DeleteBelow_loop p rs) \<le> length rs"
proof (induction rs)
  case (Cons el els)
  then have el: "iv_Start el \<le> iv_End el" "iv_wf els" "\<And>q. q \<in> iv_set els \<Longrightarrow> iv_End el + 1 < q"
    by (simp_all add: iv_wf_Cons)
  have up: "iv_set els \<inter> {p..} = iv_set els" if "p \<le> iv_End el"
    using that el(3) by fastforce
  show ?case
    using Cons.IH [OF el(2)] el up by (auto simp: iv_wf_Cons)
qed (simp add: iv_wf_def)

lemma DeleteBelow_law:
  assumes "hist_inv h"
  shows "hist_inv (DeleteBelow h p)" "rph_deletedBelow (DeleteBelow h p) = max p (rph_deletedBelow h)"
    "hist_set (DeleteBelow h p) = hist_set h \<inter> {max p (rph_deletedBelow h)..}"
  using assms DeleteBelow_loop_law [of "rph_ranges h" p] by (auto simp: DeleteBelow_def hist_inv_def hist_set_def)

lemma duplicate_loop_law: "iv_desc rs \<Longrightarrow> duplicate_loop p rs \<longleftrightarrow> p \<in> iv_set rs"
proof (induction rs)
  case (Cons el prevs)
  then have "q + 1 < iv_Start el \<and> iv_Start el \<le> iv_End el" if "q \<in> iv_set prevs" for q
    using that by (auto simp: iv_desc_Cons)
  from this [of p] show ?case
    using Cons by (auto simp: iv_desc_Cons)
qed simp

lemma duplicate_law: "hist_inv h \<Longrightarrow> history_IsPotentiallyDuplicate h p \<longleftrightarrow> p < rph_deletedBelow h \<or> p \<in> hist_set h"
  by (simp add: history_IsPotentiallyDuplicate_def duplicate_loop_law iv_desc_rev hist_inv_def hist_set_def)

definition range_set :: "AckRange list \<Rightarrow> PacketNumber set" where
  "range_set rs = (\<Union>r \<in> set rs. {ar_Smallest r .. ar_Largest r})"

lemma range_set_AppendAckRanges: "range_set (AppendAckRanges h []) = hist_set h"
  by (auto simp: range_set_def AppendAckRanges_def hist_set_def iv_set_def)

lemma ranges_below_desc:
  "iv_desc (el # rs) \<Longrightarrow> ranges_below (iv_Start el) (map (\<lambda>el. \<lparr>ar_Smallest = iv_Start el, ar_Largest = iv_End el\<rparr>) rs)"
proof (induction rs arbitrary: el)
  case (Cons r rs)
  then show ?case
    by (auto simp: iv_desc_Cons)
qed simp

lemma AppendAckRanges_valid:
  assumes "hist_inv h" "hist_set h \<noteq> {}" "af_AckRanges f = AppendAckRanges h []"
  shows "validateAckRanges f"
proof -
  obtain el rs where rs: "rev (rph_ranges h) = el # rs"
    using assms(2) by (cases "rev (rph_ranges h)") (auto simp: hist_set_def)
  then have "iv_desc (el # rs)"
    using assms(1) by (metis hist_inv_def iv_desc_rev)
  then show ?thesis
    using ranges_below_desc [of el rs] rs
    by (auto simp: validateAckRanges_below assms(3) AppendAckRanges_def iv_desc_Cons)
qed

text \<open>
  C32 (history-set). The list of ranges implements a set of packet numbers with a lower
  limit: a packet is new exactly when it is not below the limit and not in the set, and is
  then added; the check for duplicates and the deletion below a limit are those of sets;
  the ranges of the next ACK frame are valid and contain exactly the set. The only loss is
  that of the oldest ranges when there are already 32.
\<close>

theorem history_refines_set:
  assumes "hist_inv h"
  shows "(case history_ReceivedPacket h p of (h', isNew) \<Rightarrow>
        hist_inv h' \<and> (isNew \<longleftrightarrow> rph_deletedBelow h \<le> p \<and> p \<notin> hist_set h) \<and> hist_set h' \<subseteq> insert p (hist_set h)
        \<and> (rph_deletedBelow h \<le> p \<and> length (rph_ranges h) < MaxNumAckRanges \<longrightarrow> hist_set h' = insert p (hist_set h)))
    \<and> (history_IsPotentiallyDuplicate h p \<longleftrightarrow> p < rph_deletedBelow h \<or> p \<in> hist_set h)
    \<and> hist_inv (DeleteBelow h p) \<and> hist_set (DeleteBelow h p) = hist_set h \<inter> {max p (rph_deletedBelow h)..}
    \<and> range_set (AppendAckRanges h []) = hist_set h
    \<and> (hist_set h \<noteq> {} \<and> af_AckRanges f = AppendAckRanges h [] \<longrightarrow> validateAckRanges f)"
proof -
  obtain h' isNew where r: "history_ReceivedPacket h p = (h', isNew)"
    by fastforce
  show ?thesis
    using history_ReceivedPacket_law [OF assms r] DeleteBelow_law [OF assms] duplicate_law [OF assms]
      range_set_AppendAckRanges AppendAckRanges_valid [OF assms] by (auto simp: r)
qed

theorem history_refines_set_witness:
  "history_ReceivedPacket \<lparr>rph_ranges = [\<lparr>iv_Start = 1, iv_End = 3\<rparr>, \<lparr>iv_Start = 5, iv_End = 8\<rparr>], rph_deletedBelow = 1\<rparr> 4
     = (\<lparr>rph_ranges = [\<lparr>iv_Start = 1, iv_End = 8\<rparr>], rph_deletedBelow = 1\<rparr>, True)
   \<and> history_IsPotentiallyDuplicate
       \<lparr>rph_ranges = [\<lparr>iv_Start = 1, iv_End = 3\<rparr>, \<lparr>iv_Start = 5, iv_End = 8\<rparr>], rph_deletedBelow = 1\<rparr> 7"
proof -
  let ?h = "\<lparr>rph_ranges = [\<lparr>iv_Start = 1, iv_End = 3\<rparr>, \<lparr>iv_Start = 5, iv_End = 8\<rparr>], rph_deletedBelow = 1\<rparr>"
  have "hist_inv ?h"
    by (auto simp: hist_inv_def iv_wf_def MaxNumAckRanges_def)
  from history_refines_set [OF this, of 7] show ?thesis
    by (auto simp: history_ReceivedPacket_def addToRanges_def maybeDeleteOldRanges_def MaxNumAckRanges_def hist_set_def)
qed

section \<open>What is acknowledged, and when\<close>

lemma app_ReceivedPacket_history:
  assumes "app_ReceivedPacket h pn ecn rcvTime el = (h', Ok ())"
  shows "history_ReceivedPacket (rpt_packetHistory h) pn = (rpt_packetHistory h', True)"
    "apt_maxAckDelay h' = apt_maxAckDelay h"
    "el \<Longrightarrow> rpt_hasNewAck h' \<and> (apt_ackQueued h' \<or> apt_ackAlarm h' = Some (rcvTime + apt_maxAckDelay h))"
proof -
  obtain t where t: "tracker_ReceivedPacket h pn ecn el = (t, Ok ())"
    using assms by (auto simp: app_ReceivedPacket_def split: prod.splits outcome.splits)
  have new: "history_ReceivedPacket (rpt_packetHistory h) pn = (rpt_packetHistory t, True)"
      "el \<Longrightarrow> rpt_hasNewAck t" "apt_maxAckDelay t = apt_maxAckDelay h"
    using t by (auto simp: tracker_ReceivedPacket_def Let_def split: prod.splits if_splits ECN.splits)
  note run = assms [unfolded app_ReceivedPacket_def t prod.case outcome.case Let_def]
  show "history_ReceivedPacket (rpt_packetHistory h) pn = (rpt_packetHistory h', True)"
    "apt_maxAckDelay h' = apt_maxAckDelay h"
    "el \<Longrightarrow> rpt_hasNewAck h' \<and> (apt_ackQueued h' \<or> apt_ackAlarm h' = Some (rcvTime + apt_maxAckDelay h))"
    using run new by (auto split: if_splits outcome.splits bool.splits)
qed

lemma app_GetAckFrame_Some:
  assumes "app_GetAckFrame h now onlyIfQueued = (h', Some ack)"
  shows "af_AckRanges ack = AppendAckRanges (rpt_packetHistory h) []" "0 \<le> af_DelayTime ack"
    "rpt_packetHistory h' = rpt_packetHistory h"
  using assms by (auto simp: app_GetAckFrame_def tracker_GetAckFrame_def AckFrame_Reset_def Let_def
      split: if_splits prod.splits option.splits)

lemma app_GetAckFrame_history: "app_GetAckFrame h now q = (h', a) \<Longrightarrow> rpt_packetHistory h' = rpt_packetHistory h"
  by (auto simp: app_GetAckFrame_def tracker_GetAckFrame_def Let_def split: if_splits prod.splits option.splits)

lemma app_GetAckFrame_due:
  assumes "rpt_hasNewAck h" "apt_ackQueued h \<or> apt_ackAlarm h = Some t \<and> t \<le> now"
  shows "\<exists>h' ack. app_GetAckFrame h now True = (h', Some ack)"
  using assms by (auto simp: app_GetAckFrame_def tracker_GetAckFrame_def Let_def)



text \<open>The tracker together with the set of the packets that were really received.\<close>

inductive app_step :: "appDataReceivedPacketTracker \<times> PacketNumber set \<Rightarrow> appDataReceivedPacketTracker \<times> PacketNumber set \<Rightarrow> bool" where
  recv: "app_ReceivedPacket h pn ecn rcvTime el = (h', Ok ()) \<Longrightarrow> app_step (h, R) (h', insert pn R)"
| ignore: "app_step (h, R) (IgnoreBelow h pn, R)"
| getack: "app_GetAckFrame h now q = (h', a) \<Longrightarrow> app_step (h, R) (h', R)"

lemma app_step_inv:
  "app_step s s' \<Longrightarrow> hist_inv (rpt_packetHistory (fst s)) \<and> hist_set (rpt_packetHistory (fst s)) \<subseteq> snd s \<Longrightarrow>
   hist_inv (rpt_packetHistory (fst s')) \<and> hist_set (rpt_packetHistory (fst s')) \<subseteq> snd s'"
proof (induction rule: app_step.induct)
  case (recv h pn ecn rcvTime el h' R)
  then show ?case
    using history_ReceivedPacket_law(1,3) [OF _ app_ReceivedPacket_history(1) [OF recv.hyps]] by fastforce
next
  case (ignore h R pn)
  then show ?case
    by (auto simp: IgnoreBelow_def DeleteBelow_law)
next
  case (getack h now q h' a R)
  then show ?case
    by (simp add: app_GetAckFrame_history)
qed

text \<open>
  C34 (ack-sound). Whatever the tracker has seen before, an ACK frame it returns contains
  only numbers of packets that were received, in at most 32 ranges, which are valid unless
  there are none.
\<close>

theorem ack_only_received:
  assumes "app_step\<^sup>*\<^sup>* (newAppDataReceivedPacketTracker, {}) (h, R)" "app_GetAckFrame h now q = (h', Some ack)"
  shows "range_set (af_AckRanges ack) \<subseteq> R \<and> length (af_AckRanges ack) \<le> 32 \<and> 0 \<le> af_DelayTime ack
    \<and> (af_AckRanges ack \<noteq> [] \<longrightarrow> validateAckRanges ack)"
proof -
  have "hist_inv (rpt_packetHistory h) \<and> hist_set (rpt_packetHistory h) \<subseteq> R"
    using assms(1)
  proof (induction "(h, R)" arbitrary: h R rule: rtranclp_induct)
    case base
    then show ?case
      using newHistory_inv by (simp add: newAppDataReceivedPacketTracker_def)
  next
    case (step s)
    then show ?case
      using app_step_inv [OF step.hyps(2)] by (cases s) auto
  qed
  moreover note ack = app_GetAckFrame_Some [OF assms(2)]
  moreover have "af_AckRanges ack \<noteq> [] \<Longrightarrow> hist_inv (rpt_packetHistory h) \<Longrightarrow> hist_set (rpt_packetHistory h) \<noteq> {}"
    by (cases "rph_ranges (rpt_packetHistory h)") (auto simp: ack AppendAckRanges_def hist_set_def hist_inv_def iv_wf_Cons)
  ultimately show ?thesis
    using AppendAckRanges_valid [of "rpt_packetHistory h" ack] range_set_AppendAckRanges [of "rpt_packetHistory h"]
    by (auto simp: hist_inv_def AppendAckRanges_def MaxNumAckRanges_def)
qed

theorem ack_only_received_witness:
  "\<exists>h h' ack. app_ReceivedPacket newAppDataReceivedPacketTracker 7 ECT0 1000 True = (h, Ok ())
    \<and> app_GetAckFrame h 2000 False = (h', Some ack) \<and> range_set (af_AckRanges ack) \<subseteq> {7}"
proof -
  let ?h = newAppDataReceivedPacketTracker
  obtain h where h: "app_ReceivedPacket ?h 7 ECT0 1000 True = (h, Ok ())"
    by (simp add: app_ReceivedPacket_def tracker_ReceivedPacket_def newAppDataReceivedPacketTracker_def
        history_ReceivedPacket_def addToRanges_def newReceivedPacketHistory_def isMissing_def shouldQueueACK_def Let_def)
  then have "app_step\<^sup>*\<^sup>* (?h, {}) (h, {7})"
    by (intro r_into_rtranclp app_step.recv)
  moreover obtain h' ack where "app_GetAckFrame h 2000 False = (h', Some ack)"
    using app_ReceivedPacket_history(3) [OF h] by (auto simp: app_GetAckFrame_def tracker_GetAckFrame_def Let_def)
  ultimately show ?thesis
    using ack_only_received [of h "{7}" 2000 False h' ack] h by blast
qed

fun handler_run ::
  "receivedPacketHandler \<Rightarrow> (PacketNumber \<times> PacketNumber) list \<Rightarrow> receivedPacketHandler \<times> unit outcome" where
  "handler_run h [] = (h, Ok ())"
| "handler_run h ((lowest, pn) # ps) =
     (case handler_ReceivedPacket lowest h pn ECNNon Encryption1RTT pn True of
        (h, Ok _) \<Rightarrow> handler_run h ps
      | (h, e) \<Rightarrow> (h, e))"

fun history_run :: "receivedPacketHistory \<Rightarrow> PacketNumber list \<Rightarrow> receivedPacketHistory \<times> bool list" where
  "history_run h [] = (h, [])"
| "history_run h (p # ps) =
     (let (h, new) = history_ReceivedPacket h p; (h, news) = history_run h ps in (h, new # news))"



end
