(* ===== verification/FrameSorter.thy ===== *)
theory FrameSorter
  imports Frames "HOL-Library.AList" "HOL-Library.Multiset"
begin

text \<open>
  The reassembly of stream data (\<^verbatim>\<open>frame_sorter.go\<close>). The map of queued frames is an
  association list, the linked list of gaps a list, and a pointer to one of its elements an
  index. A \<^verbatim>\<open>DoneCb\<close>, which gives the buffer of a frame back to its pool, is a number, and
  the sorter keeps a log of those it called.
\<close>

section \<open>The sorter\<close>

record byteInterval =
  bi_Start :: ByteCount
  bi_End :: ByteCount

record frameSorterEntry =
  fse_Data :: "byte list"
  fse_DoneCb :: "nat option"

type_synonym fs_queue = "(ByteCount \<times> frameSorterEntry) list"

record frameSorter =
  fso_queue :: fs_queue
  fso_readPos :: ByteCount
  fso_gaps :: "byteInterval list"
  fso_called :: "nat list"

abbreviation errDuplicateStreamData :: go_error where
  "errDuplicateStreamData \<equiv> ErrorString ''duplicate stream data''"

definition MaxStreamFrameSorterGaps :: nat where
  "MaxStreamFrameSorterGaps = 1000"

definition newFrameSorter :: frameSorter where
  "newFrameSorter = \<lparr>fso_queue = [], fso_readPos = 0,
     fso_gaps = [\<lparr>bi_Start = 0, bi_End = MaxByteCount\<rparr>], fso_called = []\<rparr>"

fun callCb :: "nat option \<Rightarrow> nat list" where
  "callCb None = []"
| "callCb (Some cb) = [cb]"

fun findStartGap_from :: "nat \<Rightarrow> byteInterval list \<Rightarrow> ByteCount \<Rightarrow> (nat \<times> bool) outcome" where
  "findStartGap_from i [] offset = Panic ''no gap found''"
| "findStartGap_from i (gap # gaps) offset =
     (if offset \<ge> bi_Start gap \<and> offset \<le> bi_End gap then Ok (i, True)
      else if offset < bi_Start gap then Ok (i, False)
      else findStartGap_from (Suc i) gaps offset)"

definition findStartGap :: "byteInterval list \<Rightarrow> ByteCount \<Rightarrow> (nat \<times> bool) outcome" where
  "findStartGap gaps offset = findStartGap_from 0 gaps offset"

text \<open>The result before the first gap would be a nil pointer, which the caller dereferences.\<close>

fun findEndGap_from :: "nat \<Rightarrow> byteInterval list \<Rightarrow> ByteCount \<Rightarrow> (nat \<times> bool) outcome" where
  "findEndGap_from i [] offset = Panic ''no gap found''"
| "findEndGap_from i (gap # gaps) offset =
     (if offset \<ge> bi_Start gap \<and> offset < bi_End gap then Ok (i, True)
      else if offset < bi_Start gap then
        (case i of 0 \<Rightarrow> Panic ''invalid memory address or nil pointer dereference'' | Suc j \<Rightarrow> Ok (j, False))
      else findEndGap_from (Suc i) gaps offset)"

definition findEndGap :: "byteInterval list \<Rightarrow> nat \<Rightarrow> ByteCount \<Rightarrow> (nat \<times> bool) outcome" where
  "findEndGap gaps startGap offset = findEndGap_from startGap (drop startGap gaps) offset"

lemma length_delete_less [simp]: "map_of q pos = Some e \<Longrightarrow> length (AList.delete pos q) < length q"
  by (induction q) (auto simp: less_Suc_eq_le length_delete_le split: if_splits)

function deleteConsecutive :: "fs_queue \<Rightarrow> ByteCount \<Rightarrow> fs_queue \<times> nat list" where
  "deleteConsecutive q pos =
     (case map_of q pos of
        None \<Rightarrow> (q, [])
      | Some oldEntry \<Rightarrow>
          let (q', called) = deleteConsecutive (AList.delete pos q) (pos + int (length (fse_Data oldEntry)))
          in (q', callCb (fse_DoneCb oldEntry) @ called))"
  by pat_completeness auto
termination
  by (relation "measure (\<lambda>(q, pos). length q)") auto

declare deleteConsecutive.simps [simp del]

text \<open>
  The loop that replaces queued frames from \<open>pos\<close> on. It ends where no frame is queued
  (\<open>None\<close>) or at a longer frame, whose position it returns.
\<close>

function replaceFrames ::
  "fs_queue \<Rightarrow> ByteCount \<Rightarrow> ByteCount \<Rightarrow> bool \<Rightarrow> fs_queue \<times> bool \<times> ByteCount option \<times> nat list" where
  "replaceFrames q pos endPos hasReplacedAtLeastOne =
     (case map_of q pos of
        None \<Rightarrow> (q, hasReplacedAtLeastOne, None, [])
      | Some oldEntry \<Rightarrow>
          let oldEntryLen = int (length (fse_Data oldEntry)) in
          if endPos - pos > oldEntryLen \<or> (hasReplacedAtLeastOne \<and> endPos - pos = oldEntryLen) then
            let (q', has, stop, called) = replaceFrames (AList.delete pos q) (pos + oldEntryLen) endPos True
            in (q', has, stop, callCb (fse_DoneCb oldEntry) @ called)
          else (q, hasReplacedAtLeastOne, Some pos, []))"
  by pat_completeness auto
termination
  by (relation "measure (\<lambda>(q, pos, endPos, has). length q)") auto

declare replaceFrames.simps [simp del]

definition slice_from :: "byte list \<Rightarrow> int \<Rightarrow> byte list outcome" where
  "slice_from xs n = (if n < 0 \<or> n > int (length xs) then Panic ''slice bounds out of range'' else Ok (drop (nat n) xs))"

definition slice_to :: "byte list \<Rightarrow> int \<Rightarrow> byte list outcome" where
  "slice_to xs n = (if n < 0 \<or> n > int (length xs) then Panic ''slice bounds out of range'' else Ok (take (nat n) xs))"

text \<open>The gaps between the one the frame starts in and the one it ends in, with the frames behind them.\<close>

fun deleteBehind :: "fs_queue \<Rightarrow> byteInterval list \<Rightarrow> fs_queue \<times> nat list" where
  "deleteBehind q [] = (q, [])"
| "deleteBehind q (gap # gaps) =
     (let (q, called) = deleteConsecutive q (bi_End gap); (q, called') = deleteBehind q gaps
      in (q, called @ called'))"

definition frameSorter_push ::
  "frameSorter \<Rightarrow> byte list \<Rightarrow> ByteCount \<Rightarrow> nat option \<Rightarrow> frameSorter \<times> unit outcome" where
  "frameSorter_push s dat offset doneCb =
     (if length dat = 0 then (s, Err errDuplicateStreamData)
      else case fso_gaps s of [] \<Rightarrow> (s, Panic ''invalid memory address or nil pointer dereference'') | front # _ \<Rightarrow>
      let start = offset; endPos = offset + int (length dat) in
      if endPos \<le> bi_Start front then (s, Err errDuplicateStreamData)
      else case bindr (findStartGap (fso_gaps s) start) (\<lambda>(i, startsInGap).
                  bindr (findEndGap (fso_gaps s) i endPos) (\<lambda>(j, endsInGap). Ok (i, startsInGap, j, endsInGap))) of
        Err e \<Rightarrow> (s, Err e)
      | Panic m \<Rightarrow> (s, Panic m)
      | Ok (i, startsInGap, j, endsInGap) \<Rightarrow>
      let startGap = fso_gaps s ! i; endGap = fso_gaps s ! j in
      if i = j \<and> endPos \<le> bi_Start startGap
         \<or> i \<noteq> j \<and> bi_End startGap \<ge> bi_Start endGap \<and> endPos \<le> bi_Start startGap
      then (s, Err errDuplicateStreamData)
      else
      let (q, hasReplacedAtLeastOne, stop, called) = replaceFrames (fso_queue s) start endPos False in
      if stop \<noteq> None \<and> \<not> hasReplacedAtLeastOne then (s, Err errDuplicateStreamData)
      else
      let s1 = s\<lparr>fso_queue := q, fso_called := fso_called s @ called\<rparr> in
      case bindr (case stop of
                    None \<Rightarrow> Ok (dat, endPos, False)
                  | Some pos \<Rightarrow> bindr (slice_to dat (pos - start)) (\<lambda>d. Ok (d, pos, True))) (\<lambda>(dat, endPos, wasCut).
           if \<not> startsInGap \<and> \<not> hasReplacedAtLeastOne
           then bindr (slice_from dat (bi_Start startGap - start)) (\<lambda>d. Ok (d, bi_Start startGap, endPos, True))
           else Ok (dat, start, endPos, wasCut)) of
        Err e \<Rightarrow> (s1, Err e)
      | Panic m \<Rightarrow> (s1, Panic m)
      | Ok (dat, start, endPos, wasCut) \<Rightarrow>
      let adjustedStartGapEnd = (start > bi_Start startGap \<and> \<not> hasReplacedAtLeastOne);
          startGap' =
            (if start \<le> bi_Start startGap
             then (if endPos \<ge> bi_End startGap then [] else [startGap\<lparr>bi_Start := endPos\<rparr>])
             else if \<not> hasReplacedAtLeastOne then [startGap\<lparr>bi_End := start\<rparr>]
             else [startGap]);
          between = (if i = j then [] else takeWhile (\<lambda>gap. bi_End gap < bi_Start endGap) (drop (Suc i) (fso_gaps s)));
          rest = drop (Suc i + length between) (fso_gaps s);
          (q, called') = (if i = j then (fso_queue s1, [])
             else let (q, c) = deleteConsecutive (fso_queue s1) (bi_End startGap); (q, c') = deleteBehind q between in (q, c @ c'));
          s2 = s1\<lparr>fso_queue := q, fso_called := fso_called s1 @ called'\<rparr>
      in if i \<noteq> j \<and> rest = [] then (s2, Panic ''invalid memory address or nil pointer dereference'')
      else
      case (if \<not> endsInGap \<and> start \<noteq> bi_End endGap \<and> endPos > bi_End endGap
            then bindr (slice_to dat (bi_End endGap - start)) (\<lambda>d. Ok (d, bi_End endGap, True))
            else Ok (dat, endPos, wasCut)) of
        Err e \<Rightarrow> (s2, Err e)
      | Panic m \<Rightarrow> (s2, Panic m)
      | Ok (dat, endPos, wasCut) \<Rightarrow>
      let k = j - (Suc i + length between);
          gaps = take i (fso_gaps s) @
            (if i = j then
               startGap' @ (if endPos \<noteq> bi_End endGap \<and> adjustedStartGapEnd
                            then [\<lparr>bi_Start = endPos, bi_End = bi_End startGap\<rparr>] else []) @ rest
             else
               startGap' @ take k rest @ (if endPos = bi_End endGap then [] else [endGap\<lparr>bi_Start := endPos\<rparr>])
                 @ drop (Suc k) rest);
          cut = (wasCut \<and> length dat < MinStreamFrameBufferSize);
          s3 = s2\<lparr>fso_gaps := gaps, fso_called := fso_called s2 @ (if cut then callCb doneCb else [])\<rparr>
      in if length gaps > MaxStreamFrameSorterGaps then (s3, Err (ErrorString ''too many gaps in received data''))
         else (s3\<lparr>fso_queue := AList.update start \<lparr>fse_Data = dat, fse_DoneCb = (if cut then None else doneCb)\<rparr> (fso_queue s3)\<rparr>,
               Ok ()))"

definition frameSorter_Push ::
  "frameSorter \<Rightarrow> byte list \<Rightarrow> ByteCount \<Rightarrow> nat option \<Rightarrow> frameSorter \<times> unit outcome" where
  "frameSorter_Push s dat offset doneCb =
     (let (s, err) = frameSorter_push s dat offset doneCb in
      if err = Err errDuplicateStreamData
      then (s\<lparr>fso_called := fso_called s @ callCb doneCb\<rparr>, Ok ())
      else (s, err))"

definition frameSorter_Pop ::
  "frameSorter \<Rightarrow> frameSorter \<times> (ByteCount \<times> byte list option \<times> nat option) outcome" where
  "frameSorter_Pop s =
     (case map_of (fso_queue s) (fso_readPos s) of
        None \<Rightarrow> (s, Ok (fso_readPos s, None, None))
      | Some entry \<Rightarrow>
          let offset = fso_readPos s;
              s = s\<lparr>fso_queue := AList.delete (fso_readPos s) (fso_queue s),
                    fso_readPos := fso_readPos s + int (length (fse_Data entry))\<rparr>
          in case fso_gaps s of
               [] \<Rightarrow> (s, Panic ''invalid memory address or nil pointer dereference'')
             | front # _ \<Rightarrow>
                 if bi_End front \<le> fso_readPos s then (s, Panic ''frame sorter BUG: read position higher than a gap'')
                 else (s, Ok (offset, Some (fse_Data entry), fse_DoneCb entry)))"

definition HasMoreData :: "frameSorter \<Rightarrow> bool" where
  "HasMoreData s \<longleftrightarrow> length (fso_queue s) > 0"

section \<open>The queue\<close>

text \<open>The bytes a queue covers; its frames are not empty and do not overlap.\<close>

definition entry_at :: "fs_queue \<Rightarrow> ByteCount \<Rightarrow> ByteCount \<Rightarrow> bool" where
  "entry_at q k x \<longleftrightarrow> (\<exists>e. map_of q k = Some e \<and> k \<le> x \<and> x < k + int (length (fse_Data e)))"

definition cov :: "fs_queue \<Rightarrow> ByteCount set" where
  "cov q = {x. \<exists>k. entry_at q k x}"

definition q_wf :: "fs_queue \<Rightarrow> bool" where
  "q_wf q \<longleftrightarrow> distinct (map fst q) \<and> (\<forall>k e. map_of q k = Some e \<longrightarrow> fse_Data e \<noteq> [])
     \<and> (\<forall>k l x. entry_at q k x \<longrightarrow> entry_at q l x \<longrightarrow> k = l)"

definition cbs :: "fs_queue \<Rightarrow> nat multiset" where
  "cbs q = (\<Sum>(k, e) \<in># mset q. mset (callCb (fse_DoneCb e)))"

lemma q_wf_distinct: "q_wf q \<Longrightarrow> distinct (map fst q)"
  by (simp add: q_wf_def)

lemma entry_at_key: "q_wf q \<Longrightarrow> map_of q k = Some e \<Longrightarrow> entry_at q k k"
  unfolding q_wf_def entry_at_def by fastforce

lemma entry_pos: "q_wf q \<Longrightarrow> map_of q k = Some e \<Longrightarrow> 0 < length (fse_Data e)"
  unfolding q_wf_def by blast

lemma entry_unique: "q_wf q \<Longrightarrow> entry_at q k x \<Longrightarrow> entry_at q l x \<Longrightarrow> k = l"
  unfolding q_wf_def by blast

lemma key_in_cov: "q_wf q \<Longrightarrow> k \<notin> cov q \<Longrightarrow> map_of q k = None"
  using entry_at_key unfolding cov_def by fastforce

lemma entry_cov: "map_of q p = Some e \<Longrightarrow> {p ..< p + int (length (fse_Data e))} \<subseteq> cov q"
  unfolding cov_def entry_at_def by (intro subsetI CollectI exI [of _ p]) simp

lemma map_of_delete: "map_of (AList.delete k q) = (map_of q)(k := None)"
  by (rule delete_conv')

lemma entry_at_delete: "entry_at (AList.delete p q) k x \<longleftrightarrow> k \<noteq> p \<and> entry_at q k x"
  by (auto simp: entry_at_def map_of_delete)

lemma q_wf_delete: "q_wf q \<Longrightarrow> q_wf (AList.delete p q)"
  unfolding q_wf_def entry_at_delete by (auto simp: map_of_delete distinct_delete split: if_splits)

lemma cov_delete:
  assumes "q_wf q" "map_of q p = Some e"
  shows "cov (AList.delete p q) = cov q - {p ..< p + int (length (fse_Data e))}"
proof -
  have "{p ..< p + int (length (fse_Data e))} = {x. entry_at q p x}"
    by (rule set_eqI) (simp add: entry_at_def assms(2))
  moreover have "{x. \<exists>k. k \<noteq> p \<and> entry_at q k x} = {x. \<exists>k. entry_at q k x} - {x. entry_at q p x}"
    by (rule set_eqI, simp) (metis entry_unique [OF assms(1)])
  ultimately show ?thesis
    unfolding cov_def entry_at_delete by simp
qed

lemma cbs_delete:
  assumes "distinct (map fst q)" "map_of q p = Some e"
  shows "cbs q = mset (callCb (fse_DoneCb e)) + cbs (AList.delete p q)"
  using assms
proof (induction q)
  case (Cons a q)
  have "AList.delete p q = q" if "p \<notin> fst ` set q"
    using that by (induction q) auto
  then show ?case
    using Cons by (cases a) (auto simp: cbs_def dest: map_of_SomeD split: if_splits)
qed simp

text \<open>
  A chain of frames: the frames that were removed are exactly those that start between
  \<open>pos\<close> and \<open>t\<close>; they cover that interval and do not reach beyond it.
\<close>

definition chain :: "fs_queue \<Rightarrow> ByteCount \<Rightarrow> ByteCount \<Rightarrow> fs_queue \<Rightarrow> bool" where
  "chain q pos t q' \<longleftrightarrow> pos \<le> t \<and> q_wf q' \<and> cov q' = cov q - {pos ..< t} \<and> {pos ..< t} \<subseteq> cov q
     \<and> map_of q' = map_of q |` (- {pos ..< t})
     \<and> (\<forall>k e. map_of q k = Some e \<longrightarrow> k \<in> {pos ..< t} \<longrightarrow> k + int (length (fse_Data e)) \<le> t)"

lemma chain_refl: "q_wf q \<Longrightarrow> chain q pos pos q"
  by (simp add: chain_def restrict_map_def)

lemma chain_step:
  assumes q: "q_wf q" "map_of q pos = Some e"
    and c: "chain (AList.delete pos q) (pos + int (length (fse_Data e))) t q'"
  shows "chain q pos t q'"
proof -
  let ?l = "int (length (fse_Data e))"
  have l: "0 < ?l"
    using q unfolding q_wf_def by auto
  have t: "pos + ?l \<le> t"
    using c by (simp add: chain_def)
  have cd: "cov (AList.delete pos q) = cov q - {pos ..< pos + ?l}"
    by (rule cov_delete [OF q])
  have sub: "{pos ..< pos + ?l} \<subseteq> cov q"
    by (rule entry_cov [OF q(2)])
  have un: "{pos ..< t} = {pos ..< pos + ?l} \<union> {pos + ?l ..< t}"
    using l t by auto
  have none: "map_of q k = None" if "k \<in> {pos <..< pos + ?l}" for k
  proof (rule ccontr)
    assume "map_of q k \<noteq> None"
    then have "entry_at q k k" "entry_at q pos k"
      using entry_at_key [OF q(1)] q(2) that by (auto simp: entry_at_def)
    then show False
      using entry_unique [OF q(1)] that by fastforce
  qed
  have "map_of q' k = (map_of q |` (- {pos ..< t})) k" for k
    using c l t none [of k] by (auto simp: chain_def map_of_delete restrict_map_def split: if_splits)
  moreover have "k + int (length (fse_Data f)) \<le> t" if k: "map_of q k = Some f" "k \<in> {pos ..< t}" for k f
  proof (cases "k = pos")
    case False
    then have "k \<in> {pos + ?l ..< t}"
      using k none [of k] by fastforce
    then show ?thesis
      using c k(1) False by (simp add: chain_def map_of_delete)
  qed (use k q(2) t in simp)
  ultimately show ?thesis
    using c l t cd sub unfolding chain_def un by auto
qed

lemma deleteConsecutive_chain:
  "q_wf q \<Longrightarrow> deleteConsecutive q pos = (q', called) \<Longrightarrow>
   \<exists>t. chain q pos t q' \<and> map_of q t = None \<and> cbs q = mset called + cbs q'"
proof (induction q pos arbitrary: q' called rule: deleteConsecutive.induct)
  case (1 q pos)
  show ?case
  proof (cases "map_of q pos")
    case None
    then show ?thesis
      using 1 chain_refl [of q pos] by (auto simp: deleteConsecutive.simps [of q pos] intro!: exI [of _ pos])
  next
    case (Some e)
    let ?p = "pos + int (length (fse_Data e))"
    obtain c where c: "deleteConsecutive (AList.delete pos q) ?p = (q', c)" "called = callCb (fse_DoneCb e) @ c"
      using 1 Some by (auto simp: deleteConsecutive.simps [of q pos] split: prod.splits)
    obtain t where t: "chain (AList.delete pos q) ?p t q'" "map_of (AList.delete pos q) t = None"
        "cbs (AList.delete pos q) = mset c + cbs q'"
      using 1(1) [OF Some q_wf_delete [OF 1(2)] c(1)] by blast
    have "t \<noteq> pos"
      using t(1) entry_pos [OF 1(2) Some] unfolding chain_def by linarith
    then show ?thesis
      using chain_step [OF 1(2) Some t(1)] t(2,3) cbs_delete [OF q_wf_distinct [OF 1(2)] Some] c(2)
      by (auto simp: map_of_delete)
  qed
qed

lemma replaceFrames_chain:
  "q_wf q \<Longrightarrow> replaceFrames q pos endPos has = (q', has', stop, called) \<Longrightarrow> pos \<le> endPos \<Longrightarrow>
   \<exists>t. chain q pos t q' \<and> t \<le> endPos \<and> (has' \<longleftrightarrow> has \<or> pos < t) \<and> cbs q = mset called + cbs q'
     \<and> (case stop of None \<Rightarrow> map_of q t = None
        | Some p \<Rightarrow> p = t \<and> (\<exists>e. map_of q t = Some e \<and> endPos \<le> t + int (length (fse_Data e))
            \<and> (has' \<longrightarrow> endPos < t + int (length (fse_Data e)))))"
proof (induction q pos endPos has arbitrary: q' has' stop called rule: replaceFrames.induct)
  case (1 q pos endPos has)
  show ?case
  proof (cases "map_of q pos")
    case None
    then show ?thesis
      using 1 chain_refl [of q pos] by (auto simp: replaceFrames.simps [of q pos] intro!: exI [of _ pos])
  next
    case (Some e)
    let ?l = "int (length (fse_Data e))" and ?p = "pos + int (length (fse_Data e))"
    show ?thesis
    proof (cases "endPos - pos > ?l \<or> (has \<and> endPos - pos = ?l)")
      case True
      obtain c where c: "replaceFrames (AList.delete pos q) ?p endPos True = (q', has', stop, c)"
          "called = callCb (fse_DoneCb e) @ c"
        using 1(3) Some True by (auto simp: replaceFrames.simps [of q pos] Let_def split: prod.splits)
      obtain t where t: "chain (AList.delete pos q) ?p t q'" "t \<le> endPos" "has'" "cbs (AList.delete pos q) = mset c + cbs q'"
        and stop: "case stop of None \<Rightarrow> map_of (AList.delete pos q) t = None
          | Some p \<Rightarrow> p = t \<and> (\<exists>e. map_of (AList.delete pos q) t = Some e \<and> endPos \<le> t + int (length (fse_Data e))
            \<and> (has' \<longrightarrow> endPos < t + int (length (fse_Data e))))"
        using 1(1) [OF Some refl True q_wf_delete [OF 1(2)] c(1)] True by auto
      have "pos < t"
        using t(1) entry_pos [OF 1(2) Some] unfolding chain_def by linarith
      then show ?thesis
        using chain_step [OF 1(2) Some t(1)] t(2,3,4) stop cbs_delete [OF q_wf_distinct [OF 1(2)] Some] c(2)
        by (intro exI [of _ t]) (auto simp: map_of_delete split: option.splits if_splits)
    next
      case False
      then show ?thesis
        using 1 Some chain_refl [of q pos] by (auto simp: replaceFrames.simps [of q pos] Let_def intro!: exI [of _ pos])
    qed
  qed
qed

end
