(* ===== verification/Reassembly.thy ===== *)
theory Reassembly
  imports FrameSorter
begin

text \<open>
  The correctness of the frame sorter: the gaps and the queue always describe the same set
  of received bytes, so that no byte is lost, delivered twice or out of place, and every
  buffer is given back exactly once.
\<close>

section \<open>Runs of frames\<close>

lemma chain_end:
  assumes "q_wf q" "chain q pos t q'" "map_of q t = None" "pos \<in> cov q \<Longrightarrow> map_of q pos \<noteq> None"
  shows "t \<notin> cov q"
proof
  assume "t \<in> cov q"
  then obtain k e where k: "map_of q k = Some e" "k \<le> t" "t < k + int (length (fse_Data e))"
    unfolding cov_def entry_at_def by blast
  have c: "pos \<le> t" "k \<in> {pos ..< t} \<longrightarrow> k + int (length (fse_Data e)) \<le> t"
    using assms(2) k(1) unfolding chain_def by blast+
  have "k \<noteq> t"
    using k(1) assms(3) by auto
  then have "k < pos"
    using c k by auto
  then have "entry_at q k pos"
    using k c(1) by (auto simp: entry_at_def)
  moreover from this have "pos \<in> cov q"
    by (auto simp: cov_def)
  then have "entry_at q pos pos"
    using assms(1,4) entry_at_key by blast
  ultimately show False
    using entry_unique [OF assms(1)] \<open>k < pos\<close> by fastforce
qed

text \<open>A frame that covers a position whose predecessor is not covered starts there.\<close>

lemma starts_there:
  assumes "p \<in> cov q" "p - 1 \<notin> cov q"
  shows "map_of q p \<noteq> None"
proof -
  obtain k where k: "entry_at q k p"
    using assms(1) by (auto simp: cov_def)
  have "k = p"
  proof (rule ccontr)
    assume "k \<noteq> p"
    then have "entry_at q k (p - 1)"
      using k by (auto simp: entry_at_def)
    then show False
      using assms(2) by (auto simp: cov_def)
  qed
  then show ?thesis
    using k by (auto simp: entry_at_def)
qed

text \<open>Deleting a run that is either all there or already gone, between two uncovered bytes.\<close>

lemma deleteConsecutive_run:
  assumes q: "q_wf q" "deleteConsecutive q a = (q', called)"
    and ab: "a < b" "a - 1 \<notin> cov q" "b \<notin> cov q" and run: "{a ..< b} \<subseteq> cov q \<or> {a ..< b} \<inter> cov q = {}"
  shows "q_wf q' \<and> cov q' = cov q - {a ..< b} \<and> map_of q' \<subseteq>\<^sub>m map_of q \<and> cbs q = mset called + cbs q'"
proof -
  obtain t where t: "chain q a t q'" "map_of q t = None" "cbs q = mset called + cbs q'"
    using deleteConsecutive_chain [OF q] by blast
  have "t \<notin> cov q"
    using chain_end [OF q(1) t(1,2)] starts_there [OF _ ab(2)] by blast
  moreover have c: "a \<le> t" "{a ..< t} \<subseteq> cov q" "cov q' = cov q - {a ..< t}" "q_wf q'" "map_of q' = map_of q |` (- {a ..< t})"
    using t(1) by (simp_all add: chain_def)
  moreover have "cov q - {a ..< t} = cov q - {a ..< b}"
  proof (cases "{a ..< b} \<subseteq> cov q")
    case True
    have "t = b"
    proof (rule antisym)
      show "t \<le> b"
        using c(2) ab(1,3) by (meson atLeastLessThan_iff less_imp_le not_le subsetD)
      show "b \<le> t"
        using True \<open>t \<notin> cov q\<close> c(1) by (meson atLeastLessThan_iff not_le subsetD)
    qed
    then show ?thesis by simp
  next
    case False
    moreover have "a \<in> {a ..< b}"
      using ab(1) by simp
    ultimately have "a \<notin> cov q"
      using run by blast
    then have "t = a"
      using c(1,2) by (metis atLeastLessThan_iff le_less order_refl subsetD)
    then show ?thesis
      using run False by auto
  qed
  ultimately show ?thesis
    using t(3) by (auto simp: map_le_def restrict_map_def split: if_splits)
qed

section \<open>The gaps\<close>

definition gset :: "byteInterval list \<Rightarrow> ByteCount set" where
  "gset gaps = (\<Union>g \<in> set gaps. {bi_Start g ..< bi_End g})"

definition gaps_ok :: "byteInterval list \<Rightarrow> bool" where
  "gaps_ok gaps \<longleftrightarrow> (\<forall>g \<in> set gaps. bi_Start g < bi_End g) \<and> sorted_wrt (\<lambda>a b. bi_End a < bi_Start b) gaps"

lemma gset_simps [simp]: "gset [] = {}" "gset (g # gs) = {bi_Start g ..< bi_End g} \<union> gset gs"
  "gset (xs @ ys) = gset xs \<union> gset ys"
  by (auto simp: gset_def)

lemma gaps_ok_simps [simp]:
  "gaps_ok []"
  "gaps_ok (g # gs) \<longleftrightarrow> bi_Start g < bi_End g \<and> gaps_ok gs \<and> (\<forall>h \<in> set gs. bi_End g < bi_Start h)"
  "gaps_ok (xs @ ys) \<longleftrightarrow> gaps_ok xs \<and> gaps_ok ys \<and> (\<forall>x \<in> set xs. \<forall>y \<in> set ys. bi_End x < bi_Start y)"
  by (auto simp: gaps_ok_def sorted_wrt_append)

lemma gaps_ok_member: "gaps_ok gs \<Longrightarrow> g \<in> set gs \<Longrightarrow> bi_Start g < bi_End g"
  by (simp add: gaps_ok_def)

text \<open>
  Deleting the frames behind the gaps \<open>gs\<close>, up to the gap \<open>h\<close>: every run between two gaps
  is covered, except possibly the first one, which may have been deleted before.
\<close>

lemma deleteBehind_runs:
  "gaps_ok (g # gs @ [h]) \<Longrightarrow> q_wf q \<Longrightarrow> deleteBehind q (g # gs) = (q', called) \<Longrightarrow>
   cov q \<inter> gset (g # gs @ [h]) = {} \<Longrightarrow>
   {bi_End (hd (g # gs)) ..< bi_Start h} - gset gs \<subseteq> cov q
     \<or> {bi_End g ..< bi_Start (hd (gs @ [h]))} \<inter> cov q = {}
       \<and> {bi_End (hd (gs @ [h])) ..< bi_Start h} - gset gs \<subseteq> cov q \<Longrightarrow>
   q_wf q' \<and> cov q' = cov q - {bi_End g ..< bi_Start h} \<and> map_of q' \<subseteq>\<^sub>m map_of q \<and> cbs q = mset called + cbs q'"
proof (induction gs arbitrary: g q called)
  case Nil
  have "q_wf q' \<and> cov q' = cov q - {bi_End g ..< bi_Start h} \<and> map_of q' \<subseteq>\<^sub>m map_of q \<and> cbs q = mset called + cbs q'"
  proof (rule deleteConsecutive_run [OF Nil(2)])
    show "deleteConsecutive q (bi_End g) = (q', called)"
      using Nil(3) by (auto split: prod.splits)
    show "bi_End g < bi_Start h" "bi_End g - 1 \<notin> cov q" "bi_Start h \<notin> cov q"
      using Nil(1,4) by fastforce+
    show "{bi_End g ..< bi_Start h} \<subseteq> cov q \<or> {bi_End g ..< bi_Start h} \<inter> cov q = {}"
      using Nil(5) by auto
  qed
  then show ?case .
next
  case (Cons g' gs)
  obtain q1 c1 c2 where q1: "deleteConsecutive q (bi_End g) = (q1, c1)" "deleteBehind q1 (g' # gs) = (q', c2)"
      "called = c1 @ c2"
    using Cons.prems(3) by (auto split: prod.splits)
  have ok: "bi_Start g < bi_End g" "bi_End g < bi_Start g'" "bi_Start g' < bi_End g'" "bi_End g' < bi_Start h"
      "\<And>x. x \<in> gset gs \<Longrightarrow> bi_End g' < x"
    using Cons.prems(1) by (auto simp: gset_def)
  have run: "{bi_End g ..< bi_Start g'} \<subseteq> cov q \<or> {bi_End g ..< bi_Start g'} \<inter> cov q = {}"
    and rest: "{bi_End g' ..< bi_Start h} - gset gs \<subseteq> cov q"
    using Cons.prems(5) ok by fastforce+
  have one: "q_wf q1 \<and> cov q1 = cov q - {bi_End g ..< bi_Start g'} \<and> map_of q1 \<subseteq>\<^sub>m map_of q \<and> cbs q = mset c1 + cbs q1"
  proof (rule deleteConsecutive_run [OF Cons.prems(2) q1(1)])
    show "bi_End g < bi_Start g'" "bi_End g - 1 \<notin> cov q" "bi_Start g' \<notin> cov q"
      using ok Cons.prems(4) by fastforce+
  qed (rule run)
  have two: "q_wf q' \<and> cov q' = cov q1 - {bi_End g' ..< bi_Start h} \<and> map_of q' \<subseteq>\<^sub>m map_of q1 \<and> cbs q1 = mset c2 + cbs q'"
  proof (rule Cons.IH)
    show "gaps_ok (g' # gs @ [h])"
      using Cons.prems(1) by simp
    show "{bi_End (hd (g' # gs)) ..< bi_Start h} - gset gs \<subseteq> cov q1 \<or>
      {bi_End g' ..< bi_Start (hd (gs @ [h]))} \<inter> cov q1 = {} \<and>
      {bi_End (hd (gs @ [h])) ..< bi_Start h} - gset gs \<subseteq> cov q1"
      using rest one ok by fastforce
  qed (use q1 one Cons.prems(4) in auto)
  have "\<And>x. x \<in> cov q \<Longrightarrow> x < bi_Start g' \<or> bi_End g' \<le> x"
    using Cons.prems(4) by fastforce
  then have "cov q - {bi_End g ..< bi_Start g'} - {bi_End g' ..< bi_Start h} = cov q - {bi_End g ..< bi_Start h}"
    using ok(1-4) by fastforce
  then show ?case
    using one two q1(3) map_le_trans by auto
qed

section \<open>Finding the gaps\<close>

lemma findStartGap_from_law:
  "gaps_ok gs \<Longrightarrow> findStartGap_from n gs st = Ok (i, b) \<Longrightarrow> n \<le> i \<and> i < n + length gs \<and> st \<le> bi_End (gs ! (i - n))
     \<and> (b \<longleftrightarrow> bi_Start (gs ! (i - n)) \<le> st) \<and> (\<forall>k < i - n. bi_End (gs ! k) < st)"
proof (induction gs arbitrary: n)
  case (Cons g gs)
  show ?case
  proof (cases "bi_End g < st \<and> bi_Start g \<le> st")
    case True
    then have "findStartGap_from (Suc n) gs st = Ok (i, b)"
      using Cons.prems by (simp split: if_splits)
    from Cons.IH [OF _ this] show ?thesis
      using True Cons.prems(1) by (auto simp: nth_Cons' less_Suc_eq_0_disj)
  next
    case False
    then show ?thesis
      using Cons.prems by (auto split: if_splits)
  qed
qed simp

lemma findStartGap_law:
  assumes "findStartGap gs st = Ok (i, b)" "gaps_ok gs"
  shows "i < length gs" "st \<le> bi_End (gs ! i)" "b \<longleftrightarrow> bi_Start (gs ! i) \<le> st" "\<And>k. k < i \<Longrightarrow> bi_End (gs ! k) < st"
  using findStartGap_from_law [of gs 0 st i b] assms by (auto simp: findStartGap_def)

lemma findStartGap_Ok: "gs \<noteq> [] \<Longrightarrow> st \<le> bi_End (last gs) \<Longrightarrow> \<exists>i b. findStartGap_from n gs st = Ok (i, b)"
  by (induction gs arbitrary: n) (auto split: if_splits)

lemma findEndGap_from_law:
  "findEndGap_from n gs en = Ok (j, c) \<Longrightarrow>
     (if c then n \<le> j \<and> j < n + length gs \<and> bi_Start (gs ! (j - n)) \<le> en \<and> en < bi_End (gs ! (j - n))
      else n \<le> Suc j \<and> Suc j < n + length gs \<and> en < bi_Start (gs ! (Suc j - n)))
     \<and> (\<forall>k < (if c then j else Suc j) - n. bi_End (gs ! k) \<le> en)"
proof (induction gs arbitrary: n)
  case (Cons g gs)
  show ?case
  proof (cases "bi_End g \<le> en \<and> bi_Start g \<le> en")
    case True
    then have "findEndGap_from (Suc n) gs en = Ok (j, c)"
      using Cons.prems by (simp split: if_splits)
    from Cons.IH [OF this] show ?thesis
      using True by (auto simp: nth_Cons' less_Suc_eq_0_disj split: if_splits)
  next
    case False
    then show ?thesis
      using Cons.prems by (auto split: if_splits nat.splits)
  qed
qed simp

lemma findEndGap_law:
  assumes "findEndGap gs i en = Ok (j, c)" "i < length gs"
  shows "c \<Longrightarrow> i \<le> j \<and> j < length gs \<and> bi_Start (gs ! j) \<le> en \<and> en < bi_End (gs ! j)"
    "\<not> c \<Longrightarrow> i \<le> Suc j \<and> Suc j < length gs \<and> en < bi_Start (gs ! Suc j)"
    "\<And>k. i \<le> k \<Longrightarrow> k < (if c then j else Suc j) \<Longrightarrow> bi_End (gs ! k) \<le> en"
proof -
  note law = findEndGap_from_law [of i "drop i gs" en j c, folded findEndGap_def, OF assms(1)]
  show "c \<Longrightarrow> i \<le> j \<and> j < length gs \<and> bi_Start (gs ! j) \<le> en \<and> en < bi_End (gs ! j)"
    "\<not> c \<Longrightarrow> i \<le> Suc j \<and> Suc j < length gs \<and> en < bi_Start (gs ! Suc j)"
    using law assms(2) by auto
  show "bi_End (gs ! k) \<le> en" if "i \<le> k" "k < (if c then j else Suc j)" for k
  proof -
    have "k - i < (if c then j else Suc j) - i"
      using that by (auto split: if_splits)
    then have "bi_End (drop i gs ! (k - i)) \<le> en"
      using law by blast
    then show ?thesis
      using that(1) assms(2) by simp
  qed
qed

lemma findEndGap_from_Ok:
  "gs \<noteq> [] \<Longrightarrow> en < bi_End (last gs) \<Longrightarrow> 0 < n \<or> bi_Start (hd gs) \<le> en \<Longrightarrow> \<exists>j c. findEndGap_from n gs en = Ok (j, c)"
  by (induction gs arbitrary: n) (auto split: if_splits nat.splits)

section \<open>Changing the gaps\<close>

text \<open>The frame fills part of one gap, from \<open>a\<close> to \<open>f\<close>.\<close>

lemma fill_one_gap:
  assumes ok: "gaps_ok (xs @ g # ys)" and xs: "\<forall>x \<in> set xs. bi_End x < a"
    and f: "bi_Start g < f" "f \<le> bi_End g" "a < bi_End g" "a < f"
  defines "gs \<equiv> (if a \<le> bi_Start g then (if f = bi_End g then [] else [g\<lparr>bi_Start := f\<rparr>])
      else g\<lparr>bi_End := a\<rparr> # (if f = bi_End g then [] else [\<lparr>bi_Start = f, bi_End = bi_End g\<rparr>]))"
  shows "gaps_ok (xs @ gs @ ys)" "gset (xs @ gs @ ys) = gset (xs @ g # ys) - {a ..< f}"
    "\<forall>h \<in> set gs. bi_Start g \<le> bi_Start h"
proof -
  have x: "\<forall>x \<in> set xs. bi_End x < bi_Start g" "\<forall>x \<in> set xs. bi_End x < f"
    using ok f(1) by auto
  have y: "\<forall>y \<in> set ys. bi_End g < bi_Start y" "\<forall>y \<in> set ys. f < bi_Start y" "\<forall>y \<in> set ys. a < bi_Start y"
    using ok f(2,3) by auto
  show "gaps_ok (xs @ gs @ ys)" "\<forall>h \<in> set gs. bi_Start g \<le> bi_Start h"
    using ok f x y by (auto simp: gs_def)
  have "gset gs = {bi_Start g ..< bi_End g} - {a ..< f}"
    using f by (auto simp: gs_def)
  moreover have "\<forall>z \<in> gset xs. z < a" "\<forall>z \<in> gset ys. f < z"
    using xs y(2) by (fastforce simp: gset_def)+
  ultimately show "gset (xs @ gs @ ys) = gset (xs @ g # ys) - {a ..< f}"
    by auto
qed

text \<open>The frame starts at or before the end of the gap \<open>g\<close> and ends in or at the end of a later gap \<open>h\<close>.\<close>

lemma fill_many_gaps:
  assumes ok: "gaps_ok (xs @ g # bs @ h # ys)" and xs: "\<forall>x \<in> set xs. bi_End x < a"
    and f: "a \<le> bi_End g" "bi_Start h \<le> f" "f \<le> bi_End h"
  defines "gs \<equiv> (if a \<le> bi_Start g then [] else [g\<lparr>bi_End := a\<rparr>]) @ (if f = bi_End h then [] else [h\<lparr>bi_Start := f\<rparr>])"
  shows "gaps_ok (xs @ gs @ ys)" "gset (xs @ gs @ ys) = gset (xs @ g # bs @ h # ys) - {a ..< f}"
    "\<forall>x \<in> set gs. bi_Start g \<le> bi_Start x"
proof -
  have gh: "bi_End g < bi_Start h" "bi_Start g < bi_End g" "bi_Start h < bi_End h"
    using ok by simp_all
  have x: "\<forall>x \<in> set xs. bi_End x < bi_Start g" "\<forall>x \<in> set xs. bi_End x < f"
    using ok f(2) by auto
  have y: "\<forall>y \<in> set ys. f < bi_Start y" "\<forall>y \<in> set ys. a < bi_Start y" "\<forall>y \<in> set ys. bi_End h < bi_Start y"
    using ok f gh by auto
  have b: "\<forall>b \<in> set bs. bi_End g < bi_Start b" "\<forall>b \<in> set bs. bi_End b < bi_Start h"
    using ok by auto
  show "gaps_ok (xs @ gs @ ys)" "\<forall>x \<in> set gs. bi_Start g \<le> bi_Start x"
    using ok f x y gh by (auto simp: gs_def)
  have "gset gs = ({bi_Start g ..< bi_End g} \<union> {bi_Start h ..< bi_End h}) - {a ..< f}"
    using f gh by (auto simp: gs_def)
  moreover have "\<forall>z \<in> gset xs. z < a" "\<forall>z \<in> gset ys. f < z" "\<forall>z \<in> gset bs. a \<le> z \<and> z < f"
    using xs y(1) b f by (fastforce simp: gset_def)+
  ultimately show "gset (xs @ gs @ ys) = gset (xs @ g # bs @ h # ys) - {a ..< f}"
    by auto
qed

section \<open>The invariant\<close>

definition fso_ok :: "frameSorter \<Rightarrow> bool" where
  "fso_ok s \<longleftrightarrow> gaps_ok (fso_gaps s) \<and> fso_gaps s \<noteq> [] \<and> bi_End (last (fso_gaps s)) = MaxByteCount
     \<and> (\<forall>g \<in> set (fso_gaps s). fso_readPos s \<le> bi_Start g) \<and> 0 \<le> fso_readPos s
     \<and> q_wf (fso_queue s) \<and> cov (fso_queue s) = {fso_readPos s ..< MaxByteCount} - gset (fso_gaps s)"

lemma newFrameSorter_ok: "fso_ok newFrameSorter"
  by (auto simp: fso_ok_def newFrameSorter_def q_wf_def cov_def entry_at_def MaxByteCount_def)

lemma gaps_order: "gaps_ok gs \<Longrightarrow> k < l \<Longrightarrow> l < length gs \<Longrightarrow> bi_End (gs ! k) < bi_Start (gs ! l)"
  by (simp add: gaps_ok_def sorted_wrt_iff_nth_less)

lemma gaps_nonempty: "gaps_ok gs \<Longrightarrow> k < length gs \<Longrightarrow> bi_Start (gs ! k) < bi_End (gs ! k)"
  by (simp add: gaps_ok_def)

lemma gaps_last: "gaps_ok gs \<Longrightarrow> k < length gs \<Longrightarrow> bi_End (gs ! k) \<le> bi_End (last gs)"
proof -
  assume gs: "gaps_ok gs" "k < length gs"
  then have l: "last gs = gs ! (length gs - 1)"
    by (intro last_conv_nth) auto
  show ?thesis
  proof (cases "k = length gs - 1")
    case False
    then have k: "k < length gs - 1" "length gs - 1 < length gs"
      using gs(2) by linarith+
    then show ?thesis
      using gaps_order [OF gs(1) k] gaps_nonempty [OF gs(1) k(2)] unfolding l by linarith
  qed (simp add: l)
qed

lemma in_gset: "x \<in> gset gs \<longleftrightarrow> (\<exists>k < length gs. bi_Start (gs ! k) \<le> x \<and> x < bi_End (gs ! k))"
  by (auto simp: gset_def set_conv_nth)

lemma not_in_gset:
  assumes "gaps_ok gs" "\<And>k. k < i \<Longrightarrow> bi_End (gs ! k) \<le> x" "i < length gs \<Longrightarrow> x < bi_Start (gs ! i)"
  shows "x \<notin> gset gs"
proof
  assume "x \<in> gset gs"
  then obtain k where k: "k < length gs" "bi_Start (gs ! k) \<le> x" "x < bi_End (gs ! k)"
    by (auto simp: in_gset)
  then have "i \<le> k"
    using assms(2) [of k] by force
  then show False
    using k assms(3) gaps_order [OF assms(1), of i k] gaps_nonempty [OF assms(1), of i] by (cases "i = k") auto
qed

lemma entry_upto:
  assumes "map_of q k = Some e" "x \<notin> cov q" "k < x"
  shows "k + int (length (fse_Data e)) \<le> x"
proof (rule ccontr)
  assume "\<not> k + int (length (fse_Data e)) \<le> x"
  then have "x \<in> {k ..< k + int (length (fse_Data e))}"
    using assms(3) by simp
  then show False
    using entry_cov [OF assms(1)] assms(2) by blast
qed

text \<open>A run of received bytes between two positions that are not queued is a chain of frames.\<close>

lemma replace_run:
  assumes q: "q_wf q" "replaceFrames q st en False = (q', has, stop, called)" "st \<le> en"
    and st: "map_of q st \<noteq> None" and run: "st < b" "{st ..< b} \<subseteq> cov q" "b \<notin> cov q"
    and st_en: "stop = None \<or> has"
  shows "(stop = None \<and> has \<and> b \<le> en \<and> chain q st b q'
      \<or> (\<exists>t. stop = Some t \<and> has \<and> st < t \<and> t \<le> en \<and> en < b \<and> chain q st t q'))
    \<and> cbs q = mset called + cbs q'"
proof -
  obtain t where t: "chain q st t q'" "t \<le> en" "has \<longleftrightarrow> st < t" "cbs q = mset called + cbs q'"
    and stop: "case stop of None \<Rightarrow> map_of q t = None
        | Some p \<Rightarrow> p = t \<and> (\<exists>e. map_of q t = Some e \<and> en \<le> t + int (length (fse_Data e))
            \<and> (has \<longrightarrow> en < t + int (length (fse_Data e))))"
    using replaceFrames_chain [OF q] by auto
  have c: "st \<le> t" "{st ..< t} \<subseteq> cov q"
    using t(1) by (simp_all add: chain_def)
  have tb: "t \<le> b"
    using c(2) run(1,3) by (meson atLeastLessThan_iff less_imp_le not_le subsetD)
  show ?thesis
  proof (cases stop)
    case None
    then have n: "map_of q t = None"
      using stop by simp
    then have "t \<notin> cov q"
      using chain_end [OF q(1) t(1)] st by blast
    then have "t = b"
      using tb c(1) run(2) by (metis atLeastLessThan_iff le_less subsetD)
    then show ?thesis
      using None t run(1) by auto
  next
    case (Some p)
    then obtain e where e: "p = t" "map_of q t = Some e" "has" "en < t + int (length (fse_Data e))"
      using stop st_en by auto
    have "t \<noteq> b"
      using entry_at_key [OF q(1) e(2)] run(3) by (auto simp: cov_def)
    then have "t + int (length (fse_Data e)) \<le> b"
      using entry_upto [OF e(2) run(3)] tb by simp
    then show ?thesis
      using Some e t by auto
  qed
qed

definition starts_at :: "byteInterval list \<Rightarrow> ByteCount \<Rightarrow> nat \<Rightarrow> bool" where
  "starts_at gs st i \<longleftrightarrow> i < length gs \<and> st \<le> bi_End (gs ! i) \<and> (\<forall>k < i. bi_End (gs ! k) < st)"

lemma gap_end_queued:
  assumes ok: "fso_ok s" and i: "i < length (fso_gaps s)" "bi_End (fso_gaps s ! i) < MaxByteCount"
  shows "Suc i < length (fso_gaps s)" "map_of (fso_queue s) (bi_End (fso_gaps s ! i)) \<noteq> None"
    "{bi_End (fso_gaps s ! i) ..< bi_Start (fso_gaps s ! Suc i)} \<subseteq> cov (fso_queue s)"
    "bi_Start (fso_gaps s ! Suc i) \<notin> cov (fso_queue s)"
proof -
  let ?gs = "fso_gaps s"
  have gs: "gaps_ok ?gs" "bi_End (last ?gs) = MaxByteCount" "?gs \<noteq> []" "\<And>k. k < length ?gs \<Longrightarrow> fso_readPos s \<le> bi_Start (?gs ! k)"
    and cv: "cov (fso_queue s) = {fso_readPos s ..< MaxByteCount} - gset ?gs"
    using ok by (simp_all add: fso_ok_def)
  show si: "Suc i < length ?gs"
  proof (rule ccontr)
    assume "\<not> Suc i < length ?gs"
    then have "?gs ! i = last ?gs"
      using i(1) gs(3) by (metis last_conv_nth Suc_lessI diff_Suc_1)
    then show False
      using i(2) gs(2) by simp
  qed
  note ne = gaps_nonempty [OF gs(1)] and order = gaps_order [OF gs(1)]
  show "bi_Start (?gs ! Suc i) \<notin> cov (fso_queue s)"
    using si ne [OF si] by (auto simp: cv in_gset)
  have le: "bi_End (?gs ! k) \<le> bi_End (?gs ! i)" if "k < Suc i" for k
    using that order [of k i] ne [of i] i(1) by (cases "k = i") auto
  have max: "bi_Start (?gs ! Suc i) < MaxByteCount"
    using ne [OF si] gaps_last [OF gs(1) si] gs(2) by simp
  have "x \<notin> gset ?gs" if "bi_End (?gs ! i) \<le> x" "x < bi_Start (?gs ! Suc i)" for x
    using le that by (intro not_in_gset [OF gs(1), of "Suc i"]) fastforce+
  then show sub: "{bi_End (?gs ! i) ..< bi_Start (?gs ! Suc i)} \<subseteq> cov (fso_queue s)"
    using gs(4) [OF i(1)] ne [OF i(1)] max unfolding cv by auto
  show "map_of (fso_queue s) (bi_End (?gs ! i)) \<noteq> None"
  proof (rule starts_there)
    show "bi_End (?gs ! i) \<in> cov (fso_queue s)"
      using sub order [OF _ si, of i] by auto
    show "bi_End (?gs ! i) - 1 \<notin> cov (fso_queue s)"
      using i(1) ne [OF i(1)] by (auto simp: cv in_gset)
  qed
qed

text \<open>What the first loop of \<^verbatim>\<open>push\<close> does, by where the frame starts.\<close>

lemma replace_cases:
  assumes ok: "fso_ok s" and i: "starts_at (fso_gaps s) st i" and en: "bi_Start (fso_gaps s ! i) < en" "st < en" "en < MaxByteCount"
    and r: "replaceFrames (fso_queue s) st en False = (q, has, stop, called)" and ns: "stop = None \<or> has"
  obtains (fresh) "\<not> has" "stop = None" "q = fso_queue s" "called = []" "st < bi_End (fso_gaps s ! i)"
  | (before) "has" "stop = None" "fso_readPos s \<le> st" "st < bi_Start (fso_gaps s ! i)"
      "chain (fso_queue s) st (bi_Start (fso_gaps s ! i)) q" "cbs (fso_queue s) = mset called + cbs q"
  | (behind) "has" "stop = None" "st = bi_End (fso_gaps s ! i)" "Suc i < length (fso_gaps s)"
      "bi_Start (fso_gaps s ! Suc i) \<le> en"
      "chain (fso_queue s) st (bi_Start (fso_gaps s ! Suc i)) q" "cbs (fso_queue s) = mset called + cbs q"
  | (cut) t where "has" "stop = Some t" "st = bi_End (fso_gaps s ! i)" "Suc i < length (fso_gaps s)"
      "st < t" "t \<le> en" "en < bi_Start (fso_gaps s ! Suc i)"
      "chain (fso_queue s) st t q" "cbs (fso_queue s) = mset called + cbs q"
proof -
  let ?gs = "fso_gaps s" and ?q = "fso_queue s"
  have gs: "gaps_ok ?gs" "\<And>k. k < length ?gs \<Longrightarrow> fso_readPos s \<le> bi_Start (?gs ! k)" and qw: "q_wf ?q"
    and cv: "cov ?q = {fso_readPos s ..< MaxByteCount} - gset ?gs"
    using ok by (simp_all add: fso_ok_def)
  have il: "i < length ?gs" "st \<le> bi_End (?gs ! i)" "\<And>k. k < i \<Longrightarrow> bi_End (?gs ! k) < st"
    using i by (simp_all add: starts_at_def)
  show thesis
  proof (cases "map_of ?q st")
    case None
    then have "q = ?q" "\<not> has" "stop = None" "called = []"
      using r by (simp_all add: replaceFrames.simps [of ?q st])
    moreover have "st \<noteq> bi_End (?gs ! i)"
      using None gap_end_queued(2) [OF ok il(1)] en by auto
    ultimately show thesis
      using fresh il(2) by simp
  next
    case (Some e)
    have st: "st \<in> cov ?q"
      using entry_at_key [OF qw Some] by (auto simp: cov_def)
    then have "fso_readPos s \<le> st" "\<not> (bi_Start (?gs ! i) \<le> st \<and> st < bi_End (?gs ! i))"
      using il(1) by (auto simp: cv in_gset)
    then consider "st < bi_Start (?gs ! i)" | "st = bi_End (?gs ! i)"
      using il(2) by linarith
    then show thesis
    proof cases
      case 1
      have sub: "{st ..< bi_Start (?gs ! i)} \<subseteq> cov ?q"
      proof
        fix x assume x: "x \<in> {st ..< bi_Start (?gs ! i)}"
        have "x \<notin> gset ?gs"
          using x il(3) by (intro not_in_gset [OF gs(1), of i]) fastforce+
        then show "x \<in> cov ?q"
          using x en \<open>fso_readPos s \<le> st\<close> unfolding cv by auto
      qed
      have "bi_Start (?gs ! i) \<notin> cov ?q"
        using il(1) gaps_nonempty [OF gs(1) il(1)] by (auto simp: cv in_gset)
      from replace_run [OF qw r _ _ 1 sub this ns] show thesis
        using before 1 Some en \<open>fso_readPos s \<le> st\<close> by fastforce
    next
      case 2
      then have e: "bi_End (?gs ! i) < MaxByteCount"
        using en by simp
      note g = gap_end_queued [OF ok il(1) e]
      from replace_run [OF qw r _ _ _ g(3) [folded 2] g(4) ns] show thesis
        using behind cut 2 Some g(1) gaps_order [OF gs(1) _ g(1), of i] en by fastforce
    qed
  qed
qed

section \<open>Storing the frame\<close>

lemma store_entry:
  assumes q: "q_wf q" and e: "fse_Data e \<noteq> []" "{a ..< a + int (length (fse_Data e))} \<inter> cov q = {}"
  shows "q_wf (AList.update a e q)" "cov (AList.update a e q) = cov q \<union> {a ..< a + int (length (fse_Data e))}"
    "map_of (AList.update a e q) = (map_of q)(a \<mapsto> e)" "cbs (AList.update a e q) = cbs q + mset (callCb (fse_DoneCb e))"
proof -
  let ?l = "int (length (fse_Data e))"
  have "a \<in> {a ..< a + ?l}"
    using e(1) by simp
  then have a: "a \<notin> cov q"
    using e(2) by blast
  then have none: "map_of q a = None"
    by (rule key_in_cov [OF q])
  show m: "map_of (AList.update a e q) = (map_of q)(a \<mapsto> e)"
    by (rule update_conv')
  have at: "entry_at (AList.update a e q) k x \<longleftrightarrow> (if k = a then x \<in> {a ..< a + ?l} else entry_at q k x)" for k x
    by (auto simp: entry_at_def m)
  have na: "\<not> entry_at q a x" for x
    using none by (simp add: entry_at_def)
  show cv: "cov (AList.update a e q) = cov q \<union> {a ..< a + ?l}"
  proof (rule set_eqI)
    fix x
    show "x \<in> cov (AList.update a e q) \<longleftrightarrow> x \<in> cov q \<union> {a ..< a + ?l}"
      using na unfolding cov_def mem_Collect_eq at Un_iff by (metis (full_types))
  qed
  have "k = l" if "entry_at (AList.update a e q) k x" "entry_at (AList.update a e q) l x" for k l x
  proof -
    have "x \<notin> cov q" if "x \<in> {a ..< a + ?l}"
      using that e(2) by blast
    then show ?thesis
      using that entry_unique [OF q, of k x l] unfolding at cov_def by (auto split: if_splits)
  qed
  moreover have "fse_Data f \<noteq> []" if "map_of (AList.update a e q) k = Some f" for k f
    using that e(1) entry_pos [OF q, of k f] by (auto simp: m split: if_splits)
  ultimately show "q_wf (AList.update a e q)"
    using distinct_update [of q a e] q unfolding q_wf_def by blast
  have "AList.update a e q = q @ [(a, e)]"
    using none by (induction q) auto
  then show "cbs (AList.update a e q) = cbs q + mset (callCb (fse_DoneCb e))"
    by (simp add: cbs_def)
qed

text \<open>
  The new frame covers \<open>a\<close> to \<open>f\<close>: what it covers is taken from the gaps, and the queued
  frames it overlaps have been removed and lie within it.
\<close>

lemma fso_ok_store:
  assumes ok: "fso_ok s" and q: "q_wf q" "cov q \<subseteq> cov (fso_queue s)" "cov (fso_queue s) - cov q \<subseteq> {a ..< f}" "{a ..< f} \<inter> cov q = {}"
    and g: "gaps_ok gs" "gset gs = gset (fso_gaps s) - {a ..< f}" "gs \<noteq> []" "bi_End (last gs) = MaxByteCount"
      "\<forall>x \<in> set gs. fso_readPos s \<le> bi_Start x"
    and a: "fso_readPos s \<le> a" "a < f" "f \<le> MaxByteCount" and d: "int (length (fse_Data e)) = f - a"
  shows "fso_ok (s\<lparr>fso_gaps := gs, fso_queue := AList.update a e q, fso_called := called\<rparr>)"
proof -
  have l: "a + int (length (fse_Data e)) = f" "fse_Data e \<noteq> []"
    using d a(2) by auto
  note st = store_entry [OF q(1) l(2), of a, unfolded l(1), OF q(4)]
  have "cov q \<union> {a ..< f} = {fso_readPos s ..< MaxByteCount} - (gset (fso_gaps s) - {a ..< f})"
    using q(2,3) a ok unfolding fso_ok_def by auto
  then show ?thesis
    using ok g st(1,2) by (simp add: fso_ok_def)
qed

lemma split_one: "i < length gs \<Longrightarrow> \<exists>xs ys. length xs = i \<and> gs = xs @ gs ! i # ys"
  using id_take_nth_drop [of i gs] by (metis length_take min.absorb2 less_imp_le)

lemma split_two:
  assumes "i < j" "j < length gs"
  shows "\<exists>xs bs ys. length xs = i \<and> length bs = j - Suc i \<and> gs = xs @ gs ! i # bs @ gs ! j # ys"
proof -
  obtain xs g zs where xs: "length xs = i" and gs: "gs = xs @ g # zs"
    using split_one [of i gs] assms by auto
  have "j - Suc i < length zs"
    using assms xs by (simp add: gs)
  then obtain bs h ys where bs: "length bs = j - Suc i" and zs: "zs = bs @ h # ys"
    using split_one [of "j - Suc i" zs] by auto
  have "gs ! i = g" "gs ! j = h"
    using assms(1) xs bs by (simp_all add: gs zs nth_append)
  then show ?thesis
    using xs bs gs zs by metis
qed

lemma delete_phase:
  assumes ok: "fso_ok s" and gs: "fso_gaps s = xs @ g # bs @ h # ys" and q: "q_wf q"
    and cq: "cov q = cov (fso_queue s) - {u ..< v}" "v \<le> bi_Start g \<or> u = bi_End g \<and> v = bi_Start (hd (bs @ [h]))"
    and d: "deleteBehind q (g # bs) = (q', called)"
  shows "q_wf q' \<and> cov q' = cov q - {bi_End g ..< bi_Start h} \<and> map_of q' \<subseteq>\<^sub>m map_of q \<and> cbs q = mset called + cbs q'"
proof (rule deleteBehind_runs [OF _ q d])
  have g: "gaps_ok (fso_gaps s)" "fso_readPos s \<le> bi_Start g" "bi_End (last (fso_gaps s)) = MaxByteCount"
    and cv: "cov (fso_queue s) = {fso_readPos s ..< MaxByteCount} - gset (fso_gaps s)"
    using ok by (simp_all add: fso_ok_def gs)
  show "gaps_ok (g # bs @ [h])"
    using g(1) by (simp add: gs)
  show "cov q \<inter> gset (g # bs @ [h]) = {}"
    using cq(1) cv by (auto simp: gs)
  have "h \<in> set (fso_gaps s)"
    by (simp add: gs)
  then have h: "bi_End h \<le> MaxByteCount"
    using gaps_last [OF g(1)] g(3) by (metis in_set_conv_nth)
  have o: "bi_Start g < bi_End g" "bi_End g < bi_Start h" "bi_Start h < bi_End h"
    and ox: "\<And>x. x \<in> gset xs \<Longrightarrow> x < bi_Start g" and oy: "\<And>y. y \<in> gset ys \<Longrightarrow> bi_End h < y"
    and ob: "\<And>b. b \<in> set bs \<Longrightarrow> bi_End g < bi_Start b \<and> bi_Start b < bi_End b"
    using g(1) by (auto simp: gs gset_def gaps_ok_def sorted_wrt_append)
  have sub: "{bi_End g ..< bi_Start h} - gset bs \<subseteq> cov (fso_queue s)"
  proof
    fix x assume x: "x \<in> {bi_End g ..< bi_Start h} - gset bs"
    then have "x \<notin> gset (fso_gaps s)"
      using o ox [of x] oy [of x] by (auto simp: gs)
    then show "x \<in> cov (fso_queue s)"
      using x o g(2) h by (auto simp: cv)
  qed
  have hdg: "bi_End g < bi_Start (hd (bs @ [h]))" "bi_Start (hd (bs @ [h])) < bi_End (hd (bs @ [h]))"
    using o ob by (cases bs; simp)+
  show "{bi_End (hd (g # bs)) ..< bi_Start h} - gset bs \<subseteq> cov q \<or>
    {bi_End g ..< bi_Start (hd (bs @ [h]))} \<inter> cov q = {} \<and> {bi_End (hd (bs @ [h])) ..< bi_Start h} - gset bs \<subseteq> cov q"
    using cq(2)
  proof
    assume "v \<le> bi_Start g"
    then show ?thesis
      using sub o unfolding cq(1) by fastforce
  next
    assume "u = bi_End g \<and> v = bi_Start (hd (bs @ [h]))"
    then show ?thesis
      using sub hdg unfolding cq(1) by fastforce
  qed
qed

end
