(* ===== verification/FrameSorterPush.thy ===== *)
theory FrameSorterPush
  imports Reassembly
begin

text \<open>
  The correctness of \<^verbatim>\<open>frameSorter.push\<close> (\<^verbatim>\<open>src/frame_sorter.go\<close>): on every path that stores a frame, the
  invariant of the frame sorter is kept, all missing bytes of the frame are stored, and
  every callback is either called or kept exactly once.
\<close>

lemma push_eval:
  assumes d: "dat \<noteq> []" and g: "fso_gaps s = front # gtl" "bi_Start front < st + int (length dat)"
    and i: "findStartGap (fso_gaps s) st = Ok (i, b)"
    and j: "findEndGap (fso_gaps s) i (st + int (length dat)) = Ok (j, c)"
    and nd: "bi_Start (fso_gaps s ! i) < st + int (length dat)"
    and r: "replaceFrames (fso_queue s) st (st + int (length dat)) False = (q, has, None, called)"
    and a: "a = (if \<not> b \<and> \<not> has then bi_Start (fso_gaps s ! i) else st)" "st \<le> a" "a < st + int (length dat)"
    and f: "f = (if \<not> c \<and> a \<noteq> bi_End (fso_gaps s ! j) \<and> bi_End (fso_gaps s ! j) < st + int (length dat)
        then bi_End (fso_gaps s ! j) else st + int (length dat))" "a \<le> f" "f \<le> st + int (length dat)"
    and bt: "between = (if i = j then [] else takeWhile (\<lambda>gap. bi_End gap < bi_Start (fso_gaps s ! j)) (drop (Suc i) (fso_gaps s)))"
    and rest: "rest = drop (Suc i + length between) (fso_gaps s)" "i \<noteq> j \<Longrightarrow> rest \<noteq> []"
    and del: "(if i = j then (q, []) else deleteBehind q (fso_gaps s ! i # between)) = (q2, called2)"
    and gs: "gs = take i (fso_gaps s) @
       (let gi = fso_gaps s ! i; gj = fso_gaps s ! j; en = st + int (length dat);
            gi' = (if a \<le> bi_Start gi then (if en \<ge> bi_End gi then [] else [gi\<lparr>bi_Start := en\<rparr>])
                   else if \<not> has then [gi\<lparr>bi_End := a\<rparr>] else [gi])
        in if i = j then gi' @ (if f \<noteq> bi_End gj \<and> bi_Start gi < a \<and> \<not> has then [\<lparr>bi_Start = f, bi_End = bi_End gi\<rparr>] else []) @ rest
           else gi' @ take (j - (Suc i + length between)) rest @ (if f = bi_End gj then [] else [gj\<lparr>bi_Start := f\<rparr>])
             @ drop (Suc (j - (Suc i + length between))) rest)"
  shows "\<exists>cut. frameSorter_push s dat st doneCb =
     (let s3 = s\<lparr>fso_queue := q2, fso_gaps := gs, fso_called := fso_called s @ called @ called2 @ (if cut then callCb doneCb else [])\<rparr>
      in if length gs > MaxStreamFrameSorterGaps then (s3, Err (ErrorString ''too many gaps in received data''))
         else (s3\<lparr>fso_queue := AList.update a \<lparr>fse_Data = take (nat (f - a)) (drop (nat (a - st)) dat),
                 fse_DoneCb = (if cut then None else doneCb)\<rparr> q2\<rparr>, Ok ()))"
proof -
  let ?en = "st + int (length dat)"
  let ?gi = "fso_gaps s ! i" and ?gj = "fso_gaps s ! j"
  have nn: "\<not> (i = j \<and> ?en \<le> bi_Start ?gi \<or> i \<noteq> j \<and> bi_End ?gi \<ge> bi_Start ?gj \<and> ?en \<le> bi_Start ?gi)"
    using nd by auto
  have front: "\<not> ?en \<le> bi_Start front"
    using g by simp
  have s1: "slice_from dat (bi_Start ?gi - st) = Ok (drop (nat (a - st)) dat)" if "\<not> b \<and> \<not> has"
    using that a by (auto simp: slice_from_def)
  have s2: "slice_to (drop (nat (a - st)) dat) (bi_End ?gj - a) = Ok (take (nat (f - a)) (drop (nat (a - st)) dat))"
    if "\<not> c \<and> a \<noteq> bi_End ?gj \<and> bi_End ?gj < ?en"
    using that a f by (auto simp: slice_to_def)
  have s3: "take (nat (f - a)) (drop (nat (a - st)) dat) = drop (nat (a - st)) dat" if "f = ?en"
    using that a by simp
  have cs: "case_list X Y (fso_gaps s) = Y front gtl" for X and Y :: "_ \<Rightarrow> _ \<Rightarrow> frameSorter \<times> unit outcome"
    by (simp add: g(1))
  have cut1: "(case None of None \<Rightarrow> Ok (dat, ?en, False) | Some pos \<Rightarrow> X pos) = Ok (dat, ?en, False)" for X
    by simp
  define D where "D = drop (nat (a - st)) dat"
  have stage1: "(if \<not> b \<and> \<not> has then bindr (slice_from dat (bi_Start ?gi - st)) (\<lambda>d. Ok (d, bi_Start ?gi, ?en, True))
      else Ok (dat, st, ?en, False)) = Ok (D, a, ?en, \<not> b \<and> \<not> has)"
    using s1 a by (auto simp: D_def)
  have stage2: "(if \<not> c \<and> a \<noteq> bi_End ?gj \<and> ?en > bi_End ?gj
      then bindr (slice_to D (bi_End ?gj - a)) (\<lambda>d. Ok (d, bi_End ?gj, True)) else Ok (D, ?en, w))
      = Ok (take (nat (f - a)) D, f, w \<or> (\<not> c \<and> a \<noteq> bi_End ?gj \<and> ?en > bi_End ?gj))" for w
    using s2 s3 f by (auto simp: D_def)
  let ?s1 = "s\<lparr>fso_queue := q, fso_called := fso_called s @ called\<rparr>"
  have del': "(if i = j then (fso_queue ?s1, []) else case deleteConsecutive (fso_queue ?s1) (bi_End ?gi) of (q, c) \<Rightarrow>
      case deleteBehind q between of (q, c') \<Rightarrow> (q, c @ c')) = (q2, called2)"
    using del by (simp split: if_splits prod.splits)
  have rr: "(i \<noteq> j \<and> rest = []) = False"
    using rest(2) by auto
  let ?cut = "((\<not> b \<and> \<not> has) \<or> (\<not> c \<and> a \<noteq> bi_End ?gj \<and> ?en > bi_End ?gj)) \<and> length (take (nat (f - a)) D) < MinStreamFrameBufferSize"
  show ?thesis
    unfolding frameSorter_push_def Let_def cs
    apply (rule exI [of _ ?cut])
    apply (simp only: front nn d i j r length_0_conv bindr.simps outcome.case prod.case simp_thms if_False cut1 stage1
      bt [symmetric] rest(1) [symmetric] frameSorter.simps rr)
    apply (unfold frameSorter.simps del' prod.case stage2 outcome.case gs [unfolded Let_def, symmetric] D_def [symmetric])
    apply simp
    done
qed

lemma push_eval_cut:
  assumes d: "dat \<noteq> []" and g: "fso_gaps s = front # gtl" "bi_Start front < st + int (length dat)"
    and i: "findStartGap (fso_gaps s) st = Ok (i, b)" "i < length (fso_gaps s)" "bi_Start (fso_gaps s ! i) < bi_End (fso_gaps s ! i)"
    and j: "findEndGap (fso_gaps s) i (st + int (length dat)) = Ok (i, c)"
    and st: "st = bi_End (fso_gaps s ! i)"
    and r: "replaceFrames (fso_queue s) st (st + int (length dat)) False = (q, True, Some t, called)"
    and t: "st < t" "t \<le> st + int (length dat)"
  shows "\<exists>cut. frameSorter_push s dat st doneCb =
     (let s3 = s\<lparr>fso_queue := q, fso_gaps := fso_gaps s, fso_called := fso_called s @ called @ (if cut then callCb doneCb else [])\<rparr>
      in if length (fso_gaps s) > MaxStreamFrameSorterGaps then (s3, Err (ErrorString ''too many gaps in received data''))
         else (s3\<lparr>fso_queue := AList.update st \<lparr>fse_Data = take (nat (t - st)) (drop (nat (st - st)) dat),
                 fse_DoneCb = (if cut then None else doneCb)\<rparr> q\<rparr>, Ok ()))"
proof -
  let ?en = "st + int (length dat)" and ?gi = "fso_gaps s ! i"
  have nn: "\<not> (i = i \<and> ?en \<le> bi_Start ?gi \<or> i \<noteq> i \<and> bi_End ?gi \<ge> bi_Start ?gi \<and> ?en \<le> bi_Start ?gi)"
    using st i(3) by simp
  have front: "\<not> ?en \<le> bi_Start front"
    using g by simp
  have cs: "case_list X Y (fso_gaps s) = Y front gtl" for X and Y :: "_ \<Rightarrow> _ \<Rightarrow> frameSorter \<times> unit outcome"
    by (simp add: g(1))
  have sl: "slice_to dat (t - st) = Ok (take (nat (t - st)) dat)"
    using t by (simp add: slice_to_def)
  have sg: "\<not> st \<le> bi_Start ?gi" "st \<noteq> bi_End ?gi \<longleftrightarrow> False"
    using st i(3) by simp_all
  have gs: "take i (fso_gaps s) @ ?gi # drop (Suc i) (fso_gaps s) = fso_gaps s"
    using i(2) by (rule id_take_nth_drop [symmetric])
  have en: "\<not> ?en \<le> bi_Start ?gi"
    using st i(3) by simp
  let ?cut = "length (take (nat (t - st)) dat) < MinStreamFrameBufferSize"
  show ?thesis
    unfolding frameSorter_push_def Let_def cs
    apply (rule exI [of _ ?cut])
    apply (simp only: front en d i(1) j r length_0_conv bindr.simps outcome.case prod.case simp_thms if_False if_True option.case
        option.distinct sl sg append_Nil append_Cons list.size add_0_right gs)
    apply (simp del: length_take)
    done
qed

definition consistent :: "(ByteCount \<Rightarrow> byte) \<Rightarrow> fs_queue \<Rightarrow> bool" where
  "consistent str q \<longleftrightarrow> (\<forall>k e n. map_of q k = Some e \<longrightarrow> n < length (fse_Data e) \<longrightarrow> fse_Data e ! n = str (k + int n))"

text \<open>
  What a call of \<^verbatim>\<open>push\<close> has to achieve when it stores a frame: the part of the data from
  \<open>a\<close> to \<open>f\<close> contains all bytes that were missing, and is no longer missing.
\<close>

definition stored :: "frameSorter \<Rightarrow> byte list \<Rightarrow> ByteCount \<Rightarrow> nat option \<Rightarrow> frameSorter \<Rightarrow> unit outcome \<Rightarrow> bool" where
  "stored s dat st doneCb s' r \<longleftrightarrow> (\<exists>a f q cb. st \<le> a \<and> a < f \<and> f \<le> st + int (length dat)
     \<and> {st ..< st + int (length dat)} \<inter> gset (fso_gaps s) \<subseteq> {a ..< f}
     \<and> gset (fso_gaps s') = gset (fso_gaps s) - {a ..< f} \<and> fso_readPos s' = fso_readPos s
     \<and> (if length (fso_gaps s') > MaxStreamFrameSorterGaps then r = Err (ErrorString ''too many gaps in received data'')
        else r = Ok () \<and> fso_ok s' \<and> map_of q \<subseteq>\<^sub>m map_of (fso_queue s)
          \<and> map_of (fso_queue s') = (map_of q)(a \<mapsto> \<lparr>fse_Data = take (nat (f - a)) (drop (nat (a - st)) dat), fse_DoneCb = cb\<rparr>)
          \<and> mset (fso_called s') + cbs (fso_queue s') = mset (fso_called s) + cbs (fso_queue s) + mset (callCb doneCb)))"

lemma storedI:
  assumes ok: "fso_ok s" and q: "q_wf q" "cov q \<subseteq> cov (fso_queue s)" "cov (fso_queue s) - cov q \<subseteq> {a ..< f}" "{a ..< f} \<inter> cov q = {}"
      "map_of q \<subseteq>\<^sub>m map_of (fso_queue s)" "cbs (fso_queue s) = mset called + cbs q"
    and g: "gaps_ok gs" "gset gs = gset (fso_gaps s) - {a ..< f}" "gs \<noteq> []" "bi_End (last gs) = MaxByteCount"
      "\<forall>x \<in> set gs. fso_readPos s \<le> bi_Start x"
    and a: "fso_readPos s \<le> a" "a < f" "f \<le> MaxByteCount" "st \<le> a" "f \<le> st + int (length dat)"
      "{st ..< st + int (length dat)} \<inter> gset (fso_gaps s) \<subseteq> {a ..< f}"
    and r: "frameSorter_push s dat st doneCb =
     (let s3 = s\<lparr>fso_queue := q, fso_gaps := gs, fso_called := fso_called s @ called @ (if copied then callCb doneCb else [])\<rparr>
      in if length gs > MaxStreamFrameSorterGaps then (s3, Err (ErrorString ''too many gaps in received data''))
         else (s3\<lparr>fso_queue := AList.update a \<lparr>fse_Data = take (nat (f - a)) (drop (nat (a - st)) dat),
                 fse_DoneCb = (if copied then None else doneCb)\<rparr> q\<rparr>, Ok ()))"
      "frameSorter_push s dat st doneCb = (s', r)"
  shows "stored s dat st doneCb s' r"
proof -
  define e where "e = \<lparr>fse_Data = take (nat (f - a)) (drop (nat (a - st)) dat), fse_DoneCb = (if copied then None else doneCb)\<rparr>"
  have d: "int (length (fse_Data e)) = f - a"
    using a by (simp add: e_def)
  then have l: "a + int (length (fse_Data e)) = f" "fse_Data e \<noteq> []"
    using a(2) by auto
  note st = store_entry [OF q(1) l(2), of a, unfolded l(1), OF q(4)]
  show ?thesis
  proof (cases "length gs > MaxStreamFrameSorterGaps")
    case True
    then show ?thesis
      using r a g(2) unfolding stored_def by (intro exI [of _ a] exI [of _ f]) (auto simp: Let_def)
  next
    case False
    then have s': "r = Ok ()" "s' = s\<lparr>fso_gaps := gs, fso_queue := AList.update a e q,
        fso_called := fso_called s @ called @ (if copied then callCb doneCb else [])\<rparr>"
      using r by (simp_all add: Let_def e_def)
    have "fso_ok s'"
      unfolding s'(2) by (rule fso_ok_store [OF ok q(1-4) g a(1-3) d])
    moreover have "mset (callCb doneCb) = mset (if copied then callCb doneCb else []) + mset (callCb (fse_DoneCb e))"
      by (simp add: e_def)
    ultimately show ?thesis
      using False s' a g(2) q(5,6) st(3,4) unfolding stored_def
      by (intro exI [of _ a] exI [of _ f] exI [of _ q] exI [of _ "if copied then None else doneCb"]) (auto simp: e_def)
  qed
qed

definition push_ctx :: "frameSorter \<Rightarrow> byte list \<Rightarrow> ByteCount \<Rightarrow> nat \<Rightarrow> bool \<Rightarrow> nat \<Rightarrow> bool \<Rightarrow> bool" where
  "push_ctx s dat st i b j c \<longleftrightarrow> fso_ok s \<and> dat \<noteq> [] \<and> 0 \<le> st \<and> st + int (length dat) < MaxByteCount
     \<and> bi_Start (hd (fso_gaps s)) < st + int (length dat)
     \<and> findStartGap (fso_gaps s) st = Ok (i, b) \<and> findEndGap (fso_gaps s) i (st + int (length dat)) = Ok (j, c)
     \<and> bi_Start (fso_gaps s ! i) < st + int (length dat)"

lemma push_ctxD:
  assumes "push_ctx s dat st i b j c"
  shows "fso_ok s" "starts_at (fso_gaps s) st i" "b \<longleftrightarrow> bi_Start (fso_gaps s ! i) \<le> st" "i \<le> j" "j < length (fso_gaps s)"
    "c \<Longrightarrow> bi_Start (fso_gaps s ! j) \<le> st + int (length dat) \<and> st + int (length dat) < bi_End (fso_gaps s ! j)"
    "\<not> c \<Longrightarrow> bi_End (fso_gaps s ! j) \<le> st + int (length dat) \<and> Suc j < length (fso_gaps s)
       \<and> st + int (length dat) < bi_Start (fso_gaps s ! Suc j)"
    "\<And>k. i \<le> k \<Longrightarrow> k < j \<Longrightarrow> bi_End (fso_gaps s ! k) \<le> st + int (length dat)"
proof -
  have ctx: "fso_ok s" "findStartGap (fso_gaps s) st = Ok (i, b)" "findEndGap (fso_gaps s) i (st + int (length dat)) = Ok (j, c)"
      "bi_Start (fso_gaps s ! i) < st + int (length dat)" and ok: "gaps_ok (fso_gaps s)"
    using assms by (simp_all add: push_ctx_def fso_ok_def)
  note sl = findStartGap_law [OF ctx(2) ok]
  note el = findEndGap_law [OF ctx(3) sl(1)]
  show "fso_ok s" "b \<longleftrightarrow> bi_Start (fso_gaps s ! i) \<le> st" "starts_at (fso_gaps s) st i"
    using ctx(1) sl by (auto simp: starts_at_def)
  have "c \<or> i \<noteq> Suc j"
    using el(2) ctx(4) by fastforce
  then show ij: "i \<le> j" "j < length (fso_gaps s)"
    using el(1,2) by (cases c; fastforce)+
  show "c \<Longrightarrow> bi_Start (fso_gaps s ! j) \<le> st + int (length dat) \<and> st + int (length dat) < bi_End (fso_gaps s ! j)"
    using el(1) by simp
  show "\<not> c \<Longrightarrow> bi_End (fso_gaps s ! j) \<le> st + int (length dat) \<and> Suc j < length (fso_gaps s)
       \<and> st + int (length dat) < bi_Start (fso_gaps s ! Suc j)"
    using el(2) el(3) [of j] ij by simp
  show "bi_End (fso_gaps s ! k) \<le> st + int (length dat)" if "i \<le> k" "k < j" for k
    using el(3) [of k] that by (cases c) auto
qed

text \<open>The bytes of the frame that were missing lie between the two gaps.\<close>

lemma missing_bytes:
  assumes ctx: "push_ctx s dat st i b j c" and x: "x \<in> {st ..< st + int (length dat)} \<inter> gset (fso_gaps s)"
  shows "bi_Start (fso_gaps s ! i) \<le> x" "x < bi_End (fso_gaps s ! j)"
proof -
  note c = push_ctxD [OF ctx]
  have ok: "gaps_ok (fso_gaps s)"
    using c(1) by (simp add: fso_ok_def)
  obtain k where k: "k < length (fso_gaps s)" "bi_Start (fso_gaps s ! k) \<le> x" "x < bi_End (fso_gaps s ! k)"
    using x by (auto simp: in_gset)
  have "i \<le> k"
  proof (rule ccontr)
    assume "\<not> i \<le> k"
    then have "bi_End (fso_gaps s ! k) < st"
      using c(2) by (simp add: starts_at_def)
    then show False
      using k(3) x by simp
  qed
  then show "bi_Start (fso_gaps s ! i) \<le> x"
    using k gaps_order [OF ok, of i k] gaps_nonempty [OF ok, of i] c(2) by (cases "i = k") (auto simp: starts_at_def)
  have "k \<le> j"
  proof (rule ccontr)
    assume "\<not> k \<le> j"
    then have "st + int (length dat) < bi_Start (fso_gaps s ! k)"
      using c(6,7) k(1) gaps_order [OF ok, of j k] gaps_order [OF ok, of "Suc j" k] gaps_nonempty [OF ok, of "Suc j"]
      by (cases c; cases "k = Suc j") fastforce+
    then show False
      using k(2) x by simp
  qed
  then show "x < bi_End (fso_gaps s ! j)"
    using k gaps_order [OF ok, of k j] gaps_nonempty [OF ok, of j] c(5) by (cases "k = j") auto
qed

lemma fso_okD:
  assumes "fso_ok s"
  shows "gaps_ok (fso_gaps s)" "fso_gaps s \<noteq> []" "bi_End (last (fso_gaps s)) = MaxByteCount"
    "\<And>g. g \<in> set (fso_gaps s) \<Longrightarrow> fso_readPos s \<le> bi_Start g" "q_wf (fso_queue s)"
    "\<And>x. x \<in> cov (fso_queue s) \<longleftrightarrow> fso_readPos s \<le> x \<and> x < MaxByteCount \<and> x \<notin> gset (fso_gaps s)"
  using assms by (auto simp: fso_ok_def)

lemma chainD:
  assumes "chain q u v q'"
  shows "q_wf q'" "u \<le> v" "cov q' = cov q - {u ..< v}" "{u ..< v} \<subseteq> cov q" "map_of q' \<subseteq>\<^sub>m map_of q"
  using assms by (auto simp: chain_def map_le_def restrict_map_def split: if_splits)

lemma push_cut_stored:
  assumes ctx: "push_ctx s dat st i b j c" and r: "replaceFrames (fso_queue s) st (st + int (length dat)) False = (q, True, Some t, called)"
    and st: "st = bi_End (fso_gaps s ! i)" "Suc i < length (fso_gaps s)"
    and t: "st < t" "t \<le> st + int (length dat)" "st + int (length dat) < bi_Start (fso_gaps s ! Suc i)"
    and ch: "chain (fso_queue s) st t q" "cbs (fso_queue s) = mset called + cbs q"
    and p: "frameSorter_push s dat st doneCb = (s', r')"
  shows "stored s dat st doneCb s' r'"
proof -
  note c = push_ctxD [OF ctx]
  note ok = fso_okD [OF c(1)]
  have i: "i < length (fso_gaps s)"
    using c(2) by (simp add: starts_at_def)
  have j: "j = i"
  proof (rule ccontr)
    assume "j \<noteq> i"
    then have "Suc i \<le> j"
      using c(4) by simp
    then have "bi_Start (fso_gaps s ! Suc i) \<le> bi_Start (fso_gaps s ! j)"
      using gaps_order [OF ok(1), of "Suc i" j] gaps_nonempty [OF ok(1) st(2)] c(5) by (cases "Suc i = j") auto
    then show False
      using t(3) c(6,7) gaps_nonempty [OF ok(1) c(5)] by (cases c) auto
  qed
  obtain front gtl where g: "fso_gaps s = front # gtl"
    using ok(2) by (cases "fso_gaps s") auto
  have e: "dat \<noteq> []" "bi_Start front < st + int (length dat)" "findStartGap (fso_gaps s) st = Ok (i, b)"
      "findEndGap (fso_gaps s) i (st + int (length dat)) = Ok (i, c)"
    using ctx j by (simp_all add: push_ctx_def g)
  obtain cpy where ev: "frameSorter_push s dat st doneCb =
     (let s3 = s\<lparr>fso_queue := q, fso_gaps := fso_gaps s, fso_called := fso_called s @ called @ (if cpy then callCb doneCb else [])\<rparr>
      in if length (fso_gaps s) > MaxStreamFrameSorterGaps then (s3, Err (ErrorString ''too many gaps in received data''))
         else (s3\<lparr>fso_queue := AList.update st \<lparr>fse_Data = take (nat (t - st)) (drop (nat (st - st)) dat),
                 fse_DoneCb = (if cpy then None else doneCb)\<rparr> q\<rparr>, Ok ()))"
    using push_eval_cut [OF e(1) g e(2,3) i gaps_nonempty [OF ok(1) i] e(4) st(1) r t(1,2)] by blast
  note q = chainD [OF ch(1)]
  have gs: "gset (fso_gaps s) = gset (fso_gaps s) - {st ..< t}" "fso_readPos s \<le> st" "t \<le> MaxByteCount"
    using q(4) ok(6) t ctx by (auto simp: push_ctx_def)
  have miss: "{st ..< st + int (length dat)} \<inter> gset (fso_gaps s) \<subseteq> {st ..< t}"
    using missing_bytes(2) [OF ctx] st(1) j by fastforce
  show ?thesis
    by (rule storedI [OF c(1) q(1) _ _ _ q(5) ch(2) ok(1) gs(1) ok(2,3) _ gs(2) t(1) gs(3) _ t(2) miss _ p, where copied = cpy])
      (use q(3) ok(4) ev in auto)
qed

lemma plain_facts:
  assumes ctx: "push_ctx s dat st i b j c" and r: "replaceFrames (fso_queue s) st (st + int (length dat)) False = (q, has, None, called)"
    and a: "a = (if \<not> b \<and> \<not> has then bi_Start (fso_gaps s ! i) else st)"
  shows "fso_readPos s \<le> a \<and> st \<le> a \<and> a < st + int (length dat) \<and> a \<le> bi_End (fso_gaps s ! i)"
    "q_wf q \<and> map_of q \<subseteq>\<^sub>m map_of (fso_queue s) \<and> cbs (fso_queue s) = mset called + cbs q"
    "a < bi_End (fso_gaps s ! i) \<and> cov q = cov (fso_queue s) - {a ..< bi_Start (fso_gaps s ! i)} \<and> (has \<longrightarrow> a < bi_Start (fso_gaps s ! i))
     \<or> has \<and> a = bi_End (fso_gaps s ! i) \<and> i < j
       \<and> cov q = cov (fso_queue s) - {bi_End (fso_gaps s ! i) ..< bi_Start (fso_gaps s ! Suc i)}"
proof -
  note c = push_ctxD [OF ctx]
  note ok = fso_okD [OF c(1)]
  have i: "i < length (fso_gaps s)"
    using c(2) by (simp add: starts_at_def)
  note ne = gaps_nonempty [OF ok(1) i]
  have en: "bi_Start (fso_gaps s ! i) < st + int (length dat)" "st < st + int (length dat)" "st + int (length dat) < MaxByteCount"
    using ctx by (simp_all add: push_ctx_def)
  have rp: "fso_readPos s \<le> bi_Start (fso_gaps s ! i)"
    using ok(4) i by simp
  have "fso_readPos s \<le> a \<and> st \<le> a \<and> a < st + int (length dat) \<and> a \<le> bi_End (fso_gaps s ! i)
    \<and> q_wf q \<and> map_of q \<subseteq>\<^sub>m map_of (fso_queue s) \<and> cbs (fso_queue s) = mset called + cbs q
    \<and> (a < bi_End (fso_gaps s ! i) \<and> cov q = cov (fso_queue s) - {a ..< bi_Start (fso_gaps s ! i)} \<and> (has \<longrightarrow> a < bi_Start (fso_gaps s ! i))
     \<or> has \<and> a = bi_End (fso_gaps s ! i) \<and> i < j
       \<and> cov q = cov (fso_queue s) - {bi_End (fso_gaps s ! i) ..< bi_Start (fso_gaps s ! Suc i)})"
  proof (cases rule: replace_cases [OF c(1,2) en r disjI1 [OF refl], case_names fresh before behind cut])
    case fresh
    then show ?thesis
      using a c(3) en ne rp ok(5) by (auto simp: map_le_def)
  next
    case before
    then show ?thesis
      using a c(3) en ne chainD [OF before(5)] by auto
  next
    case behind
    have "i \<noteq> j"
    proof
      assume "i = j"
      then show False
        using behind(3,5) c(6,7) en(2) by (cases c) auto
    qed
    then show ?thesis
      using behind a c(3,4) en ne rp chainD [OF behind(6)] by auto
  qed simp
  then show "fso_readPos s \<le> a \<and> st \<le> a \<and> a < st + int (length dat) \<and> a \<le> bi_End (fso_gaps s ! i)"
    "q_wf q \<and> map_of q \<subseteq>\<^sub>m map_of (fso_queue s) \<and> cbs (fso_queue s) = mset called + cbs q"
    "a < bi_End (fso_gaps s ! i) \<and> cov q = cov (fso_queue s) - {a ..< bi_Start (fso_gaps s ! i)} \<and> (has \<longrightarrow> a < bi_Start (fso_gaps s ! i))
     \<or> has \<and> a = bi_End (fso_gaps s ! i) \<and> i < j
       \<and> cov q = cov (fso_queue s) - {bi_End (fso_gaps s ! i) ..< bi_Start (fso_gaps s ! Suc i)}"
    by blast+
qed

lemma gaps_before:
  assumes "starts_at gs st i" "gs = xs @ zs" "length xs = i" "st \<le> a"
  shows "\<forall>x \<in> set xs. bi_End x < a"
proof
  fix x assume "x \<in> set xs"
  then obtain k where "k < i" "x = gs ! k"
    using assms(2,3) by (metis in_set_conv_nth nth_append)
  then show "bi_End x < a"
    using assms(1,4) by (force simp: starts_at_def)
qed

lemma push_ctx_front:
  assumes "push_ctx s dat st i b j c"
  obtains front gtl where "fso_gaps s = front # gtl" "bi_Start front < st + int (length dat)" "dat \<noteq> []"
    "findStartGap (fso_gaps s) st = Ok (i, b)" "findEndGap (fso_gaps s) i (st + int (length dat)) = Ok (j, c)"
    "bi_Start (fso_gaps s ! i) < st + int (length dat)" "st + int (length dat) < MaxByteCount"
  using assms by (cases "fso_gaps s") (auto simp: push_ctx_def fso_ok_def)

lemma push_one_stored:
  assumes ctx: "push_ctx s dat st i b i c" and r: "replaceFrames (fso_queue s) st (st + int (length dat)) False = (q, has, None, called)"
    and p: "frameSorter_push s dat st doneCb = (s', r')"
  shows "stored s dat st doneCb s' r'"
proof -
  let ?en = "st + int (length dat)"
  note c = push_ctxD [OF ctx]
  note ok = fso_okD [OF c(1)]
  obtain xs g ys where xs: "length xs = i" "fso_gaps s = xs @ g # ys" and g: "fso_gaps s ! i = g"
    using split_one [of i "fso_gaps s"] c(5) by blast
  define a where "a = (if \<not> b \<and> \<not> has then bi_Start (fso_gaps s ! i) else st)"
  define f where "f = (if c then ?en else bi_End g)"
  note pf = plain_facts [OF ctx r a_def, unfolded g]
  have af: "a < bi_End g" "cov q = cov (fso_queue s) - {a ..< bi_Start g}" "has \<longrightarrow> a < bi_Start g"
    using pf(3) by auto
  have nd: "bi_Start g < ?en" "dat \<noteq> []" "?en < MaxByteCount" "bi_Start g < bi_End g"
    using ctx gaps_nonempty [OF ok(1) c(5)] by (simp_all add: push_ctx_def g)
  have ff: "bi_Start g < f" "f \<le> bi_End g" "a < f" "f \<le> ?en" "f = bi_End g \<longleftrightarrow> \<not> c" "?en \<ge> bi_End g \<longleftrightarrow> \<not> c"
    using c(6,7) nd(1,4) af(1) pf(1) by (auto simp: f_def g)
  have f2: "f = (if \<not> c \<and> a \<noteq> bi_End (fso_gaps s ! i) \<and> bi_End (fso_gaps s ! i) < ?en then bi_End (fso_gaps s ! i) else ?en)"
    using c(7) af(1) by (auto simp: f_def g)
  define G where "G = (if a \<le> bi_Start g then (if f = bi_End g then [] else [g\<lparr>bi_Start := f\<rparr>])
      else g\<lparr>bi_End := a\<rparr> # (if f = bi_End g then [] else [\<lparr>bi_Start = f, bi_End = bi_End g\<rparr>]))"
  have xsa: "\<forall>x \<in> set xs. bi_End x < a"
    by (rule gaps_before [OF c(2) xs(2,1)]) (simp add: pf(1))
  have okg: "gaps_ok (xs @ g # ys)"
    using ok(1) xs(2) by simp
  note fill = fill_one_gap [OF okg xsa ff(1,2) af(1) ff(3), folded G_def]
  have td: "take i (fso_gaps s) = xs" "drop (Suc i + length []) (fso_gaps s) = ys"
    using xs by auto
  have gs: "xs @ G @ ys = take i (fso_gaps s) @
       (let gi = fso_gaps s ! i; gj = fso_gaps s ! i; en = ?en;
            gi' = (if a \<le> bi_Start gi then (if en \<ge> bi_End gi then [] else [gi\<lparr>bi_Start := en\<rparr>])
                   else if \<not> has then [gi\<lparr>bi_End := a\<rparr>] else [gi])
        in if i = i then gi' @ (if f \<noteq> bi_End gj \<and> bi_Start gi < a \<and> \<not> has then [\<lparr>bi_Start = f, bi_End = bi_End gi\<rparr>] else []) @ ys
           else gi' @ take (i - (Suc i + length [])) ys @ (if f = bi_End gj then [] else [gj\<lparr>bi_Start := f\<rparr>])
             @ drop (Suc (i - (Suc i + length []))) ys)"
    using af(3) ff(5,6) by (auto simp: G_def td(1) Let_def f_def g)
  obtain front gtl where ft: "fso_gaps s = front # gtl" "bi_Start front < ?en" "dat \<noteq> []"
      and e: "findStartGap (fso_gaps s) st = Ok (i, b)" "findEndGap (fso_gaps s) i ?en = Ok (i, c)" "bi_Start (fso_gaps s ! i) < ?en"
    using push_ctx_front [OF ctx] by blast
  have sa: "st \<le> a" "a < ?en" "a \<le> f"
    using pf(1) ff(3) by simp_all
  obtain cpy where ev: "frameSorter_push s dat st doneCb =
     (let s3 = s\<lparr>fso_queue := q, fso_gaps := xs @ G @ ys, fso_called := fso_called s @ called @ [] @ (if cpy then callCb doneCb else [])\<rparr>
      in if length (xs @ G @ ys) > MaxStreamFrameSorterGaps then (s3, Err (ErrorString ''too many gaps in received data''))
         else (s3\<lparr>fso_queue := AList.update a \<lparr>fse_Data = take (nat (f - a)) (drop (nat (a - st)) dat),
                 fse_DoneCb = (if cpy then None else doneCb)\<rparr> q\<rparr>, Ok ()))"
    using push_eval [OF ft(3,1,2) e r a_def sa(1,2) f2 sa(3) ff(4) _ td(2) [symmetric] _ _ gs, of q "[]" doneCb, OF if_P [OF refl, symmetric] _ if_P [OF refl]] by blast
  have miss: "{st ..< ?en} \<inter> gset (fso_gaps s) \<subseteq> {a ..< f}"
  proof
    fix x assume x: "x \<in> {st ..< ?en} \<inter> gset (fso_gaps s)"
    then show "x \<in> {a ..< f}"
      using missing_bytes [OF ctx x] by (simp add: a_def f_def g)
  qed
  have lst: "xs @ G @ ys \<noteq> [] \<and> bi_End (last (xs @ G @ ys)) = MaxByteCount"
  proof (cases "ys = []")
    case True
    then have "c"
      using c(7) xs by auto
    then show ?thesis
      using ok(3) True ff(5) by (auto simp: xs(2) G_def)
  qed (use ok(3) in \<open>simp add: xs(2)\<close>)
  have "x \<notin> cov q" if x: "a \<le> x" "x < f" for x
  proof (cases "bi_Start g \<le> x")
    case True
    then have "x \<in> gset (fso_gaps s)"
      using x ff(2) by (simp add: xs(2))
    then show ?thesis
      using af(2) ok(6) by blast
  qed (use af(2) x in simp)
  then have cq: "cov q \<subseteq> cov (fso_queue s)" "cov (fso_queue s) - cov q \<subseteq> {a ..< f}" "{a ..< f} \<inter> cov q = {}"
    using ff(1) by (auto simp: af(2))
  have rd: "\<forall>x \<in> set (xs @ G @ ys). fso_readPos s \<le> bi_Start x"
    using ok(4) fill(3) [rule_format] order_trans [OF ok(4) [of g]] by (auto simp: xs(2))
  have q: "q_wf q" "map_of q \<subseteq>\<^sub>m map_of (fso_queue s)" "cbs (fso_queue s) = mset called + cbs q" "fso_readPos s \<le> a" "f \<le> MaxByteCount"
    using pf(1,2) ff(4) nd(3) by simp_all
  show ?thesis
    by (rule storedI [OF c(1) q(1) cq q(2,3) fill(1) fill(2) [folded xs(2)] conjunct1 [OF lst] conjunct2 [OF lst] rd q(4) ff(3) q(5)
          sa(1) ff(4) miss ev [unfolded append_Nil] p])
qed

lemma many_queue:
  assumes ok: "fso_ok s" and gs: "fso_gaps s = xs @ g # bs @ h # ys" and q: "q_wf q" "map_of q \<subseteq>\<^sub>m map_of (fso_queue s)"
      "cbs (fso_queue s) = mset called + cbs q"
    and cq: "a < bi_End g \<and> cov q = cov (fso_queue s) - {a ..< bi_Start g} \<and> (has \<longrightarrow> a < bi_Start g)
      \<or> has \<and> a = bi_End g \<and> i < j \<and> cov q = cov (fso_queue s) - {bi_End g ..< bi_Start (hd (bs @ [h]))}"
    and d: "deleteBehind q (g # bs) = (q2, called2)" and f: "a \<le> bi_End g" "bi_Start h \<le> f" "f \<le> bi_End h"
  shows "q_wf q2" "map_of q2 \<subseteq>\<^sub>m map_of (fso_queue s)" "cbs (fso_queue s) = mset (called @ called2) + cbs q2"
    "cov q2 \<subseteq> cov (fso_queue s)" "cov (fso_queue s) - cov q2 \<subseteq> {a ..< f}" "{a ..< f} \<inter> cov q2 = {}"
proof -
  note okD = fso_okD [OF ok]
  obtain u v where uv: "cov q = cov (fso_queue s) - {u ..< v}"
      "v = bi_Start g \<and> u = a \<or> u = bi_End g \<and> v = bi_Start (hd (bs @ [h])) \<and> a = bi_End g"
    using cq by blast
  have o: "bi_Start g < bi_End g" "bi_End g < bi_Start h" "bi_Start (hd (bs @ [h])) \<le> bi_Start h"
    using okD(1) by (cases bs; force simp: gs)+
  have ph: "q_wf q2" "cov q2 = cov q - {bi_End g ..< bi_Start h}" "map_of q2 \<subseteq>\<^sub>m map_of q" "cbs q = mset called2 + cbs q2"
    using delete_phase [OF ok gs q(1) uv(1) _ d] uv(2) by auto
  show "q_wf q2" "map_of q2 \<subseteq>\<^sub>m map_of (fso_queue s)" "cbs (fso_queue s) = mset (called @ called2) + cbs q2"
    using ph q map_le_trans by (auto simp: ac_simps)
  have c2: "cov q2 = cov (fso_queue s) - {u ..< v} - {bi_End g ..< bi_Start h}"
    by (simp add: ph(2) uv(1))
  then show "cov q2 \<subseteq> cov (fso_queue s)"
    by blast
  show "cov (fso_queue s) - cov q2 \<subseteq> {a ..< f}"
  proof
    fix x assume "x \<in> cov (fso_queue s) - cov q2"
    then have "u \<le> x \<and> x < v \<or> bi_End g \<le> x \<and> x < bi_Start h"
      unfolding c2 by auto
    then show "x \<in> {a ..< f}"
      using uv(2) o f by auto
  qed
  have "x \<notin> cov q2" if x: "a \<le> x" "x < f" for x
  proof
    assume "x \<in> cov q2"
    then have "x \<notin> gset (fso_gaps s)" "\<not> (u \<le> x \<and> x < v)" "\<not> (bi_End g \<le> x \<and> x < bi_Start h)"
      using okD(6) unfolding c2 by auto
    then show False
      using uv(2) o f x by (auto simp: gs)
  qed
  then show "{a ..< f} \<inter> cov q2 = {}"
    by auto
qed

lemma push_many_stored:
  assumes ctx: "push_ctx s dat st i b j c" and ij: "i < j"
    and r: "replaceFrames (fso_queue s) st (st + int (length dat)) False = (q, has, None, called)"
    and p: "frameSorter_push s dat st doneCb = (s', r')"
  shows "stored s dat st doneCb s' r'"
proof -
  let ?en = "st + int (length dat)"
  note c = push_ctxD [OF ctx]
  note ok = fso_okD [OF c(1)]
  obtain xs g bs h ys where xs: "length xs = i" "length bs = j - Suc i" "fso_gaps s = xs @ g # bs @ h # ys"
      and gh: "fso_gaps s ! i = g" "fso_gaps s ! j = h"
    using split_two [OF ij c(5)] by blast
  have nxt: "fso_gaps s ! Suc i = hd (bs @ [h])"
    using xs by (cases bs) (simp_all add: nth_append)
  define a where "a = (if \<not> b \<and> \<not> has then bi_Start (fso_gaps s ! i) else st)"
  define f where "f = (if c then ?en else bi_End h)"
  note pf = plain_facts [OF ctx r a_def, unfolded gh nxt]
  have okg: "gaps_ok (xs @ g # bs @ h # ys)"
    using ok(1) xs(3) by simp
  have o: "bi_Start g < bi_End g" "bi_End g < bi_Start h" "bi_Start h < bi_End h" "\<forall>x \<in> set bs. bi_End x < bi_Start h"
    using okg by simp_all
  have ff: "bi_Start h \<le> f" "f \<le> bi_End h" "f \<le> ?en" "f = bi_End h \<longleftrightarrow> \<not> c" "?en \<ge> bi_End g" "a \<le> bi_End g" "a < f"
    using c(6,7) c(8) [of i] ij o pf(1) by (auto simp: f_def gh)
  have f2: "f = (if \<not> c \<and> a \<noteq> bi_End (fso_gaps s ! j) \<and> bi_End (fso_gaps s ! j) < ?en then bi_End (fso_gaps s ! j) else ?en)"
    using c(7) ff o by (auto simp: f_def gh)
  have bt: "bs = (if i = j then [] else takeWhile (\<lambda>gap. bi_End gap < bi_Start (fso_gaps s ! j)) (drop (Suc i) (fso_gaps s)))"
    using o xs(1) ij unfolding gh by (simp add: xs(3) takeWhile_append takeWhile_eq_all_conv)
  have td: "take i (fso_gaps s) = xs" "h # ys = drop (Suc i + length bs) (fso_gaps s)" "j - (Suc i + length bs) = 0"
    using xs(1,2) by (simp add: xs(3), use xs(1) in \<open>simp add: xs(3)\<close>, simp)
  define G where "G = (if a \<le> bi_Start g then [] else [g\<lparr>bi_End := a\<rparr>]) @ (if f = bi_End h then [] else [h\<lparr>bi_Start := f\<rparr>])"
  obtain q2 called2 where del: "deleteBehind q (g # bs) = (q2, called2)"
    by (cases "deleteBehind q (g # bs)")
  have g1: "(if a \<le> bi_Start g then (if ?en \<ge> bi_End g then [] else [g\<lparr>bi_Start := ?en\<rparr>])
      else if \<not> has then [g\<lparr>bi_End := a\<rparr>] else [g]) = (if a \<le> bi_Start g then [] else [g\<lparr>bi_End := a\<rparr>])"
    using pf(3) ff(5) by auto
  have gs: "xs @ G @ ys = take i (fso_gaps s) @
       (let gi = fso_gaps s ! i; gj = fso_gaps s ! j; en = ?en;
            gi' = (if a \<le> bi_Start gi then (if en \<ge> bi_End gi then [] else [gi\<lparr>bi_Start := en\<rparr>])
                   else if \<not> has then [gi\<lparr>bi_End := a\<rparr>] else [gi])
        in if i = j then gi' @ (if f \<noteq> bi_End gj \<and> bi_Start gi < a \<and> \<not> has then [\<lparr>bi_Start = f, bi_End = bi_End gi\<rparr>] else []) @ h # ys
           else gi' @ take (j - (Suc i + length bs)) (h # ys) @ (if f = bi_End gj then [] else [gj\<lparr>bi_Start := f\<rparr>])
             @ drop (Suc (j - (Suc i + length bs))) (h # ys))"
    using ij unfolding gh g1 td(1,3) Let_def G_def by simp
  obtain front gtl where ft: "fso_gaps s = front # gtl" "bi_Start front < ?en" "dat \<noteq> []"
      and e: "findStartGap (fso_gaps s) st = Ok (i, b)" "findEndGap (fso_gaps s) i ?en = Ok (j, c)" "bi_Start (fso_gaps s ! i) < ?en"
    using push_ctx_front [OF ctx] by blast
  have sa: "st \<le> a" "a < ?en" "a \<le> f"
    and del': "(if i = j then (q, []) else deleteBehind q (fso_gaps s ! i # bs)) = (q2, called2)"
    using pf(1) ff(7) ij del by (simp_all add: gh)
  obtain cpy where ev: "frameSorter_push s dat st doneCb =
     (let s3 = s\<lparr>fso_queue := q2, fso_gaps := xs @ G @ ys, fso_called := fso_called s @ called @ called2 @ (if cpy then callCb doneCb else [])\<rparr>
      in if length (xs @ G @ ys) > MaxStreamFrameSorterGaps then (s3, Err (ErrorString ''too many gaps in received data''))
         else (s3\<lparr>fso_queue := AList.update a \<lparr>fse_Data = take (nat (f - a)) (drop (nat (a - st)) dat),
                 fse_DoneCb = (if cpy then None else doneCb)\<rparr> q2\<rparr>, Ok ()))"
    using push_eval [OF ft(3,1,2) e r a_def sa(1,2) f2 sa(3) ff(3) bt td(2) list.distinct(2) del' gs] by blast
  note q = many_queue [OF c(1) xs(3) conjunct1 [OF pf(2)] conjunct1 [OF conjunct2 [OF pf(2)]] conjunct2 [OF conjunct2 [OF pf(2)]]
      pf(3) del ff(6,1,2)]
  have miss: "{st ..< ?en} \<inter> gset (fso_gaps s) \<subseteq> {a ..< f}"
  proof
    fix x assume x: "x \<in> {st ..< ?en} \<inter> gset (fso_gaps s)"
    then show "x \<in> {a ..< f}"
      using missing_bytes [OF ctx x] by (simp add: a_def f_def gh)
  qed
  have lst: "xs @ G @ ys \<noteq> [] \<and> bi_End (last (xs @ G @ ys)) = MaxByteCount"
  proof (cases "ys = []")
    case True
    then have "c"
      using c(7) xs ij by auto
    then show ?thesis
      using ok(3) True ff(4) by (auto simp: xs(3) G_def)
  qed (use ok(3) in \<open>simp add: xs(3)\<close>)
  note fill = fill_many_gaps [OF okg gaps_before [OF c(2) xs(3,1) sa(1)] ff(6,1,2), folded G_def]
  have rd: "\<forall>x \<in> set (xs @ G @ ys). fso_readPos s \<le> bi_Start x"
    using ok(4) fill(3) [rule_format] order_trans [OF ok(4) [of g]] by (auto simp: xs(3))
  have rf: "fso_readPos s \<le> a" "f \<le> MaxByteCount"
    using pf(1) ff(3) ctx by (simp_all add: push_ctx_def)
  show ?thesis
    by (rule storedI [OF c(1) q(1,4-6,2,3) fill(1) fill(2) [folded xs(3)] conjunct1 [OF lst] conjunct2 [OF lst] rd rf(1) ff(7) rf(2)
          sa(1) ff(3) miss ev [folded append_assoc [of called]] p])
qed

text \<open>A duplicate changes nothing, and none of its bytes was missing.\<close>

definition duplicate :: "frameSorter \<Rightarrow> byte list \<Rightarrow> ByteCount \<Rightarrow> frameSorter \<Rightarrow> unit outcome \<Rightarrow> bool" where
  "duplicate s dat st s' r \<longleftrightarrow> r = Err errDuplicateStreamData \<and> s' = s
     \<and> {st ..< st + int (length dat)} \<inter> gset (fso_gaps s) = {}"

lemma push_gaps_found:
  assumes ok: "fso_ok s" and en: "st + int (length dat) < MaxByteCount" "bi_Start (hd (fso_gaps s)) < st + int (length dat)"
  obtains i b j c where "findStartGap (fso_gaps s) st = Ok (i, b)" "findEndGap (fso_gaps s) i (st + int (length dat)) = Ok (j, c)"
proof -
  note okD = fso_okD [OF ok]
  obtain i b where i: "findStartGap (fso_gaps s) st = Ok (i, b)"
    using findStartGap_Ok [OF okD(2), of st 0] okD(3) en by (auto simp: findStartGap_def)
  have "i < length (fso_gaps s)"
    using findStartGap_law [OF i okD(1)] by simp
  then have "\<exists>j c. findEndGap (fso_gaps s) i (st + int (length dat)) = Ok (j, c)"
    unfolding findEndGap_def using okD(3) en by (intro findEndGap_from_Ok) (cases i; simp)+
  then show ?thesis
    using that i by blast
qed

text \<open>A frame that ends before the gap found for its start is a duplicate.\<close>

lemma push_before_gap:
  assumes ok: "fso_ok s" and en: "dat \<noteq> []" "bi_Start (hd (fso_gaps s)) < st + int (length dat)"
    and i: "findStartGap (fso_gaps s) st = Ok (i, b)" and j: "findEndGap (fso_gaps s) i (st + int (length dat)) = Ok (j, c)"
    and gi: "st + int (length dat) \<le> bi_Start (fso_gaps s ! i)" and p: "frameSorter_push s dat st doneCb = (s', r)"
  shows "duplicate s dat st s' r"
proof -
  let ?en = "st + int (length dat)"
  note okD = fso_okD [OF ok]
  note sl = findStartGap_law [OF i okD(1)]
  note el = findEndGap_law [OF j sl(1)]
  obtain front gtl where g: "fso_gaps s = front # gtl"
    using okD(2) by (cases "fso_gaps s") auto
  have ng: "bi_Start (fso_gaps s ! i) < bi_End (fso_gaps s ! i)"
    by (rule gaps_nonempty [OF okD(1) sl(1)])
  have "bi_Start (fso_gaps s ! j) \<le> bi_End (fso_gaps s ! i)"
  proof (cases c)
    case True
    then show ?thesis
      using el(1) gi ng by simp
  next
    case False
    then have "\<not> i \<le> j"
      using el(3) [of i] gi ng by fastforce
    then show ?thesis
      using gaps_order [OF okD(1), of j i] gaps_nonempty [OF okD(1), of j] sl(1) ng by fastforce
  qed
  then have "s' = s \<and> r = Err errDuplicateStreamData"
    using p en gi unfolding frameSorter_push_def by (auto simp: Let_def g i [unfolded g] j [unfolded g])
  moreover have "x \<notin> gset (fso_gaps s)" if "x \<in> {st ..< ?en}" for x
    using sl gi that by (intro not_in_gset [OF okD(1), of i]) force+
  ultimately show ?thesis
    by (auto simp: duplicate_def)
qed

lemma push_old:
  assumes ok: "fso_ok s" and old: "dat = [] \<or> st + int (length dat) \<le> bi_Start (hd (fso_gaps s))"
    and p: "frameSorter_push s dat st doneCb = (s', r)"
  shows "duplicate s dat st s' r"
proof -
  note okD = fso_okD [OF ok]
  obtain front gtl where g: "fso_gaps s = front # gtl"
    using okD(2) by (cases "fso_gaps s") auto
  have "frameSorter_push s dat st doneCb = (s, Err errDuplicateStreamData)"
    using old unfolding frameSorter_push_def Let_def by (cases "dat = []") (simp_all add: g)
  then have "s' = s \<and> r = Err errDuplicateStreamData"
    using p by simp
  moreover have "x \<notin> gset (fso_gaps s)" if "x \<in> {st ..< st + int (length dat)}" for x
    using old that by (intro not_in_gset [OF okD(1), of 0]) (auto simp: g)
  ultimately show ?thesis
    by (auto simp: duplicate_def)
qed

text \<open>A frame that a single queued frame covers is a duplicate.\<close>

lemma push_covered:
  assumes ctx: "push_ctx s dat st i b j c"
    and r: "replaceFrames (fso_queue s) st (st + int (length dat)) False = (q, False, Some t, called)"
    and p: "frameSorter_push s dat st doneCb = (s', r')"
  shows "duplicate s dat st s' r'"
proof -
  note c = push_ctxD [OF ctx]
  note okD = fso_okD [OF c(1)]
  obtain front gtl where ft: "fso_gaps s = front # gtl" "bi_Start front < st + int (length dat)" "dat \<noteq> []"
      and e: "findStartGap (fso_gaps s) st = Ok (i, b)" "findEndGap (fso_gaps s) i (st + int (length dat)) = Ok (j, c)"
        "bi_Start (fso_gaps s ! i) < st + int (length dat)"
    using push_ctx_front [OF ctx] by blast
  have "s' = s \<and> r' = Err errDuplicateStreamData"
    using p ft e r unfolding frameSorter_push_def by (auto simp: Let_def)
  moreover obtain en where "map_of (fso_queue s) st = Some en" "int (length dat) \<le> int (length (fse_Data en))"
    using replaceFrames_chain [OF okD(5) r] by (auto simp: chain_def)
  then have "{st ..< st + int (length dat)} \<subseteq> cov (fso_queue s)"
    using entry_cov by fastforce
  then have "{st ..< st + int (length dat)} \<inter> gset (fso_gaps s) = {}"
    using okD(6) by blast
  ultimately show ?thesis
    by (simp add: duplicate_def)
qed

lemma push_correct:
  assumes ok: "fso_ok s" and st: "0 \<le> st" "st + int (length dat) < MaxByteCount" and p: "frameSorter_push s dat st doneCb = (s', r)"
  shows "duplicate s dat st s' r \<or> stored s dat st doneCb s' r"
proof (cases "dat = [] \<or> st + int (length dat) \<le> bi_Start (hd (fso_gaps s))")
  case True
  then show ?thesis
    using push_old [OF ok _ p] by blast
next
  case False
  then have d: "dat \<noteq> []" "bi_Start (hd (fso_gaps s)) < st + int (length dat)"
    by simp_all
  obtain i b j c where ij: "findStartGap (fso_gaps s) st = Ok (i, b)" "findEndGap (fso_gaps s) i (st + int (length dat)) = Ok (j, c)"
    using push_gaps_found [OF ok st(2) d(2)] by blast
  show ?thesis
  proof (cases "st + int (length dat) \<le> bi_Start (fso_gaps s ! i)")
    case True
    then show ?thesis
      using push_before_gap [OF ok d ij _ p] by blast
  next
    case False
    then have ctx: "push_ctx s dat st i b j c"
      using ok st d ij by (simp add: push_ctx_def)
    obtain q has stop called where r: "replaceFrames (fso_queue s) st (st + int (length dat)) False = (q, has, stop, called)"
      by (metis prod_cases4)
    note c = push_ctxD [OF ctx]
    show ?thesis
    proof (cases stop)
      case None
      then show ?thesis
        using push_one_stored [of s dat st i b c] push_many_stored [OF ctx] c(4) ctx r p by (cases "i = j") (auto simp: le_less)
    next
      case (Some t)
      show ?thesis
      proof (cases has)
        case True
        have "stored s dat st doneCb s' r"
          by (rule replace_cases [OF ok c(2) _ _ st(2) r, unfolded Some, OF _ _ disjI2 [OF True]])
            (use d False push_cut_stored [OF ctx _ _ _ _ _ _ _ _ p] r Some True in auto)
        then show ?thesis ..
      qed (use push_covered [OF ctx _ p] r Some in auto)
    qed
  qed
qed

end
