(* ===== verification/SorterRuns.thy ===== *)
theory SorterRuns
  imports FrameSorterPush
begin

text \<open>
  Runs of the frame sorter (\<^verbatim>\<open>src/frame_sorter.go\<close>): pieces of one stream are pushed in any order, cut
  in any way and any number of times, and popped in between. What is popped is the
  stream, everything that can be popped is popped, and no callback is lost or called twice.
\<close>

section \<open>The two operations\<close>

lemma map_leD: "m \<subseteq>\<^sub>m m' \<Longrightarrow> m k = Some v \<Longrightarrow> m' k = Some v"
  by (metis domI map_le_def)

lemma Push_correct:
  assumes ok: "fso_ok s" and st: "0 \<le> st" "st + int (length dat) < MaxByteCount" and p: "frameSorter_Push s dat st doneCb = (s', r)"
  shows "r = Ok () \<or> r = Err (ErrorString ''too many gaps in received data'')"
    "gset (fso_gaps s') = gset (fso_gaps s) - {st ..< st + int (length dat)}" "fso_readPos s' = fso_readPos s"
    "r = Ok () \<Longrightarrow> fso_ok s'"
    "r = Ok () \<Longrightarrow> mset (fso_called s') + cbs (fso_queue s') = mset (fso_called s) + cbs (fso_queue s) + mset (callCb doneCb)"
    "r = Ok () \<Longrightarrow> consistent str (fso_queue s) \<Longrightarrow> (\<And>n. n < length dat \<Longrightarrow> dat ! n = str (st + int n)) \<Longrightarrow> consistent str (fso_queue s')"
proof -
  obtain s1 r1 where p1: "frameSorter_push s dat st doneCb = (s1, r1)"
    by (cases "frameSorter_push s dat st doneCb")
  consider (dup) "duplicate s dat st s1 r1" | (sto) "stored s dat st doneCb s1 r1"
    using push_correct [OF ok st p1] by blast
  then have "(r = Ok () \<or> r = Err (ErrorString ''too many gaps in received data''))
    \<and> gset (fso_gaps s') = gset (fso_gaps s) - {st ..< st + int (length dat)} \<and> fso_readPos s' = fso_readPos s
    \<and> (r = Ok () \<longrightarrow> fso_ok s'
        \<and> mset (fso_called s') + cbs (fso_queue s') = mset (fso_called s) + cbs (fso_queue s) + mset (callCb doneCb)
        \<and> (consistent str (fso_queue s) \<longrightarrow> (\<forall>n < length dat. dat ! n = str (st + int n)) \<longrightarrow> consistent str (fso_queue s')))"
  proof cases
    case dup
    then show ?thesis
      using p p1 ok by (auto simp: frameSorter_Push_def duplicate_def fso_ok_def)
  next
    case sto
    then obtain a f q cb where af: "st \<le> a" "a < f" "f \<le> st + int (length dat)" "{st ..< st + int (length dat)} \<inter> gset (fso_gaps s) \<subseteq> {a ..< f}"
        "gset (fso_gaps s1) = gset (fso_gaps s) - {a ..< f}" "fso_readPos s1 = fso_readPos s"
      and r1: "if length (fso_gaps s1) > MaxStreamFrameSorterGaps then r1 = Err (ErrorString ''too many gaps in received data'')
        else r1 = Ok () \<and> fso_ok s1 \<and> map_of q \<subseteq>\<^sub>m map_of (fso_queue s)
          \<and> map_of (fso_queue s1) = (map_of q)(a \<mapsto> \<lparr>fse_Data = take (nat (f - a)) (drop (nat (a - st)) dat), fse_DoneCb = cb\<rparr>)
          \<and> mset (fso_called s1) + cbs (fso_queue s1) = mset (fso_called s) + cbs (fso_queue s) + mset (callCb doneCb)"
      unfolding stored_def by blast
    have "r1 \<noteq> Err errDuplicateStreamData"
      using r1 by (auto split: if_splits)
    then have s': "s' = s1" "r = r1"
      using p p1 by (simp_all add: frameSorter_Push_def)
    have g: "gset (fso_gaps s1) = gset (fso_gaps s) - {st ..< st + int (length dat)}"
      using af by auto
    have "consistent str (fso_queue s1)" if "r1 = Ok ()" "consistent str (fso_queue s)" "\<forall>n < length dat. dat ! n = str (st + int n)"
    proof -
      have "map_of q k = Some e \<Longrightarrow> map_of (fso_queue s) k = Some e" for k e
        using r1 that(1) map_leD [of "map_of q" "map_of (fso_queue s)" k e] by (auto split: if_splits)
      then show ?thesis
        using r1 that af(1-3) by (auto simp: consistent_def split: if_splits)
    qed
    then show ?thesis
      using r1 g af(6) by (auto simp: s' split: if_splits)
  qed
  then show "r = Ok () \<or> r = Err (ErrorString ''too many gaps in received data'')"
    "gset (fso_gaps s') = gset (fso_gaps s) - {st ..< st + int (length dat)}" "fso_readPos s' = fso_readPos s"
    "r = Ok () \<Longrightarrow> fso_ok s'"
    "r = Ok () \<Longrightarrow> mset (fso_called s') + cbs (fso_queue s') = mset (fso_called s) + cbs (fso_queue s) + mset (callCb doneCb)"
    "r = Ok () \<Longrightarrow> consistent str (fso_queue s) \<Longrightarrow> (\<And>n. n < length dat \<Longrightarrow> dat ! n = str (st + int n)) \<Longrightarrow> consistent str (fso_queue s')"
    by blast+
qed

lemma readPos_below:
  assumes ok: "fso_ok s"
  shows "fso_readPos s < MaxByteCount"
proof -
  note okD = fso_okD [OF ok]
  have l: "last (fso_gaps s) \<in> set (fso_gaps s)"
    using okD(2) by simp
  show ?thesis
    using okD(4) [OF l] gaps_ok_member [OF okD(1) l] okD(3) by simp
qed

lemma readPos_queued:
  assumes ok: "fso_ok s"
  shows "map_of (fso_queue s) (fso_readPos s) \<noteq> None \<longleftrightarrow> fso_readPos s \<notin> gset (fso_gaps s)"
proof -
  note okD = fso_okD [OF ok]
  have "fso_readPos s - 1 \<notin> cov (fso_queue s)"
    using okD(6) by simp
  then have "map_of (fso_queue s) (fso_readPos s) \<noteq> None \<longleftrightarrow> fso_readPos s \<in> cov (fso_queue s)"
    using starts_there [of "fso_readPos s" "fso_queue s"] key_in_cov [OF okD(5), of "fso_readPos s"] by force
  then show ?thesis
    using okD(6) readPos_below [OF ok] by simp
qed

lemma Pop_correct:
  assumes ok: "fso_ok s" and p: "frameSorter_Pop s = (s', r)"
  shows "if fso_readPos s \<in> gset (fso_gaps s) then s' = s \<and> r = Ok (fso_readPos s, None, None)
    else \<exists>e. map_of (fso_queue s) (fso_readPos s) = Some e \<and> r = Ok (fso_readPos s, Some (fse_Data e), fse_DoneCb e)
      \<and> fse_Data e \<noteq> [] \<and> fso_readPos s' = fso_readPos s + int (length (fse_Data e)) \<and> fso_ok s' \<and> fso_gaps s' = fso_gaps s
      \<and> map_of (fso_queue s') \<subseteq>\<^sub>m map_of (fso_queue s) \<and> fso_called s' = fso_called s
      \<and> cbs (fso_queue s) = mset (callCb (fse_DoneCb e)) + cbs (fso_queue s')"
proof (cases "map_of (fso_queue s) (fso_readPos s)")
  case None
  then show ?thesis
    using p readPos_queued [OF ok] by (auto simp: frameSorter_Pop_def)
next
  case (Some e)
  let ?r = "fso_readPos s + int (length (fse_Data e))"
  note okD = fso_okD [OF ok]
  have ne: "fse_Data e \<noteq> []"
    using entry_pos [OF okD(5) Some] by auto
  have sub: "{fso_readPos s ..< ?r} \<subseteq> cov (fso_queue s)"
    by (rule entry_cov [OF Some])
  have after: "?r \<le> bi_Start g" if g: "g \<in> set (fso_gaps s)" for g
  proof (rule ccontr)
    assume "\<not> ?thesis"
    then have "bi_Start g \<in> cov (fso_queue s)"
      using sub okD(4) [OF g] by auto
    moreover have "bi_Start g \<in> gset (fso_gaps s)"
      using g gaps_ok_member [OF okD(1) g] by (auto simp: gset_def)
    ultimately show False
      using okD(6) by blast
  qed
  obtain front gtl where g: "fso_gaps s = front # gtl"
    using okD(2) by (cases "fso_gaps s") auto
  have fr: "\<not> bi_End front \<le> ?r"
    using after [of front] gaps_ok_member [OF okD(1), of front] by (simp add: g)
  have s': "s' = s\<lparr>fso_queue := AList.delete (fso_readPos s) (fso_queue s), fso_readPos := ?r\<rparr>"
      "r = Ok (fso_readPos s, Some (fse_Data e), fse_DoneCb e)"
    using p Some fr by (simp_all add: frameSorter_Pop_def g)
  have "fso_ok s'"
    using ok after sub unfolding fso_ok_def s' by (auto simp: cov_delete [OF okD(5) Some] q_wf_delete)
  then show ?thesis
    using readPos_queued [OF ok] Some ne cbs_delete [OF q_wf_distinct [OF okD(5)] Some]
    by (auto simp: s' map_of_delete map_le_def)
qed

section \<open>Runs\<close>

text \<open>
  A run on the stream \<open>str\<close>: the state, the offsets of the bytes that were pushed, the bytes
  that were popped, the callbacks passed to \<^verbatim>\<open>Push\<close> and those returned by \<^verbatim>\<open>Pop\<close>.
\<close>

inductive sorter_run ::
  "(ByteCount \<Rightarrow> byte) \<Rightarrow> frameSorter \<Rightarrow> ByteCount set \<Rightarrow> byte list \<Rightarrow> nat multiset \<Rightarrow> nat multiset \<Rightarrow> bool"
  for str :: "ByteCount \<Rightarrow> byte" where
  start: "sorter_run str newFrameSorter {} [] {#} {#}"
| push: "sorter_run str s R out given handed \<Longrightarrow> 0 \<le> st \<Longrightarrow> st + int (length dat) < MaxByteCount \<Longrightarrow>
    (\<And>n. n < length dat \<Longrightarrow> dat ! n = str (st + int n)) \<Longrightarrow> frameSorter_Push s dat st doneCb = (s', Ok ()) \<Longrightarrow>
    sorter_run str s' (R \<union> {st ..< st + int (length dat)}) out (given + mset (callCb doneCb)) handed"
| pop: "sorter_run str s R out given handed \<Longrightarrow> frameSorter_Pop s = (s', Ok (offset, dat, doneCb)) \<Longrightarrow>
    sorter_run str s' R (out @ (case dat of None \<Rightarrow> [] | Some d \<Rightarrow> d)) given (handed + mset (callCb doneCb))"

definition run_inv ::
  "(ByteCount \<Rightarrow> byte) \<Rightarrow> frameSorter \<Rightarrow> ByteCount set \<Rightarrow> byte list \<Rightarrow> nat multiset \<Rightarrow> nat multiset \<Rightarrow> bool" where
  "run_inv str s R out given handed \<longleftrightarrow> fso_ok s \<and> consistent str (fso_queue s)
     \<and> gset (fso_gaps s) = {0 ..< MaxByteCount} - R \<and> fso_readPos s = int (length out)
     \<and> (\<forall>n < length out. out ! n = str (int n)) \<and> given = handed + mset (fso_called s) + cbs (fso_queue s)"

lemma run_inv_pop:
  assumes inv: "run_inv str s R out given handed" and p: "frameSorter_Pop s = (s', Ok (offset, dat, doneCb))"
  shows "run_inv str s' R (out @ (case dat of None \<Rightarrow> [] | Some d \<Rightarrow> d)) given (handed + mset (callCb doneCb))"
proof -
  have ok: "fso_ok s" "consistent str (fso_queue s)"
    using inv by (simp_all add: run_inv_def)
  note pc = Pop_correct [OF ok(1) p]
  show ?thesis
  proof (cases "fso_readPos s \<in> gset (fso_gaps s)")
    case True
    then show ?thesis
      using pc inv by simp
  next
    case False
    then obtain e where e: "map_of (fso_queue s) (fso_readPos s) = Some e" "dat = Some (fse_Data e)" "doneCb = fse_DoneCb e"
        "fso_readPos s' = fso_readPos s + int (length (fse_Data e))" "fso_ok s'" "fso_gaps s' = fso_gaps s"
        "map_of (fso_queue s') \<subseteq>\<^sub>m map_of (fso_queue s)" "fso_called s' = fso_called s"
        "cbs (fso_queue s) = mset (callCb (fse_DoneCb e)) + cbs (fso_queue s')"
      using pc by auto
    have "consistent str (fso_queue s')"
      using ok(2) map_leD [OF e(7)] by (auto simp: consistent_def)
    moreover have "(out @ fse_Data e) ! n = str (int n)" if "n < length out + length (fse_Data e)" for n
      using inv that ok(2) e(1) by (auto simp: run_inv_def consistent_def nth_append)
    ultimately show ?thesis
      using inv e by (simp add: run_inv_def ac_simps)
  qed
qed

lemma sorter_run_inv: "sorter_run str s R out given handed \<Longrightarrow> run_inv str s R out given handed"
proof (induction rule: sorter_run.induct)
  case start
  then show ?case
    using newFrameSorter_ok by (simp add: run_inv_def newFrameSorter_def consistent_def cbs_def)
next
  case (push s R out given handed st dat doneCb s')
  have ok: "fso_ok s" "consistent str (fso_queue s)"
    using push.IH by (simp_all add: run_inv_def)
  note pc = Push_correct [OF ok(1) push.hyps(2,3,5)]
  show ?case
    using push.IH pc(2,3) pc(4,5) [OF refl] pc(6) [OF refl ok(2) push.hyps(4)] by (auto simp: run_inv_def ac_simps)
qed (rule run_inv_pop)

text \<open>What was popped was pushed before.\<close>

lemma sorter_run_popped:
  assumes "sorter_run str s R out given handed" "n < length out"
  shows "int n \<in> R" "out ! n = str (int n)"
proof -
  have inv: "fso_ok s" "gset (fso_gaps s) = {0 ..< MaxByteCount} - R" "fso_readPos s = int (length out)" "\<forall>n < length out. out ! n = str (int n)"
    using sorter_run_inv [OF assms(1)] by (simp_all add: run_inv_def)
  have "int n \<notin> gset (fso_gaps s)"
    using fso_okD(4) [OF inv(1)] inv(3) assms(2) by (fastforce simp: gset_def)
  then show "int n \<in> R"
    using inv(2,3) readPos_below [OF inv(1)] assms(2) by simp
  show "out ! n = str (int n)"
    using inv(4) assms(2) by blast
qed

lemma sorter_run_stuck:
  assumes "sorter_run str s R out given handed" "frameSorter_Pop s = (s', Ok (off, None, cb))"
  shows "int (length out) \<notin> R"
proof -
  have inv: "fso_ok s" "gset (fso_gaps s) = {0 ..< MaxByteCount} - R" "fso_readPos s = int (length out)"
    using sorter_run_inv [OF assms(1)] by (simp_all add: run_inv_def)
  show ?thesis
    using Pop_correct [OF inv(1) assms(2)] inv(2,3) by (auto split: if_splits)
qed

text \<open>A sample run: the second half of a piece of stream arrives first.\<close>

definition sample_sorter :: frameSorter where
  "sample_sorter = fst (frameSorter_Push newFrameSorter [2, 3] 2 (Some 1))"

lemma sample_run: "sorter_run word_of_int sample_sorter {2 ..< 4} [] {#1#} {#}"
proof -
  have "frameSorter_Push newFrameSorter [2, 3] 2 (Some 1) = (sample_sorter, Ok ())"
    by code_simp
  moreover have "[2, 3 :: byte] ! n = word_of_int (2 + int n)" if "n < length [2, 3 :: byte]" for n
    using that by (auto simp: less_Suc_eq)
  ultimately show ?thesis
    using sorter_run.push [OF sorter_run.start, of 2 "[2, 3]" word_of_int "Some 1" sample_sorter] by (simp add: MaxByteCount_def)
qed

text \<open>
  C4 (reassembly). Whatever pieces of a stream were pushed, in any order and with any
  overlaps, the bytes popped so far are a prefix of the stream. The next call of \<^verbatim>\<open>Pop\<close> does
  not panic; it returns a non-empty piece exactly when the next byte was pushed. A further
  piece is accepted, unless it leaves more than 1000 gaps, and then its bytes count as received.
\<close>

theorem stream_reassembly:
  assumes run: "sorter_run str s R out given handed" and st: "0 \<le> st" "st + int (length dat) < MaxByteCount"
  shows "(\<forall>n < length out. out ! n = str (int n)) \<and> fso_readPos s = int (length out)
    \<and> (if int (length out) \<in> R
       then \<exists>s' d cb. frameSorter_Pop s = (s', Ok (int (length out), Some d, cb)) \<and> d \<noteq> []
       else frameSorter_Pop s = (s, Ok (int (length out), None, None)))
    \<and> (case frameSorter_Push s dat st doneCb of (s', r) \<Rightarrow>
         (r = Ok () \<or> r = Err (ErrorString ''too many gaps in received data''))
         \<and> gset (fso_gaps s') = {0 ..< MaxByteCount} - (R \<union> {st ..< st + int (length dat)}))"
proof -
  have inv: "fso_ok s" "gset (fso_gaps s) = {0 ..< MaxByteCount} - R" "fso_readPos s = int (length out)"
      "\<forall>n < length out. out ! n = str (int n)"
    using sorter_run_inv [OF run] by (simp_all add: run_inv_def)
  have "fso_readPos s \<in> gset (fso_gaps s) \<longleftrightarrow> int (length out) \<notin> R"
    using readPos_below [OF inv(1)] by (simp add: inv(2,3))
  moreover obtain s' r where p: "frameSorter_Pop s = (s', r)"
    by (cases "frameSorter_Pop s")
  moreover obtain s1 r1 where q: "frameSorter_Push s dat st doneCb = (s1, r1)"
    by (cases "frameSorter_Push s dat st doneCb")
  ultimately show ?thesis
    using Pop_correct [OF inv(1) p] Push_correct(1,2) [OF inv(1) st q] inv by auto
qed

theorem stream_reassembly_witness:
  "frameSorter_Pop sample_sorter = (sample_sorter, Ok (0, None, None))
   \<and> (case frameSorter_Push sample_sorter [0, 1] 0 None of (s', r) \<Rightarrow> r = Ok () \<and> gset (fso_gaps s') = {4 ..< MaxByteCount})"
proof -
  have "snd (frameSorter_Push sample_sorter [0, 1] 0 None) = Ok ()"
    by code_simp
  moreover have "{0 ..< MaxByteCount} - ({2 ..< 4} \<union> {0 ..< 2}) = {4 ..< MaxByteCount}"
    by (auto simp: MaxByteCount_def)
  ultimately show ?thesis
    using stream_reassembly [OF sample_run, of 0 "[0, 1]" None] by (auto simp: MaxByteCount_def split: prod.splits)
qed



end
