(* ===== verification/SendStream.thy ===== *)
theory SendStream
  imports FlowControl FrameParser
begin

text \<open>
  The send stream (\<^verbatim>\<open>src/send_stream.go\<close>). Every method runs under the mutex of the stream
  and is one function on its state; a call of \<^verbatim>\<open>Write\<close> gives up the mutex while it waits, and
  is a sequence of passes through its loop. The controller of the connection is passed in
  and returned. Calls of the \<^verbatim>\<open>streamSender\<close> are collected in order. The channels \<^verbatim>\<open>writeChan\<close>
  and \<^verbatim>\<open>writeOnce\<close> of capacity one are flags, the zero deadline and the \<^verbatim>\<open>nil\<close> slice are \<^const>\<open>None\<close>.
\<close>

section \<open>State\<close>

datatype senderCall = OnHasStreamData StreamID | QueueControlFrame Frame | OnStreamCompleted StreamID

record sendStream =
  ss_numOutstandingFrames :: int
  ss_retransmissionQueue :: "StreamFrame list"
  ss_ctx :: "go_error option option"
  ss_streamID :: StreamID
  ss_sender :: "senderCall list"
  ss_writeOffset :: ByteCount
  ss_cancelWriteErr :: "go_error option"
  ss_closeForShutdownErr :: "go_error option"
  ss_finishedWriting :: bool
  ss_finSent :: bool
  ss_completed :: bool
  ss_dataForWriting :: "byte list option"
  ss_nextFrame :: "StreamFrame option"
  ss_writeChan :: bool
  ss_writeOnce :: bool
  ss_deadline :: "int option"
  ss_flowController :: streamFlowController
  ss_fecProtected :: bool

definition newSendStreamWithFEC :: "StreamID \<Rightarrow> streamFlowController \<Rightarrow> bool \<Rightarrow> sendStream" where
  "newSendStreamWithFEC streamID flowController fecProtected =
     \<lparr>ss_numOutstandingFrames = 0, ss_retransmissionQueue = [], ss_ctx = None, ss_streamID = streamID, ss_sender = [],
      ss_writeOffset = 0, ss_cancelWriteErr = None, ss_closeForShutdownErr = None, ss_finishedWriting = False,
      ss_finSent = False, ss_completed = False, ss_dataForWriting = None, ss_nextFrame = None, ss_writeChan = False,
      ss_writeOnce = False, ss_deadline = None, ss_flowController = flowController, ss_fecProtected = fecProtected\<rparr>"

definition newSendStream :: "StreamID \<Rightarrow> streamFlowController \<Rightarrow> sendStream" where
  "newSendStream streamID flowController =
     \<lparr>ss_numOutstandingFrames = 0, ss_retransmissionQueue = [], ss_ctx = None, ss_streamID = streamID, ss_sender = [],
      ss_writeOffset = 0, ss_cancelWriteErr = None, ss_closeForShutdownErr = None, ss_finishedWriting = False,
      ss_finSent = False, ss_completed = False, ss_dataForWriting = None, ss_nextFrame = None, ss_writeChan = False,
      ss_writeOnce = False, ss_deadline = None, ss_flowController = flowController, ss_fecProtected = False\<rparr>"

text \<open>The length of \<^verbatim>\<open>dataForWriting\<close> and its bytes; \<^verbatim>\<open>nil\<close> has none.\<close>

definition forWriting :: "sendStream \<Rightarrow> byte list" where
  "forWriting s = (case ss_dataForWriting s of None \<Rightarrow> [] | Some d \<Rightarrow> d)"

definition callSender :: "sendStream \<Rightarrow> senderCall \<Rightarrow> sendStream" where
  "callSender s c = s\<lparr>ss_sender := ss_sender s @ [c]\<rparr>"

definition signalWrite :: "sendStream \<Rightarrow> sendStream" where
  "signalWrite s = s\<lparr>ss_writeChan := True\<rparr>"

text \<open>A context keeps the cause of its first cancellation.\<close>

definition ctxCancel :: "sendStream \<Rightarrow> go_error option \<Rightarrow> sendStream" where
  "ctxCancel s cause = (if ss_ctx s = None then s\<lparr>ss_ctx := Some cause\<rparr> else s)"

definition canBufferStreamFrame :: "sendStream \<Rightarrow> bool" where
  "canBufferStreamFrame s \<longleftrightarrow>
     (let l = (case ss_nextFrame s of None \<Rightarrow> 0 | Some f \<Rightarrow> StreamFrame_DataLen f)
      in l + int (length (forWriting s)) \<le> int MaxPacketBufferSize)"

text \<open>
  A frame from the pool. Its buffer has room for \<open>MaxPacketBufferSize\<close> bytes. The FIN flag it
  may still have is overwritten before the frame is sent.
\<close>

definition GetStreamFrame :: StreamFrame where
  "GetStreamFrame = \<lparr>sf_StreamID = 0, sf_Offset = 0, sf_Data = [], sf_Fin = False, sf_DataLenPresent = False,
     sf_fromPool = True, sf_FECProtected = False\<rparr>"

section \<open>Writing\<close>

definition errDeadline :: go_error where
  "errDeadline = ErrorString ''deadline exceeded''"

definition deadlinePassed :: "sendStream \<Rightarrow> int \<Rightarrow> bool" where
  "deadlinePassed s now \<longleftrightarrow> (case ss_deadline s of None \<Rightarrow> False | Some d \<Rightarrow> \<not> now < d)"

text \<open>
  The part of \<^verbatim>\<open>Write\<close> before its loop, run once \<^verbatim>\<open>writeOnce\<close> was free: the result of the call, or
  \<^const>\<open>None\<close> to enter the loop.
\<close>

definition Write_start :: "sendStream \<Rightarrow> int \<Rightarrow> byte list \<Rightarrow> sendStream \<times> (int \<times> go_error option) option" where
  "Write_start s now p =
     (if ss_finishedWriting s then (s, Some (0, Some (ErrorString ''write on closed stream'')))
      else if ss_cancelWriteErr s \<noteq> None then (s, Some (0, ss_cancelWriteErr s))
      else if ss_closeForShutdownErr s \<noteq> None then (s, Some (0, ss_closeForShutdownErr s))
      else if deadlinePassed s now then (s, Some (0, Some errDeadline))
      else if length p = 0 then (s, Some (0, None))
      else (s\<lparr>ss_dataForWriting := Some p, ss_writeOnce := True\<rparr>, None))"

text \<open>What \<^verbatim>\<open>Write\<close> returns after its loop.\<close>

definition Write_result :: "sendStream \<Rightarrow> byte list \<Rightarrow> int \<Rightarrow> int \<times> go_error option" where
  "Write_result s p bytesWritten =
     (if bytesWritten = int (length p) then (bytesWritten, None)
      else if ss_closeForShutdownErr s \<noteq> None then (bytesWritten, ss_closeForShutdownErr s)
      else if ss_cancelWriteErr s \<noteq> None then (bytesWritten, ss_cancelWriteErr s)
      else (bytesWritten, None))"

text \<open>
  One pass through the loop, from the mutex being taken to the result or to the wait on
  \<^verbatim>\<open>writeChan\<close> (result \<^const>\<open>None\<close>).
\<close>

definition Write_pass ::
  "sendStream \<Rightarrow> int \<Rightarrow> byte list \<Rightarrow> bool \<Rightarrow> sendStream \<times> bool \<times> (int \<times> go_error option) option outcome" where
  "Write_pass s now p notifiedSender =
     (if canBufferStreamFrame s \<and> length (forWriting s) > 0 then
        let d = forWriting s;
            f = (case ss_nextFrame s of
                   None \<Rightarrow> GetStreamFrame\<lparr>sf_Offset := ss_writeOffset s, sf_StreamID := ss_streamID s,
                             sf_DataLenPresent := True, sf_Data := d\<rparr>
                 | Some f \<Rightarrow> f\<lparr>sf_Data := sf_Data f @ d\<rparr>)
        in if length (sf_Data f) > MaxPacketBufferSize then (s, notifiedSender, Panic ''slice bounds out of range'')
           else
             let s = s\<lparr>ss_nextFrame := Some f, ss_dataForWriting := None\<rparr>;
                 s = (if notifiedSender then s else callSender s (OnHasStreamData (ss_streamID s)))
             in (s\<lparr>ss_writeOnce := False\<rparr>, True, Ok (Some (Write_result s p (int (length p)))))
      else
        let bytesWritten = int (length p) - int (length (forWriting s)) in
        if deadlinePassed s now
        then (s\<lparr>ss_dataForWriting := None, ss_writeOnce := False\<rparr>, notifiedSender, Ok (Some (bytesWritten, Some errDeadline)))
        else if ss_dataForWriting s = None \<or> ss_cancelWriteErr s \<noteq> None \<or> ss_closeForShutdownErr s \<noteq> None
        then (s\<lparr>ss_writeOnce := False\<rparr>, notifiedSender, Ok (Some (Write_result s p bytesWritten)))
        else
          let s = (if notifiedSender then s else callSender s (OnHasStreamData (ss_streamID s)))
          in (s, True, Ok None))"

section \<open>Taking frames\<close>

definition getDataForWriting :: "sendStream \<Rightarrow> StreamFrame \<Rightarrow> ByteCount \<Rightarrow> (sendStream \<times> StreamFrame) outcome" where
  "getDataForWriting s f maxBytes =
     (let d = forWriting s in
      if int (length d) \<le> maxBytes then
        if length d > MaxPacketBufferSize then Panic ''slice bounds out of range''
        else Ok (signalWrite (s\<lparr>ss_dataForWriting := None\<rparr>), f\<lparr>sf_Data := d\<rparr>)
      else if maxBytes < 0 \<or> maxBytes > int MaxPacketBufferSize then Panic ''slice bounds out of range''
      else
        let s = s\<lparr>ss_dataForWriting := Some (drop (nat maxBytes) d)\<rparr>
        in Ok (if canBufferStreamFrame s then signalWrite s else s, f\<lparr>sf_Data := take (nat maxBytes) d\<rparr>))"

definition popNewStreamFrameWithoutBuffer ::
  "sendStream \<Rightarrow> StreamFrame \<Rightarrow> ByteCount \<Rightarrow> ByteCount \<Rightarrow> (sendStream \<times> StreamFrame \<times> bool) outcome" where
  "popNewStreamFrameWithoutBuffer s f maxBytes sendWindow =
     bindr (StreamFrame_MaxDataLen f maxBytes) (\<lambda>maxDataLen.
     bindr (if maxDataLen = 0 then Ok (s, f) else getDataForWriting s f (min maxDataLen sendWindow)) (\<lambda>(s, f).
     Ok (s, f, ss_dataForWriting s \<noteq> None \<or> ss_nextFrame s \<noteq> None \<or> ss_finishedWriting s)))"

definition popNewStreamFrame ::
  "sendStream \<Rightarrow> ByteCount \<Rightarrow> ByteCount \<Rightarrow> (sendStream \<times> StreamFrame option \<times> bool) outcome" where
  "popNewStreamFrame s maxBytes sendWindow =
     (case ss_nextFrame s of
        Some nextFrame \<Rightarrow>
          let s = s\<lparr>ss_nextFrame := None\<rparr> in
          bindr (StreamFrame_MaxDataLen nextFrame maxBytes) (\<lambda>m.
          let maxDataLen = min sendWindow m in
          if StreamFrame_DataLen nextFrame > maxDataLen then
            if maxDataLen < 0 \<or> StreamFrame_DataLen nextFrame - maxDataLen > int MaxPacketBufferSize
            then Panic ''slice bounds out of range''
            else
              let rest = GetStreamFrame\<lparr>sf_StreamID := ss_streamID s, sf_Offset := ss_writeOffset s + maxDataLen,
                           sf_Data := drop (nat maxDataLen) (sf_Data nextFrame), sf_DataLenPresent := True\<rparr>
              in Ok (s\<lparr>ss_nextFrame := Some rest\<rparr>, Some (nextFrame\<lparr>sf_Data := take (nat maxDataLen) (sf_Data nextFrame)\<rparr>), True)
          else
            let s = signalWrite s in Ok (s, Some nextFrame, ss_dataForWriting s \<noteq> None))
      | None \<Rightarrow>
          let f = GetStreamFrame\<lparr>sf_Fin := False, sf_StreamID := ss_streamID s, sf_Offset := ss_writeOffset s,
                    sf_DataLenPresent := True, sf_Data := []\<rparr> in
          bindr (popNewStreamFrameWithoutBuffer s f maxBytes sendWindow) (\<lambda>(s, f, hasMoreData).
          if length (sf_Data f) = 0 \<and> \<not> sf_Fin f then Ok (s, None, hasMoreData)
          else Ok (s, Some f, hasMoreData)))"

definition maybeGetRetransmission ::
  "sendStream \<Rightarrow> ByteCount \<Rightarrow> (sendStream \<times> StreamFrame option \<times> bool) outcome" where
  "maybeGetRetransmission s maxBytes =
     (case ss_retransmissionQueue s of
        [] \<Rightarrow> Panic ''index out of range''
      | f # fs \<Rightarrow>
          bindr (StreamFrame_MaybeSplitOffFrame f maxBytes) (\<lambda>(newFrame, needsSplit, f).
          if needsSplit then Ok (s\<lparr>ss_retransmissionQueue := f # fs\<rparr>, newFrame, True)
          else Ok (s\<lparr>ss_retransmissionQueue := fs\<rparr>, Some f, length fs > 0)))"

text \<open>The part of \<^verbatim>\<open>popNewOrRetransmittedStreamFrame\<close> that follows when nothing is retransmitted.\<close>

definition popNewData ::
  "sendStream \<Rightarrow> connectionFlowController \<Rightarrow> ByteCount
   \<Rightarrow> (sendStream \<times> connectionFlowController \<times> StreamFrame option \<times> bool) outcome" where
  "popNewData s conn maxBytes =
     (if length (forWriting s) = 0 \<and> ss_nextFrame s = None then
       if ss_finishedWriting s \<and> \<not> ss_finSent s then
         Ok (s\<lparr>ss_finSent := True\<rparr>, conn,
             Some \<lparr>sf_StreamID = ss_streamID s, sf_Offset = ss_writeOffset s, sf_Data = [], sf_Fin = True,
                   sf_DataLenPresent = True, sf_fromPool = False, sf_FECProtected = False\<rparr>, False)
       else Ok (s, conn, None, False)
     else
       let sendWindow = stream_SendWindowSize (ss_flowController s) conn in
       if sendWindow = 0 then
         let (fc, isBlocked, offset) = IsNewlyBlocked (ss_flowController s);
             s = s\<lparr>ss_flowController := fc\<rparr>
         in if isBlocked
            then Ok (callSender s (QueueControlFrame (FStreamDataBlocked
                       \<lparr>sdbf_StreamID = ss_streamID s, sdbf_MaximumStreamData = offset\<rparr>)), conn, None, False)
            else Ok (s, conn, None, True)
       else
         bindr (popNewStreamFrame s maxBytes sendWindow) (\<lambda>(s, f, hasMoreData).
         case f of
           None \<Rightarrow> Panic ''invalid memory address or nil pointer dereference''
         | Some f \<Rightarrow>
             let (s, conn) =
                   (if StreamFrame_DataLen f > 0 then
                      let (fc, conn) = stream_AddBytesSent (ss_flowController s) conn (StreamFrame_DataLen f)
                      in (s\<lparr>ss_writeOffset := ss_writeOffset s + StreamFrame_DataLen f, ss_flowController := fc\<rparr>, conn)
                    else (s, conn));
                 f = f\<lparr>sf_Fin := ss_finishedWriting s \<and> ss_dataForWriting s = None \<and> ss_nextFrame s = None \<and> \<not> ss_finSent s\<rparr>;
                 s = (if sf_Fin f then s\<lparr>ss_finSent := True\<rparr> else s)
             in Ok (s, conn, Some f, hasMoreData)))"

definition popNewOrRetransmittedStreamFrame ::
  "sendStream \<Rightarrow> connectionFlowController \<Rightarrow> ByteCount
   \<Rightarrow> (sendStream \<times> connectionFlowController \<times> StreamFrame option \<times> bool) outcome" where
  "popNewOrRetransmittedStreamFrame s conn maxBytes =
     (if ss_cancelWriteErr s \<noteq> None \<or> ss_closeForShutdownErr s \<noteq> None then Ok (s, conn, None, False)
      else
        bindr (if length (ss_retransmissionQueue s) > 0 then maybeGetRetransmission s maxBytes else Ok (s, None, False))
          (\<lambda>(s, f, hasMoreRetransmissions).
        if f \<noteq> None \<or> hasMoreRetransmissions then Ok (s, conn, f, True)
        else popNewData s conn maxBytes))"

text \<open>The frame that is sent, if there is one, and whether the stream has more data.\<close>

definition popStreamFrame ::
  "sendStream \<Rightarrow> connectionFlowController \<Rightarrow> ByteCount
   \<Rightarrow> (sendStream \<times> connectionFlowController \<times> StreamFrame option \<times> bool) outcome" where
  "popStreamFrame s conn maxBytes =
     bindr (popNewOrRetransmittedStreamFrame s conn maxBytes) (\<lambda>(s, conn, f, hasMoreData).
     case f of
       None \<Rightarrow> Ok (s, conn, None, hasMoreData)
     | Some f \<Rightarrow>
         let s = s\<lparr>ss_numOutstandingFrames := ss_numOutstandingFrames s + 1\<rparr>
         in Ok (s, conn, Some (f\<lparr>sf_FECProtected := ss_fecProtected s\<rparr>), hasMoreData))"

definition sendStream_hasData :: "sendStream \<Rightarrow> bool" where
  "sendStream_hasData s \<longleftrightarrow> length (forWriting s) > 0"

section \<open>Closing\<close>

definition isNewlyCompleted :: "sendStream \<Rightarrow> sendStream \<times> bool" where
  "isNewlyCompleted s =
     (let completed = ((ss_finSent s \<or> ss_cancelWriteErr s \<noteq> None) \<and> ss_numOutstandingFrames s = 0
                        \<and> length (ss_retransmissionQueue s) = 0)
      in if completed \<and> \<not> ss_completed s then (s\<lparr>ss_completed := True\<rparr>, True) else (s, False))"

definition sendStream_Close :: "sendStream \<Rightarrow> sendStream \<times> unit outcome" where
  "sendStream_Close s =
     (if ss_closeForShutdownErr s \<noteq> None then (s, Ok ())
      else if ss_cancelWriteErr s \<noteq> None then (s, Err (ErrorString ''close called for canceled stream''))
      else
        let s = (ctxCancel s None)\<lparr>ss_finishedWriting := True\<rparr>
        in (callSender s (OnHasStreamData (ss_streamID s)), Ok ()))"

definition cancelWriteImpl :: "sendStream \<Rightarrow> u64 \<Rightarrow> bool \<Rightarrow> sendStream" where
  "cancelWriteImpl s errorCode remote =
     (if ss_cancelWriteErr s \<noteq> None then s
      else
        let s = s\<lparr>ss_cancelWriteErr := Some (StreamError (ss_streamID s) errorCode remote)\<rparr>;
            s = ctxCancel s (ss_cancelWriteErr s);
            s = s\<lparr>ss_numOutstandingFrames := 0, ss_retransmissionQueue := []\<rparr>;
            (s, newlyCompleted) = isNewlyCompleted s;
            s = signalWrite s;
            s = callSender s (QueueControlFrame (FResetStream
                  \<lparr>rsf_StreamID = ss_streamID s, rsf_ErrorCode = errorCode, rsf_FinalSize = ss_writeOffset s\<rparr>))
        in if newlyCompleted then callSender s (OnStreamCompleted (ss_streamID s)) else s)"

definition CancelWrite :: "sendStream \<Rightarrow> u64 \<Rightarrow> sendStream" where
  "CancelWrite s errorCode = cancelWriteImpl s errorCode False"

definition handleStopSendingFrame :: "sendStream \<Rightarrow> StopSendingFrame \<Rightarrow> sendStream" where
  "handleStopSendingFrame s frame = cancelWriteImpl s (ssf_ErrorCode frame) True"

definition updateSendWindow :: "sendStream \<Rightarrow> ByteCount \<Rightarrow> sendStream" where
  "updateSendWindow s limit =
     (let (fc, updated) = UpdateSendWindow (ss_flowController s) limit;
          s = s\<lparr>ss_flowController := fc\<rparr>
      in if \<not> updated then s
         else if ss_dataForWriting s \<noteq> None \<or> ss_nextFrame s \<noteq> None
         then callSender s (OnHasStreamData (ss_streamID s)) else s)"

definition SetWriteDeadline :: "sendStream \<Rightarrow> int option \<Rightarrow> sendStream" where
  "SetWriteDeadline s t = signalWrite (s\<lparr>ss_deadline := t\<rparr>)"

definition sendStream_closeForShutdown :: "sendStream \<Rightarrow> go_error option \<Rightarrow> sendStream" where
  "sendStream_closeForShutdown s err = signalWrite ((ctxCancel s err)\<lparr>ss_closeForShutdownErr := err\<rparr>)"

section \<open>Acknowledgements and losses\<close>

definition sendStream_OnAcked :: "sendStream \<Rightarrow> StreamFrame \<Rightarrow> sendStream outcome" where
  "sendStream_OnAcked s f =
     (if ss_cancelWriteErr s \<noteq> None then Ok s
      else
        let s = s\<lparr>ss_numOutstandingFrames := ss_numOutstandingFrames s - 1\<rparr> in
        if ss_numOutstandingFrames s < 0 then Panic ''numOutStandingFrames negative''
        else
          let (s, newlyCompleted) = isNewlyCompleted s
          in Ok (if newlyCompleted then callSender s (OnStreamCompleted (ss_streamID s)) else s))"

definition sendStream_OnLost :: "sendStream \<Rightarrow> StreamFrame \<Rightarrow> sendStream outcome" where
  "sendStream_OnLost s f =
     (if ss_cancelWriteErr s \<noteq> None then Ok s
      else
        let s = s\<lparr>ss_retransmissionQueue := ss_retransmissionQueue s @ [f\<lparr>sf_DataLenPresent := True\<rparr>],
                  ss_numOutstandingFrames := ss_numOutstandingFrames s - 1\<rparr> in
        if ss_numOutstandingFrames s < 0 then Panic ''numOutStandingFrames negative''
        else Ok (callSender s (OnHasStreamData (ss_streamID s))))"

end
