(* ===== verification/SendStreamLaws.thy ===== *)
theory SendStreamLaws
  imports SendStream
begin

text \<open>
  Laws of the operations of a send stream (\<^verbatim>\<open>src/send_stream.go\<close>): what each of them does to the
  bytes that wait to be sent, to the frame it takes, and to the invariant of the data.
\<close>

section \<open>Sizes\<close>

definition MinStreamFrameSize :: ByteCount where
  "MinStreamFrameSize = 128"

lemma MaxDataLen_irrelevant [simp]:
  "StreamFrame_MaxDataLen (f\<lparr>sf_Data := d, sf_Fin := b\<rparr>) m = StreamFrame_MaxDataLen f m"
  by (simp add: StreamFrame_MaxDataLen_def cong: if_cong)

text \<open>
  When at least \<open>MinStreamFrameSize\<close> bytes are left, a STREAM frame with a length field has
  room for data, and with no more data than that it fits.
\<close>

lemma MaxDataLen_room:
  assumes f: "fits_i (sf_StreamID f)" "0 \<le> sf_Offset f" "sf_Offset f \<le> MaxByteCount" "sf_DataLenPresent f"
    and m: "MinStreamFrameSize \<le> maxBytes" "fits_i maxBytes"
  obtains n where "StreamFrame_MaxDataLen f maxBytes = Ok n" "0 < n" "n \<le> maxBytes"
    "\<And>g. sf_StreamID g = sf_StreamID f \<Longrightarrow> sf_Offset g = sf_Offset f \<Longrightarrow> sf_DataLenPresent g \<Longrightarrow> int (length (sf_Data g)) \<le> n \<Longrightarrow>
       length (sf_Data g) \<le> MaxPacketBufferSize \<Longrightarrow> sf_Offset g + int (length (sf_Data g)) \<le> MaxByteCount \<Longrightarrow> \<exists>l. StreamFrame_Length g = Ok l \<and> l \<le> maxBytes"
proof -
  define h where "h = StreamFrame_header f"
  have h: "1 \<le> h" "h \<le> 17"
    using length_varint_le [of "to_u64 (sf_StreamID f)"] length_varint_le [of "to_u64 (sf_Offset f)"]
    by (auto simp: h_def StreamFrame_header_def)
  have wf: "StreamFrame_wf (f\<lparr>sf_Data := [], sf_Fin := True\<rparr>)"
    using f by (simp add: StreamFrame_wf_def)
  define n where "n = (if 64 \<le> maxBytes - (h + 1) then maxBytes - (h + 1) - 1 else maxBytes - (h + 1))"
  have n: "StreamFrame_MaxDataLen f maxBytes = Ok n" "0 < n" "n \<le> maxBytes"
    using StreamFrame_MaxDataLen_Ok [OF wf m(2)] h m(1) f(4)
    by (auto simp: Let_def n_def MinStreamFrameSize_def h_def StreamFrame_header_def)
  moreover have "\<exists>l. StreamFrame_Length g = Ok l \<and> l \<le> maxBytes"
    if g: "sf_StreamID g = sf_StreamID f" "sf_Offset g = sf_Offset f" "sf_DataLenPresent g" "int (length (sf_Data g)) \<le> n"
      "length (sf_Data g) \<le> MaxPacketBufferSize" "sf_Offset g + int (length (sf_Data g)) \<le> MaxByteCount" for g
  proof -
    have "StreamFrame_Length (g\<lparr>sf_Fin := True\<rparr>) = Ok (StreamFrame_header (g\<lparr>sf_Fin := True\<rparr>) + int (length (varint (len64 (sf_Data g)))) + int (length (sf_Data g)))"
      using g f StreamFrame_Length_header [of "g\<lparr>sf_Fin := True\<rparr>"] by (simp add: StreamFrame_wf_def)
    moreover have "StreamFrame_Length (g\<lparr>sf_Fin := True\<rparr>) = StreamFrame_Length g" "StreamFrame_header (g\<lparr>sf_Fin := True\<rparr>) = h"
      using g by (simp_all add: StreamFrame_Length_def StreamFrame_DataLen_def StreamFrame_header_def h_def cong: if_cong)
    moreover have "length (varint (len64 (sf_Data g))) = (if length (sf_Data g) < 64 then 1 else 2)"
      using length_varint_bounds [of "int (length (sf_Data g))"] g(5) by (auto simp: len64_def MaxPacketBufferSize_def fits_i_def)
    ultimately show ?thesis
      using g(4) h m(1) by (auto simp: n_def MinStreamFrameSize_def split: if_splits)
  qed
  ultimately show ?thesis
    using that by blast
qed

section \<open>Data that waits to be sent\<close>

text \<open>The buffered frame, which starts at the given offset, and the bytes in both places.\<close>

definition next_at :: "ByteCount \<Rightarrow> sendStream \<Rightarrow> bool" where
  "next_at off s \<longleftrightarrow> (case ss_nextFrame s of None \<Rightarrow> True
     | Some g \<Rightarrow> sf_StreamID g = ss_streamID s \<and> sf_Offset g = off \<and> sf_Data g \<noteq> []
         \<and> length (sf_Data g) \<le> MaxPacketBufferSize \<and> sf_DataLenPresent g)"

definition buffered :: "sendStream \<Rightarrow> byte list" where
  "buffered s = (case ss_nextFrame s of None \<Rightarrow> [] | Some g \<Rightarrow> sf_Data g)"

lemma signalWrite_simps [simp]:
  "ss_nextFrame (signalWrite s) = ss_nextFrame s" "ss_dataForWriting (signalWrite s) = ss_dataForWriting s"
  "ss_streamID (signalWrite s) = ss_streamID s" "ss_writeOffset (signalWrite s) = ss_writeOffset s"
  by (simp_all add: signalWrite_def)

text \<open>What \<^verbatim>\<open>popNewStreamFrame\<close> does: \<open>f\<close> takes the first bytes that wait.\<close>

definition took_new :: "sendStream \<Rightarrow> ByteCount \<Rightarrow> ByteCount \<Rightarrow> StreamFrame \<Rightarrow> sendStream \<Rightarrow> bool" where
  "took_new s maxBytes sendWindow f s' \<longleftrightarrow>
     s' = s\<lparr>ss_nextFrame := ss_nextFrame s', ss_dataForWriting := ss_dataForWriting s', ss_writeChan := ss_writeChan s'\<rparr>
     \<and> sf_Data f \<noteq> [] \<and> int (length (sf_Data f)) \<le> sendWindow \<and> length (sf_Data f) \<le> MaxPacketBufferSize
     \<and> sf_StreamID f = ss_streamID s \<and> sf_Offset f = ss_writeOffset s \<and> sf_DataLenPresent f
     \<and> (\<exists>l. StreamFrame_Length f = Ok l \<and> l \<le> maxBytes)
     \<and> buffered s @ forWriting s = sf_Data f @ buffered s' @ forWriting s'
     \<and> next_at (ss_writeOffset s + int (length (sf_Data f))) s'
     \<and> ss_dataForWriting s' \<noteq> Some [] \<and> length (forWriting s') \<le> length (forWriting s)"

lemma getDataForWriting_law:
  assumes d: "ss_dataForWriting s = Some d" and k: "0 < k" "k \<le> int MaxPacketBufferSize"
  shows "\<exists>wc. getDataForWriting s f k =
    Ok (s\<lparr>ss_dataForWriting := (if int (length d) \<le> k then None else Some (drop (nat k) d)), ss_writeChan := wc\<rparr>, f\<lparr>sf_Data := take (nat k) d\<rparr>)"
proof (cases "int (length d) \<le> k")
  case True
  then show ?thesis
    using d k by (intro exI [of _ True]) (simp add: getDataForWriting_def forWriting_def signalWrite_def)
next
  case False
  let ?s = "s\<lparr>ss_dataForWriting := Some (drop (nat k) d)\<rparr>"
  have "getDataForWriting s f k = Ok (if canBufferStreamFrame ?s then signalWrite ?s else ?s, f\<lparr>sf_Data := take (nat k) d\<rparr>)"
    using False d k by (simp add: getDataForWriting_def forWriting_def Let_def)
  moreover have "(if canBufferStreamFrame ?s then signalWrite ?s else ?s) = ?s\<lparr>ss_writeChan := canBufferStreamFrame ?s \<or> ss_writeChan s\<rparr>"
    by (simp add: signalWrite_def)
  ultimately show ?thesis
    using False by auto
qed

lemma popNewStreamFrame_law:
  assumes nx: "next_at (ss_writeOffset s) s" and df: "ss_dataForWriting s \<noteq> Some []"
    and some: "forWriting s \<noteq> [] \<or> ss_nextFrame s \<noteq> None" and w: "0 < sendWindow" "ss_writeOffset s + sendWindow \<le> MaxByteCount"
    and off: "fits_i (ss_streamID s)" "0 \<le> ss_writeOffset s" and m: "MinStreamFrameSize \<le> maxBytes" "maxBytes \<le> int MaxPacketBufferSize"
  shows "\<exists>s' f more. popNewStreamFrame s maxBytes sendWindow = Ok (s', Some f, more) \<and> took_new s maxBytes sendWindow f s'"
proof -
  have fm: "fits_i maxBytes"
    using m by (simp add: fits_i_def MinStreamFrameSize_def MaxPacketBufferSize_def)
  have wm: "ss_writeOffset s \<le> MaxByteCount"
    using w by simp
  show ?thesis
  proof (cases "ss_nextFrame s")
    case (Some g)
    then have g: "sf_StreamID g = ss_streamID s" "sf_Offset g = ss_writeOffset s" "sf_Data g \<noteq> []"
        "length (sf_Data g) \<le> MaxPacketBufferSize" "sf_DataLenPresent g"
      using nx by (simp_all add: next_at_def)
    obtain n where n: "StreamFrame_MaxDataLen g maxBytes = Ok n" "0 < n" "n \<le> maxBytes"
      and fit: "\<And>h. sf_StreamID h = sf_StreamID g \<Longrightarrow> sf_Offset h = sf_Offset g \<Longrightarrow> sf_DataLenPresent h \<Longrightarrow> int (length (sf_Data h)) \<le> n \<Longrightarrow>
        length (sf_Data h) \<le> MaxPacketBufferSize \<Longrightarrow> sf_Offset h + int (length (sf_Data h)) \<le> MaxByteCount \<Longrightarrow> \<exists>l. StreamFrame_Length h = Ok l \<and> l \<le> maxBytes"
      using MaxDataLen_room [of g maxBytes] g off wm m(1) fm by auto
    show ?thesis
    proof (cases "StreamFrame_DataLen g > min sendWindow n")
      case True
      let ?k = "min sendWindow n"
      have k: "0 < ?k" "?k < int (length (sf_Data g))"
        using True w n(2) by (auto simp: StreamFrame_DataLen_def)
      define f where "f = g\<lparr>sf_Data := take (nat ?k) (sf_Data g)\<rparr>"
      have lf: "int (length (sf_Data f)) = ?k"
        using k by (simp add: f_def)
      have len: "\<exists>l. StreamFrame_Length f = Ok l \<and> l \<le> maxBytes"
        using g k w by (intro fit) (auto simp: f_def)
      define rest where "rest = GetStreamFrame\<lparr>sf_StreamID := ss_streamID s, sf_Offset := ss_writeOffset s + ?k,
          sf_Data := drop (nat ?k) (sf_Data g), sf_DataLenPresent := True\<rparr>"
      have ev: "popNewStreamFrame s maxBytes sendWindow =
          Ok (s\<lparr>ss_nextFrame := Some rest, ss_dataForWriting := ss_dataForWriting s, ss_writeChan := ss_writeChan s\<rparr>, Some f, True)"
        using True k g(4) by (auto simp: popNewStreamFrame_def Some n(1) f_def rest_def StreamFrame_DataLen_def Let_def)
      have "took_new s maxBytes sendWindow f
          (s\<lparr>ss_nextFrame := Some rest, ss_dataForWriting := ss_dataForWriting s, ss_writeChan := ss_writeChan s\<rparr>)"
        using k g lf df Some len by (auto simp: took_new_def f_def rest_def buffered_def forWriting_def next_at_def GetStreamFrame_def)
      with ev show ?thesis
        by blast
    next
      case False
      then have k: "int (length (sf_Data g)) \<le> sendWindow" "int (length (sf_Data g)) \<le> n"
        by (auto simp: StreamFrame_DataLen_def)
      have len: "\<exists>l. StreamFrame_Length g = Ok l \<and> l \<le> maxBytes"
        using g k w by (intro fit) auto
      have ev: "popNewStreamFrame s maxBytes sendWindow =
          Ok (s\<lparr>ss_nextFrame := None, ss_dataForWriting := ss_dataForWriting s, ss_writeChan := True\<rparr>, Some g, ss_dataForWriting s \<noteq> None)"
        using False by (simp add: popNewStreamFrame_def Some n(1) signalWrite_def)
      have "took_new s maxBytes sendWindow g (s\<lparr>ss_nextFrame := None, ss_dataForWriting := ss_dataForWriting s, ss_writeChan := True\<rparr>)"
        using k g df Some len by (auto simp: took_new_def buffered_def forWriting_def next_at_def)
      with ev show ?thesis
        by blast
    qed
  next
    case None
    define f0 where "f0 = GetStreamFrame\<lparr>sf_Fin := False, sf_StreamID := ss_streamID s, sf_Offset := ss_writeOffset s,
        sf_DataLenPresent := True, sf_Data := []\<rparr>"
    have f0: "sf_StreamID f0 = ss_streamID s" "sf_Offset f0 = ss_writeOffset s" "sf_DataLenPresent f0" "\<not> sf_Fin f0"
      by (simp_all add: f0_def)
    obtain n where n: "StreamFrame_MaxDataLen f0 maxBytes = Ok n" "0 < n" "n \<le> maxBytes"
      and fit: "\<And>h. sf_StreamID h = sf_StreamID f0 \<Longrightarrow> sf_Offset h = sf_Offset f0 \<Longrightarrow> sf_DataLenPresent h \<Longrightarrow> int (length (sf_Data h)) \<le> n \<Longrightarrow>
        length (sf_Data h) \<le> MaxPacketBufferSize \<Longrightarrow> sf_Offset h + int (length (sf_Data h)) \<le> MaxByteCount \<Longrightarrow> \<exists>l. StreamFrame_Length h = Ok l \<and> l \<le> maxBytes"
      using MaxDataLen_room [of f0 maxBytes] f0 off wm m(1) fm by auto
    obtain d where d: "ss_dataForWriting s = Some d" "d \<noteq> []" "forWriting s = d"
      using some None by (auto simp: forWriting_def split: option.splits)
    define k where "k = min n sendWindow"
    define f where "f = f0\<lparr>sf_Data := take (nat k) d\<rparr>"
    have k: "0 < k" "k \<le> sendWindow" "k \<le> n" "n \<le> int MaxPacketBufferSize"
      using n w m(2) by (auto simp: k_def)
    define df' where "df' = (if int (length d) \<le> k then None else Some (drop (nat k) d))"
    obtain wc where g: "getDataForWriting s f0 k = Ok (s\<lparr>ss_dataForWriting := df', ss_writeChan := wc\<rparr>, f)"
      using getDataForWriting_law [OF d(1), of k f0] k unfolding df'_def f_def by force
    have fd: "sf_Data f \<noteq> []" "int (length (sf_Data f)) \<le> k"
      using k d(2) by (auto simp: f_def)
    have ev: "\<exists>more. popNewStreamFrame s maxBytes sendWindow =
        Ok (s\<lparr>ss_dataForWriting := df', ss_writeChan := wc\<rparr>, Some f, more)"
      using fd n(2) by (simp add: popNewStreamFrame_def None popNewStreamFrameWithoutBuffer_def n(1) g flip: f0_def k_def)
    have "\<exists>l. StreamFrame_Length f = Ok l \<and> l \<le> maxBytes"
      using fd k w f0 by (intro fit) (auto simp: f_def)
    moreover have "d = sf_Data f @ (case df' of None \<Rightarrow> [] | Some d \<Rightarrow> d)" "df' \<noteq> Some []"
      using k(1) by (simp_all add: f_def df'_def, linarith)
    then have "length (case df' of None \<Rightarrow> [] | Some d \<Rightarrow> d) \<le> length d" "d = sf_Data f @ (case df' of None \<Rightarrow> [] | Some d \<Rightarrow> d)" "df' \<noteq> Some []"
      by (metis length_append le_add2, simp_all)
    moreover have "sf_StreamID f = ss_streamID s" "sf_Offset f = ss_writeOffset s" "sf_DataLenPresent f" "int (length (sf_Data f)) \<le> sendWindow"
        "length (sf_Data f) \<le> MaxPacketBufferSize"
      using fd k f0 by (simp_all add: f_def)
    ultimately have "took_new s maxBytes sendWindow f (s\<lparr>ss_dataForWriting := df', ss_writeChan := wc\<rparr>)"
      using fd(1) d None unfolding took_new_def buffered_def forWriting_def next_at_def by simp
    with ev show ?thesis
      by blast
  qed
qed

section \<open>The invariant\<close>

text \<open>
  A frame that carries the bytes \<open>snt\<close> sent so far: its data is found there at its offset, and
  FIN marks the end.
\<close>

definition frame_of :: "StreamID \<Rightarrow> byte list \<Rightarrow> bool \<Rightarrow> StreamFrame \<Rightarrow> bool" where
  "frame_of sid snt fin f \<longleftrightarrow> sf_StreamID f = sid \<and> 0 \<le> sf_Offset f \<and> (sf_Data f \<noteq> [] \<or> sf_Fin f)
     \<and> length (sf_Data f) \<le> MaxPacketBufferSize \<and> sf_Offset f + int (length (sf_Data f)) \<le> int (length snt)
     \<and> take (length (sf_Data f)) (drop (nat (sf_Offset f)) snt) = sf_Data f
     \<and> (sf_Fin f \<longrightarrow> fin \<and> sf_Offset f + int (length (sf_Data f)) = int (length snt))"

definition stopped :: "sendStream \<Rightarrow> bool" where
  "stopped s \<longleftrightarrow> ss_cancelWriteErr s \<noteq> None \<or> ss_closeForShutdownErr s \<noteq> None"

text \<open>
  The bytes accepted from the application, by calls of \<^verbatim>\<open>Write\<close> that returned (\<open>content\<close>) and by
  the one in progress, are those sent followed by those that wait.
\<close>

definition data_inv :: "sendStream \<Rightarrow> byte list \<Rightarrow> byte list option \<Rightarrow> byte list \<Rightarrow> bool" where
  "data_inv s content call snt \<longleftrightarrow> fits_i (ss_streamID s) \<and> ss_writeOffset s = int (length snt)
     \<and> fc_bytesSent (ss_flowController s) = int (length snt)
     \<and> int (length snt) \<le> fc_sendWindow (ss_flowController s) \<and> fc_sendWindow (ss_flowController s) \<le> MaxByteCount
     \<and> content @ (case call of None \<Rightarrow> [] | Some p \<Rightarrow> p) = snt @ buffered s @ (if call = None then [] else forWriting s)
     \<and> (call = None \<and> \<not> stopped s \<longrightarrow> ss_dataForWriting s = None) \<and> ss_dataForWriting s \<noteq> Some []
     \<and> next_at (int (length snt)) s
     \<and> (ss_finSent s \<longrightarrow> ss_finishedWriting s \<and> ss_nextFrame s = None \<and> ss_dataForWriting s = None)
     \<and> (\<forall>p. call = Some p \<longrightarrow> length (forWriting s) \<le> length p)"

definition covers :: "StreamFrame set \<Rightarrow> ByteCount set" where
  "covers F = (\<Union>f \<in> F. {sf_Offset f ..< sf_Offset f + int (length (sf_Data f))})"

lemma frame_of_wf: "frame_of sid snt fin f \<Longrightarrow> fits_i sid \<Longrightarrow> int (length snt) \<le> MaxByteCount \<Longrightarrow> StreamFrame_wf f"
  by (auto simp: frame_of_def StreamFrame_wf_def)

lemma frame_of_more:
  "frame_of sid snt False f \<Longrightarrow> frame_of sid (snt @ b) fin f"
  by (auto simp: frame_of_def)

lemma take_both:
  assumes "take (length a + length b) xs = a @ b"
  shows "take (length a) xs = a" "take (length b) (drop (length a) xs) = b"
proof -
  have "length a + length b \<le> length xs"
    using arg_cong [OF assms, of length] by simp
  then show "take (length a) xs = a" "take (length b) (drop (length a) xs) = b"
    using assms by (simp_all add: take_add append_eq_append_conv)
qed

lemma frame_of_split:
  assumes "frame_of sid snt fin f" "sf_Data g @ sf_Data f' = sf_Data f" "sf_Data g \<noteq> []" "sf_Data f' \<noteq> []"
    "sf_Offset g = sf_Offset f" "sf_Offset f' = sf_Offset f + int (length (sf_Data g))"
    "sf_StreamID g = sf_StreamID f" "sf_StreamID f' = sf_StreamID f" "\<not> sf_Fin g" "sf_Fin f' = sf_Fin f"
  shows "frame_of sid snt fin g" "frame_of sid snt fin f'" "covers {g, f'} = covers {f}"
proof -
  have len: "length (sf_Data f) = length (sf_Data g) + length (sf_Data f')"
    using assms(2) by (metis length_append)
  have "take (length (sf_Data g) + length (sf_Data f')) (drop (nat (sf_Offset f)) snt) = sf_Data g @ sf_Data f'"
    using assms(1,2) len by (simp add: frame_of_def)
  then have "take (length (sf_Data g)) (drop (nat (sf_Offset f)) snt) = sf_Data g"
    "take (length (sf_Data f')) (drop (length (sf_Data g)) (drop (nat (sf_Offset f)) snt)) = sf_Data f'"
    using take_both by blast+
  then show "frame_of sid snt fin g" "frame_of sid snt fin f'"
    using assms len by (simp_all add: frame_of_def nat_add_distrib ac_simps)
  show "covers {g, f'} = covers {f}"
    using assms len by (auto simp: covers_def)
qed

section \<open>Taking a frame\<close>

lemma header_bound: "StreamFrame_header f \<le> 17"
  using length_varint_le [of "to_u64 (sf_StreamID f)"] length_varint_le [of "to_u64 (sf_Offset f)"]
  by (auto simp: StreamFrame_header_def)

lemma retransmission_law:
  assumes q: "ss_retransmissionQueue s = f0 # q" and f0: "frame_of sid snt fin f0" "fits_i sid" "int (length snt) \<le> MaxByteCount"
    and m: "MinStreamFrameSize \<le> maxBytes" "maxBytes \<le> int MaxPacketBufferSize"
  shows "\<exists>f q' more. maybeGetRetransmission s maxBytes = Ok (s\<lparr>ss_retransmissionQueue := q'\<rparr>, Some f, more)
    \<and> frame_of sid snt fin f \<and> (\<exists>l. StreamFrame_Length f = Ok l \<and> l \<le> maxBytes)
    \<and> (\<forall>g \<in> set q'. g \<in> set q \<or> frame_of sid snt fin g)
    \<and> covers (insert f (set q')) = covers (set (f0 # q)) \<and> (sf_Fin f0 \<longrightarrow> (\<exists>g \<in> insert f (set q'). sf_Fin g)) \<and> set q \<subseteq> set q'"
proof -
  have wf: "StreamFrame_wf f0" and fm: "fits_i maxBytes"
    using frame_of_wf [OF f0] m by (simp_all add: fits_i_def MinStreamFrameSize_def MaxPacketBufferSize_def)
  obtain new needed f' where sp: "StreamFrame_MaybeSplitOffFrame f0 maxBytes = Ok (new, needed, f')"
    and nd: "needed \<longleftrightarrow> (\<exists>len. StreamFrame_Length f0 = Ok len \<and> maxBytes < len)"
    and nw: "case new of None \<Rightarrow> f' = f0
       | Some g \<Rightarrow> needed \<and> sf_Data g @ sf_Data f' = sf_Data f0 \<and> sf_Data g \<noteq> [] \<and> sf_Data f' \<noteq> []
           \<and> sf_Offset g = sf_Offset f0 \<and> sf_Offset f' = sf_Offset f0 + int (length (sf_Data g))
           \<and> sf_StreamID g = sf_StreamID f0 \<and> sf_StreamID f' = sf_StreamID f0
           \<and> \<not> sf_Fin g \<and> sf_Fin f' = sf_Fin f0
           \<and> (\<exists>len. StreamFrame_Length g = Ok len \<and> len \<le> maxBytes)"
    using StreamFrame_split_law [OF wf fm] by blast
  obtain len where len: "StreamFrame_Length f0 = Ok len"
    using StreamFrame_Length_Ok [OF wf] by blast
  show ?thesis
  proof (cases new)
    case None
    obtain n where n: "StreamFrame_MaxDataLen f0 maxBytes = Ok n" "n \<noteq> 0"
      using StreamFrame_MaxDataLen_Ok [OF wf fm] header_bound [of f0] m(1) by (auto simp: Let_def MinStreamFrameSize_def)
    have "\<not> needed"
      using sp n None len nd by (auto simp: StreamFrame_MaybeSplitOffFrame_def Let_def split: if_splits)
    then have "maybeGetRetransmission s maxBytes = Ok (s\<lparr>ss_retransmissionQueue := q\<rparr>, Some f0, length q > 0)" "len \<le> maxBytes"
      using sp nw nd len None q by (auto simp: maybeGetRetransmission_def)
    then show ?thesis
      using f0(1) len by auto
  next
    case (Some g)
    note fs = frame_of_split [OF f0(1), of g f']
    have "maybeGetRetransmission s maxBytes = Ok (s\<lparr>ss_retransmissionQueue := f' # q\<rparr>, Some g, True)"
      using sp nw Some q by (simp add: maybeGetRetransmission_def)
    moreover have "covers (insert g (set (f' # q))) = covers {g, f'} \<union> covers (set q)" "covers (set (f0 # q)) = covers {f0} \<union> covers (set q)"
      by (auto simp: covers_def)
    ultimately show ?thesis
      using nw Some fs by auto
  qed
qed

definition same_control :: "sendStream \<Rightarrow> sendStream \<Rightarrow> bool" where
  "same_control s s' \<longleftrightarrow> ss_streamID s' = ss_streamID s \<and> ss_cancelWriteErr s' = ss_cancelWriteErr s
     \<and> ss_closeForShutdownErr s' = ss_closeForShutdownErr s \<and> ss_numOutstandingFrames s' = ss_numOutstandingFrames s
     \<and> ss_completed s' = ss_completed s \<and> ss_finishedWriting s' = ss_finishedWriting s \<and> ss_fecProtected s' = ss_fecProtected s"

text \<open>A frame from the retransmission queue, and a frame with new data or the FIN.\<close>

definition resent :: "sendStream \<Rightarrow> byte list \<Rightarrow> StreamFrame \<Rightarrow> sendStream \<Rightarrow> bool" where
  "resent s snt f s' \<longleftrightarrow> s' = s\<lparr>ss_retransmissionQueue := ss_retransmissionQueue s'\<rparr> \<and> ss_retransmissionQueue s \<noteq> []
     \<and> (\<forall>g \<in> insert f (set (ss_retransmissionQueue s')). frame_of (ss_streamID s) snt (ss_finSent s) g)
     \<and> covers (insert f (set (ss_retransmissionQueue s'))) = covers (set (ss_retransmissionQueue s))
     \<and> ((\<exists>g \<in> set (ss_retransmissionQueue s). sf_Fin g) \<longrightarrow> (\<exists>g \<in> insert f (set (ss_retransmissionQueue s')). sf_Fin g))"

definition fresh_frame :: "sendStream \<Rightarrow> byte list \<Rightarrow> byte list option \<Rightarrow> byte list \<Rightarrow> StreamFrame \<Rightarrow> sendStream \<Rightarrow> bool" where
  "fresh_frame s content call snt f s' \<longleftrightarrow> \<not> ss_finSent s \<and> ss_retransmissionQueue s' = ss_retransmissionQueue s
     \<and> data_inv s' content call (snt @ sf_Data f) \<and> frame_of (ss_streamID s) (snt @ sf_Data f) (ss_finSent s') f
     \<and> sf_Offset f = int (length snt) \<and> ss_finSent s' = sf_Fin f"

lemma Length_irrelevant [simp]:
  "StreamFrame_Length (f\<lparr>sf_Fin := b\<rparr>) = StreamFrame_Length f" "StreamFrame_Length (f\<lparr>sf_FECProtected := b\<rparr>) = StreamFrame_Length f"
  by (simp_all add: StreamFrame_Length_def StreamFrame_DataLen_def cong: if_cong)

lemma waiting_cong:
  "ss_nextFrame s' = ss_nextFrame s \<Longrightarrow> buffered s' = buffered s"
  "ss_dataForWriting s' = ss_dataForWriting s \<Longrightarrow> forWriting s' = forWriting s"
  "ss_nextFrame s' = ss_nextFrame s \<Longrightarrow> ss_streamID s' = ss_streamID s \<Longrightarrow> next_at off s' = next_at off s"
  by (simp_all add: buffered_def forWriting_def next_at_def cong: option.case_cong)

lemma same_control_refl [simp]: "same_control s s"
  by (simp add: same_control_def)

lemma data_inv_window:
  assumes "data_inv s content call snt" "sendWindow = stream_SendWindowSize (ss_flowController s) conn" "sendWindow \<noteq> 0"
  shows "0 < sendWindow" "int (length snt) + sendWindow \<le> fc_sendWindow (ss_flowController s)" "int (length snt) + sendWindow \<le> MaxByteCount"
  using assms by (auto simp: data_inv_def stream_SendWindowSize_def conn_SendWindowSize_def fc_sendWindowSize_def min_def split: if_splits)

lemma new_frame_law:
  assumes inv: "data_inv s content call snt" and st: "\<not> stopped s" and some: "forWriting s \<noteq> [] \<or> ss_nextFrame s \<noteq> None"
    and w: "sendWindow = stream_SendWindowSize (ss_flowController s) conn" "sendWindow \<noteq> 0"
    and tk: "took_new s maxBytes sendWindow f0 s1"
    and f: "f = f0\<lparr>sf_Fin := ss_finishedWriting s1 \<and> ss_dataForWriting s1 = None \<and> ss_nextFrame s1 = None \<and> \<not> ss_finSent s1\<rparr>"
    and s': "s' = (let s2 = s1\<lparr>ss_writeOffset := ss_writeOffset s1 + StreamFrame_DataLen f0,
        ss_flowController := fc_AddBytesSent (ss_flowController s1) (StreamFrame_DataLen f0)\<rparr>
      in if sf_Fin f then s2\<lparr>ss_finSent := True\<rparr> else s2)"
  shows "same_control s s'" "fresh_frame s content call snt f s'" "\<exists>l. StreamFrame_Length f = Ok l \<and> l \<le> maxBytes"
proof -
  note win = data_inv_window [OF inv w]
  have i: "ss_writeOffset s = int (length snt)" "fits_i (ss_streamID s)" "fc_bytesSent (ss_flowController s) = int (length snt)"
      "content @ (case call of None \<Rightarrow> [] | Some p \<Rightarrow> p) = snt @ buffered s @ (if call = None then [] else forWriting s)"
      "call = None \<Longrightarrow> ss_dataForWriting s = None" "ss_finSent s \<Longrightarrow> forWriting s = [] \<and> ss_nextFrame s = None"
      "\<And>p. call = Some p \<Longrightarrow> length (forWriting s) \<le> length p"
    using inv st by (auto simp: data_inv_def forWriting_def)
  define nf df wc where "nf = ss_nextFrame s1" and "df = ss_dataForWriting s1" and "wc = ss_writeChan s1"
  have t: "s1 = s\<lparr>ss_nextFrame := nf, ss_dataForWriting := df, ss_writeChan := wc\<rparr>"
      "sf_Data f0 \<noteq> []" "int (length (sf_Data f0)) \<le> sendWindow" "length (sf_Data f0) \<le> MaxPacketBufferSize"
      "sf_StreamID f0 = ss_streamID s" "sf_Offset f0 = int (length snt)"
      "buffered s @ forWriting s = sf_Data f0 @ buffered s1 @ forWriting s1" "next_at (int (length snt) + int (length (sf_Data f0))) s1"
      "df \<noteq> Some []" "length (forWriting s1) \<le> length (forWriting s)"
    using tk i(1) unfolding took_new_def nf_def df_def wc_def by auto
  have fin: "\<not> ss_finSent s"
    using i(6) some by auto
  have s'2: "s' = s\<lparr>ss_nextFrame := nf, ss_dataForWriting := df, ss_writeChan := wc, ss_writeOffset := int (length snt) + int (length (sf_Data f0)),
      ss_flowController := fc_AddBytesSent (ss_flowController s) (int (length (sf_Data f0))), ss_finSent := sf_Fin f\<rparr>"
    using fin i(1) by (cases "sf_Fin f") (simp_all add: s' t(1) StreamFrame_DataLen_def)
  show "same_control s s'"
    by (simp add: s'2 same_control_def)
  have fd: "sf_Data f = sf_Data f0" "sf_Offset f = int (length snt)" "sf_StreamID f = ss_streamID s"
      "sf_Fin f \<longleftrightarrow> ss_finishedWriting s \<and> df = None \<and> nf = None"
    using t fin by (simp_all add: f)
  have s1: "buffered s' = buffered s1" "forWriting s' = forWriting s1" "next_at off s' = next_at off s1" for off
    by (rule waiting_cong; simp add: s'2 t(1))+
  have "call = None \<Longrightarrow> forWriting s1 = []"
    using i(5) t(10) by (auto simp: forWriting_def)
  then have "content @ (case call of None \<Rightarrow> [] | Some p \<Rightarrow> p) = (snt @ sf_Data f0) @ buffered s1 @ (if call = None then [] else forWriting s1)"
    using i(4,5) t(7) by (cases call) (simp_all add: forWriting_def)
  moreover have "call = None \<longrightarrow> df = None"
    using i(5) t(9,10) by (cases df; cases call) (auto simp: forWriting_def t(1))
  ultimately have "data_inv s' content call (snt @ sf_Data f)"
    using inv i(7) t(3,8,9,10) win(2,3) fd unfolding data_inv_def s1
    by (auto simp: s'2 fc_AddBytesSent_def stopped_def intro: order_trans)
  moreover have "frame_of (ss_streamID s) (snt @ sf_Data f) (sf_Fin f) f"
    using fd t(2,4) by (simp add: frame_of_def)
  ultimately show "fresh_frame s content call snt f s'"
    using fd fin by (simp add: fresh_frame_def s'2)
  show "\<exists>l. StreamFrame_Length f = Ok l \<and> l \<le> maxBytes"
    using tk by (simp add: took_new_def f)
qed

lemma blocked_law:
  assumes inv: "data_inv s content call snt"
  shows "\<exists>fc b off. IsNewlyBlocked (ss_flowController s) = (fc, b, off) \<and> data_inv (s\<lparr>ss_flowController := fc\<rparr>) content call snt"
proof -
  obtain fc b off where b: "IsNewlyBlocked (ss_flowController s) = (fc, b, off)"
    by (cases "IsNewlyBlocked (ss_flowController s)") auto
  then have "fc_bytesSent fc = fc_bytesSent (ss_flowController s)" "fc_sendWindow fc = fc_sendWindow (ss_flowController s)"
    by (auto simp: IsNewlyBlocked_def split: if_splits)
  then show ?thesis
    using inv b by (auto simp: data_inv_def stopped_def buffered_def forWriting_def next_at_def cong: option.case_cong)
qed

lemma data_inv_control:
  assumes "data_inv s content call snt"
  shows "data_inv (callSender s c) content call snt" "data_inv (s\<lparr>ss_retransmissionQueue := q\<rparr>) content call snt"
    "data_inv (s\<lparr>ss_numOutstandingFrames := n\<rparr>) content call snt" "data_inv (s\<lparr>ss_completed := b\<rparr>) content call snt"
    "data_inv (signalWrite s) content call snt" "data_inv (s\<lparr>ss_writeOnce := b\<rparr>) content call snt"
    "data_inv (s\<lparr>ss_sender := cs\<rparr>) content call snt"
  using assms by (auto simp: callSender_def signalWrite_def data_inv_def stopped_def buffered_def forWriting_def next_at_def cong: option.case_cong)

definition pop_result ::
  "sendStream \<Rightarrow> byte list \<Rightarrow> byte list option \<Rightarrow> byte list \<Rightarrow> ByteCount \<Rightarrow> sendStream \<Rightarrow> StreamFrame option \<Rightarrow> bool" where
  "pop_result s content call snt maxBytes s' fo \<longleftrightarrow> same_control s s'
     \<and> (case fo of None \<Rightarrow> data_inv s' content call snt \<and> ss_finSent s' = ss_finSent s \<and> ss_retransmissionQueue s' = ss_retransmissionQueue s
        | Some f \<Rightarrow> \<not> stopped s \<and> (\<exists>l. StreamFrame_Length f = Ok l \<and> l \<le> maxBytes)
            \<and> (resent s snt f s' \<or> fresh_frame s content call snt f s'))"

lemma fin_frame_law:
  assumes inv: "data_inv s content call snt" and e: "forWriting s = []" "ss_nextFrame s = None" "ss_finishedWriting s" "\<not> ss_finSent s"
    and ns: "\<not> stopped s" and m: "MinStreamFrameSize \<le> maxBytes"
  shows "pop_result s content call snt maxBytes (s\<lparr>ss_finSent := True\<rparr>)
    (Some \<lparr>sf_StreamID = ss_streamID s, sf_Offset = ss_writeOffset s, sf_Data = [], sf_Fin = True,
       sf_DataLenPresent = True, sf_fromPool = False, sf_FECProtected = False\<rparr>)" (is "pop_result _ _ _ _ _ ?s (Some ?f)")
proof -
  have i: "ss_dataForWriting s = None" "int (length snt) \<le> MaxByteCount" "fits_i (ss_streamID s)" "ss_writeOffset s = int (length snt)"
    using inv e by (auto simp: data_inv_def forWriting_def split: option.splits)
  have fr: "frame_of (ss_streamID s) (snt @ sf_Data ?f) True ?f"
    using i by (simp add: frame_of_def)
  have "StreamFrame_wf ?f"
    using i by (simp add: StreamFrame_wf_def)
  then have "\<exists>l. StreamFrame_Length ?f = Ok l \<and> l \<le> maxBytes"
    using header_bound [of ?f] length_varint_le [of "len64 ([] :: byte list)"] m by (simp add: StreamFrame_Length_header MinStreamFrameSize_def)
  moreover have "data_inv ?s content call (snt @ sf_Data ?f)"
    using inv i(1) e unfolding data_inv_def waiting_cong(1) [of ?s s, simplified] waiting_cong(2) [of ?s s, simplified] waiting_cong(3) [of ?s s, simplified]
    by (simp add: stopped_def)
  ultimately show ?thesis
    using fr e ns i(4) by (simp add: pop_result_def fresh_frame_def same_control_def)
qed

lemma popNewData_law:
  assumes inv: "data_inv s content call snt" and ns: "\<not> stopped s" and m: "MinStreamFrameSize \<le> maxBytes" "maxBytes \<le> int MaxPacketBufferSize"
  shows "\<exists>s' conn' fo more. popNewData s conn maxBytes = Ok (s', conn', fo, more) \<and> pop_result s content call snt maxBytes s' fo"
proof (cases "forWriting s = [] \<and> ss_nextFrame s = None")
  case True
  then show ?thesis
    using fin_frame_law [OF inv _ _ _ _ ns m(1)] inv
    by (cases "ss_finishedWriting s \<and> \<not> ss_finSent s") (auto simp: popNewData_def pop_result_def)
next
  case some: False
  define w where "w = stream_SendWindowSize (ss_flowController s) conn"
  show ?thesis
  proof (cases "w = 0")
    case True
    obtain fc b off where b: "IsNewlyBlocked (ss_flowController s) = (fc, b, off)" "data_inv (s\<lparr>ss_flowController := fc\<rparr>) content call snt"
      using blocked_law [OF inv] by blast
    let ?s = "s\<lparr>ss_flowController := fc\<rparr>"
    let ?c = "QueueControlFrame (FStreamDataBlocked \<lparr>sdbf_StreamID = ss_streamID s, sdbf_MaximumStreamData = off\<rparr>)"
    have "popNewData s conn maxBytes = Ok (if b then callSender ?s ?c else ?s, conn, None, \<not> b)"
      using some True b(1) by (auto simp: popNewData_def w_def Let_def)
    moreover have "pop_result s content call snt maxBytes (if b then callSender ?s ?c else ?s) None"
      using b(2) data_inv_control(1) [OF b(2)] by (simp add: pop_result_def same_control_def callSender_def)
    ultimately show ?thesis
      by blast
  next
    case False
    note win = data_inv_window [OF inv w_def False]
    have i: "ss_writeOffset s = int (length snt)" "next_at (ss_writeOffset s) s" "ss_dataForWriting s \<noteq> Some []" "fits_i (ss_streamID s)"
      using inv by (auto simp: data_inv_def)
    obtain s1 f0 more where t: "popNewStreamFrame s maxBytes w = Ok (s1, Some f0, more)" "took_new s maxBytes w f0 s1"
      using popNewStreamFrame_law [of s w maxBytes] i some win m by auto
    have len: "0 < StreamFrame_DataLen f0"
      using t(2) by (simp add: took_new_def StreamFrame_DataLen_def)
    define f where "f = f0\<lparr>sf_Fin := ss_finishedWriting s1 \<and> ss_dataForWriting s1 = None \<and> ss_nextFrame s1 = None \<and> \<not> ss_finSent s1\<rparr>"
    define s' where "s' = (let s2 = s1\<lparr>ss_writeOffset := ss_writeOffset s1 + StreamFrame_DataLen f0,
        ss_flowController := fc_AddBytesSent (ss_flowController s1) (StreamFrame_DataLen f0)\<rparr>
      in if sf_Fin f then s2\<lparr>ss_finSent := True\<rparr> else s2)"
    note nl = new_frame_law [OF inv ns _ w_def False t(2) f_def s'_def]
    have "popNewData s conn maxBytes = Ok (s', fc_AddBytesSent conn (StreamFrame_DataLen f0), Some f, more)"
      using some False t(1) len
      by (auto simp: popNewData_def w_def stream_AddBytesSent_def s'_def f_def Let_def)
    then show ?thesis
      using nl some ns by (auto simp: pop_result_def)
  qed
qed

lemma pop_law:
  assumes inv: "data_inv s content call snt" and fr: "\<forall>f \<in> set (ss_retransmissionQueue s). frame_of (ss_streamID s) snt (ss_finSent s) f"
    and m: "MinStreamFrameSize \<le> maxBytes" "maxBytes \<le> int MaxPacketBufferSize"
  shows "\<exists>s' conn' fo more. popNewOrRetransmittedStreamFrame s conn maxBytes = Ok (s', conn', fo, more) \<and> pop_result s content call snt maxBytes s' fo"
proof (cases "stopped s")
  case True
  then show ?thesis
    using inv by (auto simp: popNewOrRetransmittedStreamFrame_def stopped_def pop_result_def)
next
  case ns: False
  have i: "fits_i (ss_streamID s)" "int (length snt) \<le> MaxByteCount"
    using inv by (auto simp: data_inv_def)
  show ?thesis
  proof (cases "ss_retransmissionQueue s")
    case (Cons f0 q)
    then obtain f q' more where r: "maybeGetRetransmission s maxBytes = Ok (s\<lparr>ss_retransmissionQueue := q'\<rparr>, Some f, more)"
        "frame_of (ss_streamID s) snt (ss_finSent s) f" "\<exists>l. StreamFrame_Length f = Ok l \<and> l \<le> maxBytes"
        "\<forall>g \<in> set q'. g \<in> set q \<or> frame_of (ss_streamID s) snt (ss_finSent s) g"
        "covers (insert f (set q')) = covers (set (f0 # q))" "sf_Fin f0 \<longrightarrow> (\<exists>g \<in> insert f (set q'). sf_Fin g)" "set q \<subseteq> set q'"
      using retransmission_law [OF Cons _ i m, of "ss_finSent s"] fr by auto
    then have "resent s snt f (s\<lparr>ss_retransmissionQueue := q'\<rparr>)"
      using fr Cons by (auto simp: resent_def)
    then have "pop_result s content call snt maxBytes (s\<lparr>ss_retransmissionQueue := q'\<rparr>) (Some f)"
      using ns r(3) by (simp add: pop_result_def same_control_def)
    moreover have "popNewOrRetransmittedStreamFrame s conn maxBytes = Ok (s\<lparr>ss_retransmissionQueue := q'\<rparr>, conn, Some f, True)"
      using ns Cons r(1) by (simp add: popNewOrRetransmittedStreamFrame_def stopped_def)
    ultimately show ?thesis
      by blast
  next
    case Nil
    then show ?thesis
      using popNewData_law [OF inv ns m] ns by (simp add: popNewOrRetransmittedStreamFrame_def stopped_def)
  qed
qed

section \<open>The other operations\<close>

definition same_frames :: "sendStream \<Rightarrow> sendStream \<Rightarrow> bool" where
  "same_frames s s' \<longleftrightarrow> ss_finSent s' = ss_finSent s \<and> ss_retransmissionQueue s' = ss_retransmissionQueue s
     \<and> ss_streamID s' = ss_streamID s \<and> ss_cancelWriteErr s' = ss_cancelWriteErr s
     \<and> ss_numOutstandingFrames s' = ss_numOutstandingFrames s \<and> ss_completed s' = ss_completed s"

text \<open>When the call of \<^verbatim>\<open>Write\<close> returns, what was not sent or buffered is left out.\<close>

lemma data_inv_return:
  assumes inv: "data_inv s content (Some p) snt" and n: "n = int (length p) - int (length (forWriting s))"
    and s': "s' = s\<lparr>ss_dataForWriting := df, ss_writeOnce := False\<rparr>" "df = None \<or> df = ss_dataForWriting s \<and> stopped s"
  shows "data_inv s' (content @ take (nat n) p) None snt" "0 \<le> n" "n \<le> int (length p)"
proof -
  have l: "length (forWriting s) \<le> length p" and e: "content @ p = snt @ buffered s @ forWriting s"
    using inv by (simp_all add: data_inv_def)
  then show "0 \<le> n" "n \<le> int (length p)"
    using n by simp_all
  have "nat n = length p - length (forWriting s)"
    using n l by simp
  then have "content @ take (nat n) p = take (length (content @ p) - length (forWriting s)) (content @ p)"
    using l by simp
  then have t: "content @ take (nat n) p = snt @ buffered s"
    unfolding e by simp
  have b: "buffered s' = buffered s" "\<And>off. next_at off s' = next_at off s"
    by (rule waiting_cong; simp add: s')+
  show "data_inv s' (content @ take (nat n) p) None snt"
    using inv s'(2) unfolding data_inv_def t b by (auto simp: s'(1) stopped_def)
qed

lemma Write_start_law:
  assumes inv: "data_inv s content None snt" and w: "Write_start s now p = (s', None)"
  shows "data_inv s' content (Some p) snt" "same_frames s s'"
proof -
  have s': "s' = s\<lparr>ss_dataForWriting := Some p, ss_writeOnce := True\<rparr>" "p \<noteq> []" "\<not> stopped s" "\<not> ss_finishedWriting s"
    using w by (auto simp: Write_start_def stopped_def split: if_splits)
  have b: "buffered s' = buffered s" "\<And>off. next_at off s' = next_at off s"
    by (rule waiting_cong; simp add: s')+
  show "data_inv s' content (Some p) snt"
    using inv s'(2-4) unfolding data_inv_def b by (auto simp: s'(1) stopped_def forWriting_def)
  show "same_frames s s'"
    by (simp add: s'(1) same_frames_def)
qed

lemma Write_copy_law:
  assumes inv: "data_inv s content (Some p) snt" and c: "canBufferStreamFrame s" "forWriting s \<noteq> []"
    and f: "f = (case ss_nextFrame s of
        None \<Rightarrow> GetStreamFrame\<lparr>sf_Offset := ss_writeOffset s, sf_StreamID := ss_streamID s, sf_DataLenPresent := True, sf_Data := forWriting s\<rparr>
      | Some f \<Rightarrow> f\<lparr>sf_Data := sf_Data f @ forWriting s\<rparr>)"
  shows "length (sf_Data f) \<le> MaxPacketBufferSize" "data_inv (s\<lparr>ss_nextFrame := Some f, ss_dataForWriting := None\<rparr>) (content @ p) None snt"
proof -
  have d: "sf_Data f = buffered s @ forWriting s"
    by (simp add: f buffered_def split: option.split)
  have "length (buffered s @ forWriting s) \<le> MaxPacketBufferSize"
    using c(1) by (auto simp: canBufferStreamFrame_def buffered_def StreamFrame_DataLen_def split: option.splits)
  then show l: "length (sf_Data f) \<le> MaxPacketBufferSize"
    by (simp add: d)
  have nf: "\<not> ss_finSent s"
    using inv c(2) by (auto simp: data_inv_def forWriting_def)
  have i: "ss_writeOffset s = int (length snt)" "next_at (int (length snt)) s" "content @ p = snt @ buffered s @ forWriting s"
    using inv by (simp_all add: data_inv_def)
  have f': "sf_StreamID f = ss_streamID s \<and> sf_Offset f = int (length snt) \<and> sf_DataLenPresent f"
    using i(1,2) by (simp add: f next_at_def split: option.splits)
  show "data_inv (s\<lparr>ss_nextFrame := Some f, ss_dataForWriting := None\<rparr>) (content @ p) None snt"
    using inv l d c(2) f' nf i(3) by (simp add: data_inv_def stopped_def buffered_def next_at_def)
qed

lemma Write_result_law:
  "stopped s \<or> n = int (length p) \<Longrightarrow> \<exists>err. Write_result s p n = (n, err) \<and> (err = None \<longrightarrow> n = int (length p))"
  by (auto simp: Write_result_def stopped_def)

lemma Write_pass_law:
  assumes inv: "data_inv s content (Some p) snt" and w: "Write_pass s now p nf = (s', nf', r)"
  obtains (wait) "r = Ok None" "data_inv s' content (Some p) snt" "same_frames s s'"
  | (returned) n err where "r = Ok (Some (n, err))" "0 \<le> n" "n \<le> int (length p)" "err = None \<Longrightarrow> n = int (length p)"
      "data_inv s' (content @ take (nat n) p) None snt" "same_frames s s'"
proof (cases "canBufferStreamFrame s \<and> forWriting s \<noteq> []")
  case True
  define f where "f = (case ss_nextFrame s of
      None \<Rightarrow> GetStreamFrame\<lparr>sf_Offset := ss_writeOffset s, sf_StreamID := ss_streamID s, sf_DataLenPresent := True, sf_Data := forWriting s\<rparr>
    | Some f \<Rightarrow> f\<lparr>sf_Data := sf_Data f @ forWriting s\<rparr>)"
  note cp = Write_copy_law [OF inv conjunct1 [OF True] conjunct2 [OF True] f_def]
  let ?s = "s\<lparr>ss_nextFrame := Some f, ss_dataForWriting := None\<rparr>"
  let ?s2 = "if nf then ?s else callSender ?s (OnHasStreamData (ss_streamID ?s))"
  have "s' = ?s2\<lparr>ss_writeOnce := False\<rparr>" "r = Ok (Some (int (length p), None))"
    using w True cp(1) by (auto simp: Write_pass_def Write_result_def f_def Let_def)
  moreover have "data_inv (?s2\<lparr>ss_writeOnce := False\<rparr>) (content @ take (nat (int (length p))) p) None snt"
    using cp(2) data_inv_control(1) [OF cp(2)] data_inv_control(6) by auto
  ultimately show ?thesis
    by (intro returned) (auto simp: same_frames_def callSender_def)
next
  case False
  let ?n = "int (length p) - int (length (forWriting s))"
  consider (deadline) "deadlinePassed s now"
    | (over) "\<not> deadlinePassed s now" "ss_dataForWriting s = None \<or> stopped s"
    | (stay) "\<not> deadlinePassed s now" "ss_dataForWriting s \<noteq> None" "\<not> stopped s"
    by blast
  then show ?thesis
  proof cases
    case deadline
    then have s': "s' = s\<lparr>ss_dataForWriting := None, ss_writeOnce := False\<rparr>" "r = Ok (Some (?n, Some errDeadline))"
      using w False by (auto simp: Write_pass_def Let_def)
    note ret = data_inv_return [OF inv refl s'(1) disjI1 [OF refl]]
    show ?thesis
      by (rule returned [OF s'(2) ret(2,3) _ ret(1)]) (simp_all add: s'(1) same_frames_def)
  next
    case over
    then have s': "s' = s\<lparr>ss_dataForWriting := ss_dataForWriting s, ss_writeOnce := False\<rparr>" "r = Ok (Some (Write_result s p ?n))"
      using w False by (auto simp: Write_pass_def Let_def stopped_def)
    have "ss_dataForWriting s = None \<or> ss_dataForWriting s = ss_dataForWriting s \<and> stopped s"
      using over(2) by blast
    note ret = data_inv_return [OF inv refl s'(1) this]
    have "stopped s \<or> ?n = int (length p)"
      using over(2) by (auto simp: forWriting_def)
    then obtain err where err: "Write_result s p ?n = (?n, err)" "err = None \<longrightarrow> ?n = int (length p)"
      using Write_result_law by blast
    show ?thesis
      by (rule returned [OF _ ret(2,3) _ ret(1)]) (use s' err in \<open>auto simp: same_frames_def\<close>)
  next
    case stay
    then have "s' = (if nf then s else callSender s (OnHasStreamData (ss_streamID s)))" "r = Ok None"
      using w False by (auto simp: Write_pass_def Let_def stopped_def)
    then show ?thesis
      using inv data_inv_control(1) [OF inv] by (intro wait) (auto simp: same_frames_def callSender_def)
  qed
qed

lemma control_laws:
  assumes inv: "data_inv s content call snt"
  shows "data_inv (fst (sendStream_Close s)) content call snt" "same_frames s (fst (sendStream_Close s))"
    "data_inv (SetWriteDeadline s t) content call snt" "same_frames s (SetWriteDeadline s t)"
    "data_inv (sendStream_closeForShutdown s (Some e)) content call snt" "same_frames s (sendStream_closeForShutdown s (Some e))"
    "limit \<le> MaxByteCount \<Longrightarrow> data_inv (updateSendWindow s limit) content call snt" "same_frames s (updateSendWindow s limit)"
    "data_inv (s\<lparr>ss_writeChan := b\<rparr>) content call snt" "same_frames s (s\<lparr>ss_writeChan := b\<rparr>)"
  using inv
  by (auto simp: sendStream_Close_def SetWriteDeadline_def sendStream_closeForShutdown_def updateSendWindow_def UpdateSendWindow_def
      ctxCancel_def callSender_def signalWrite_def data_inv_def same_frames_def stopped_def buffered_def forWriting_def next_at_def
      Let_def cong: option.case_cong)

end
