(* ===== verification/SendRuns.thy ===== *)
theory SendRuns
  imports SendStreamLaws "HOL-Library.Multiset"
begin

text \<open>
  Runs of a send stream (\<^verbatim>\<open>src/send_stream.go\<close>): the application writes and closes, frames are taken,
  acknowledged and lost, in any order. The frames carry the bytes of the application, within
  flow control and the size limit; no byte is forgotten; and the stream is completed only
  when everything was acknowledged.
\<close>

section \<open>Runs\<close>

text \<open>
  A stream in use: the bytes accepted by calls of \<^verbatim>\<open>Write\<close> that returned, the call in progress
  with its local variables, all frames taken so far, those in flight, and those acknowledged.
\<close>

record send_run =
  sr_stream :: sendStream
  sr_content :: "byte list"
  sr_call :: "(byte list \<times> bool) option"
  sr_sent :: "StreamFrame list"
  sr_out :: "StreamFrame multiset"
  sr_acked :: "StreamFrame list"

definition after_write :: "send_run \<Rightarrow> sendStream \<Rightarrow> byte list \<Rightarrow> bool \<Rightarrow> (int \<times> go_error option) option \<Rightarrow> send_run" where
  "after_write r s p nf res = (case res of
     None \<Rightarrow> r\<lparr>sr_stream := s, sr_call := Some (p, nf)\<rparr>
   | Some (n, err) \<Rightarrow> r\<lparr>sr_stream := s, sr_content := sr_content r @ take (nat n) p, sr_call := None\<rparr>)"

text \<open>
  The steps: a call of \<^verbatim>\<open>Write\<close> starts, or goes on after a wake-up or at its deadline; a frame is
  taken with enough room; a frame in flight is acknowledged or declared lost, possibly
  without its length field, which the framer removes; and the other methods are called.
\<close>

inductive send_step :: "send_run \<Rightarrow> send_run \<Rightarrow> bool" where
  begin_write: "sr_call r = None \<Longrightarrow> Write_start (sr_stream r) now p = (s1, None) \<Longrightarrow>
    Write_pass s1 now p False = (s2, nf, Ok res) \<Longrightarrow> send_step r (after_write r s2 p nf res)"
| resume_write: "sr_call r = Some (p, nf) \<Longrightarrow>
    ss_writeChan (sr_stream r) \<and> s1 = (sr_stream r)\<lparr>ss_writeChan := False\<rparr> \<or> ss_deadline (sr_stream r) \<noteq> None \<and> s1 = sr_stream r \<Longrightarrow>
    Write_pass s1 now p nf = (s2, nf', Ok res) \<Longrightarrow> send_step r (after_write r s2 p nf' res)"
| take_frame: "MinStreamFrameSize \<le> maxBytes \<Longrightarrow> maxBytes \<le> int MaxPacketBufferSize \<Longrightarrow>
    popStreamFrame (sr_stream r) conn maxBytes = Ok (s', conn', fo, hasMore) \<Longrightarrow>
    send_step r (case fo of None \<Rightarrow> r\<lparr>sr_stream := s'\<rparr>
      | Some f \<Rightarrow> r\<lparr>sr_stream := s', sr_sent := sr_sent r @ [f], sr_out := add_mset f (sr_out r)\<rparr>)"
| ack_frame: "f \<in># sr_out r \<Longrightarrow> sendStream_OnAcked (sr_stream r) (f\<lparr>sf_DataLenPresent := b\<rparr>) = Ok s' \<Longrightarrow>
    send_step r (r\<lparr>sr_stream := s', sr_out := sr_out r - {#f#}, sr_acked := sr_acked r @ [f]\<rparr>)"
| lose_frame: "f \<in># sr_out r \<Longrightarrow> sendStream_OnLost (sr_stream r) (f\<lparr>sf_DataLenPresent := b\<rparr>) = Ok s' \<Longrightarrow>
    send_step r (r\<lparr>sr_stream := s', sr_out := sr_out r - {#f#}\<rparr>)"
| close: "send_step r (r\<lparr>sr_stream := fst (sendStream_Close (sr_stream r))\<rparr>)"
| cancel: "send_step r (r\<lparr>sr_stream := cancelWriteImpl (sr_stream r) errorCode remote\<rparr>)"
| window: "limit \<le> MaxByteCount \<Longrightarrow> send_step r (r\<lparr>sr_stream := updateSendWindow (sr_stream r) limit\<rparr>)"
| deadline: "send_step r (r\<lparr>sr_stream := SetWriteDeadline (sr_stream r) t\<rparr>)"
| shutdown: "send_step r (r\<lparr>sr_stream := sendStream_closeForShutdown (sr_stream r) (Some e)\<rparr>)"

definition send_init :: "StreamID \<Rightarrow> streamFlowController \<Rightarrow> bool \<Rightarrow> send_run" where
  "send_init sid fc fec = \<lparr>sr_stream = newSendStreamWithFEC sid fc fec, sr_content = [], sr_call = None, sr_sent = [], sr_out = {#}, sr_acked = []\<rparr>"

definition sr_call_data :: "send_run \<Rightarrow> byte list option" where
  "sr_call_data r = map_option fst (sr_call r)"

text \<open>The frames that are accounted for: in flight, acknowledged, or waiting to be sent again.\<close>

definition tracked :: "send_run \<Rightarrow> StreamFrame set" where
  "tracked r = set_mset (sr_out r) \<union> set (sr_acked r) \<union> set (ss_retransmissionQueue (sr_stream r))"

definition send_inv :: "StreamID \<Rightarrow> send_run \<Rightarrow> byte list \<Rightarrow> bool" where
  "send_inv sid r snt \<longleftrightarrow> ss_streamID (sr_stream r) = sid \<and> data_inv (sr_stream r) (sr_content r) (sr_call_data r) snt
     \<and> (\<forall>f \<in> set (sr_sent r) \<union> tracked r. frame_of sid snt (ss_finSent (sr_stream r)) f)
     \<and> (ss_cancelWriteErr (sr_stream r) = None \<longrightarrow>
          ss_numOutstandingFrames (sr_stream r) = int (size (sr_out r))
          \<and> {0 ..< int (length snt)} \<subseteq> covers (tracked r)
          \<and> (ss_finSent (sr_stream r) \<longrightarrow> (\<exists>f \<in> tracked r. sf_Fin f))
          \<and> (ss_completed (sr_stream r) \<longrightarrow> ss_finSent (sr_stream r) \<and> sr_out r = {#} \<and> ss_retransmissionQueue (sr_stream r) = []))"

lemma send_inv_init:
  assumes "fits_i sid" "fc_bytesSent fc = 0" "0 \<le> fc_sendWindow fc" "fc_sendWindow fc \<le> MaxByteCount"
  shows "send_inv sid (send_init sid fc fec) []"
  using assms by (simp add: send_inv_def send_init_def newSendStreamWithFEC_def data_inv_def sr_call_data_def tracked_def
      buffered_def forWriting_def next_at_def)

text \<open>Steps that do not touch frames.\<close>

lemma send_inv_quiet:
  assumes inv: "send_inv sid r snt" and same: "same_frames (sr_stream r) (sr_stream r')"
    and r': "sr_sent r' = sr_sent r" "sr_out r' = sr_out r" "sr_acked r' = sr_acked r"
    and d: "data_inv (sr_stream r') (sr_content r') (sr_call_data r') snt"
  shows "send_inv sid r' snt"
proof -
  have "tracked r' = tracked r"
    using same r' by (simp add: tracked_def same_frames_def)
  then show ?thesis
    using inv same r' d by (simp add: send_inv_def same_frames_def)
qed

lemma send_inv_write:
  assumes inv: "send_inv sid r snt" and s1: "same_frames (sr_stream r) s1" and d: "data_inv s1 (sr_content r) (Some p) snt"
    and w: "Write_pass s1 now p nf = (s2, nf', Ok res)"
  shows "send_inv sid (after_write r s2 p nf' res) snt"
proof (rule send_inv_quiet [OF inv])
  have "same_frames s1 s2"
    by (rule Write_pass_law [OF d w]) auto
  then show "same_frames (sr_stream r) (sr_stream (after_write r s2 p nf' res))"
    using s1 by (simp add: same_frames_def after_write_def split: option.split)
  show "data_inv (sr_stream (after_write r s2 p nf' res)) (sr_content (after_write r s2 p nf' res)) (sr_call_data (after_write r s2 p nf' res)) snt"
    by (rule Write_pass_law [OF d w]) (auto simp: after_write_def sr_call_data_def)
qed (simp_all add: after_write_def split: option.split)

lemma covers_simps [simp]:
  "covers {} = {}" "covers (insert f F) = {sf_Offset f ..< sf_Offset f + int (length (sf_Data f))} \<union> covers F" "covers (F \<union> G) = covers F \<union> covers G"
  by (auto simp: covers_def)

lemma frame_of_flags [simp]:
  "frame_of sid snt fin (f\<lparr>sf_FECProtected := b\<rparr>) = frame_of sid snt fin f"
  "frame_of sid snt fin (f\<lparr>sf_DataLenPresent := b\<rparr>) = frame_of sid snt fin f"
  by (simp_all add: frame_of_def)

lemma send_inv_resent:
  assumes inv: "send_inv sid r snt" and ns: "\<not> stopped (sr_stream r)" and re: "resent (sr_stream r) snt f0 s1"
    and f: "f = f0\<lparr>sf_FECProtected := b\<rparr>"
    and r': "r' = r\<lparr>sr_stream := s1\<lparr>ss_numOutstandingFrames := ss_numOutstandingFrames s1 + 1\<rparr>, sr_sent := sr_sent r @ [f], sr_out := add_mset f (sr_out r)\<rparr>"
  shows "send_inv sid r' snt"
proof -
  let ?s = "sr_stream r"
  define q1 where "q1 = ss_retransmissionQueue s1"
  have q: "s1 = ?s\<lparr>ss_retransmissionQueue := q1\<rparr>" "ss_retransmissionQueue ?s \<noteq> []"
      "\<forall>g \<in> insert f0 (set q1). frame_of (ss_streamID ?s) snt (ss_finSent ?s) g"
      "covers (insert f0 (set q1)) = covers (set (ss_retransmissionQueue ?s))"
      "(\<exists>g \<in> set (ss_retransmissionQueue ?s). sf_Fin g) \<longrightarrow> (\<exists>g \<in> insert f0 (set q1). sf_Fin g)"
    using re unfolding resent_def q1_def by simp_all
  have s': "sr_stream r' = ?s\<lparr>ss_retransmissionQueue := q1, ss_numOutstandingFrames := ss_numOutstandingFrames ?s + 1\<rparr>"
    by (simp add: r' q(1))
  have t: "tracked r' = insert f (set_mset (sr_out r) \<union> set (sr_acked r) \<union> set q1)"
    by (simp add: tracked_def s') (simp add: r')
  have cv: "covers (tracked r') = covers (tracked r)"
    using q(4) unfolding t by (auto simp: tracked_def f)
  have fin: "(\<exists>g \<in> tracked r. sf_Fin g) \<longrightarrow> (\<exists>g \<in> tracked r'. sf_Fin g)"
    using q(5) unfolding t by (auto simp: tracked_def f)
  have fr: "\<forall>g \<in> set (sr_sent r') \<union> tracked r'. frame_of (ss_streamID ?s) snt (ss_finSent ?s) g"
    using inv q(3) unfolding t by (auto simp: r' f send_inv_def tracked_def)
  have "data_inv (sr_stream r') (sr_content r') (sr_call_data r') snt"
    using inv unfolding s' send_inv_def by (simp add: r' sr_call_data_def data_inv_control)
  then show ?thesis
    using inv q(2) cv fin fr ns unfolding send_inv_def by (simp add: s' stopped_def) (simp add: r')
qed

lemma send_inv_fresh:
  assumes inv: "send_inv sid r snt" and ns: "\<not> stopped (sr_stream r)" and sc: "same_control (sr_stream r) s1"
    and fr: "fresh_frame (sr_stream r) (sr_content r) (sr_call_data r) snt f0 s1" and f: "f = f0\<lparr>sf_FECProtected := b\<rparr>"
    and r': "r' = r\<lparr>sr_stream := s1\<lparr>ss_numOutstandingFrames := ss_numOutstandingFrames s1 + 1\<rparr>, sr_sent := sr_sent r @ [f], sr_out := add_mset f (sr_out r)\<rparr>"
  shows "send_inv sid r' (snt @ sf_Data f)"
proof -
  let ?s = "sr_stream r"
  have i: "\<not> ss_finSent ?s" "ss_retransmissionQueue s1 = ss_retransmissionQueue ?s" "data_inv s1 (sr_content r) (sr_call_data r) (snt @ sf_Data f)"
      "frame_of (ss_streamID ?s) (snt @ sf_Data f) (ss_finSent s1) f0" "sf_Offset f = int (length snt)" "ss_finSent s1 = sf_Fin f"
    using fr by (auto simp: fresh_frame_def f)
  have c: "ss_streamID s1 = ss_streamID ?s" "ss_cancelWriteErr s1 = ss_cancelWriteErr ?s" "ss_numOutstandingFrames s1 = ss_numOutstandingFrames ?s"
      "ss_completed s1 = ss_completed ?s"
    using sc by (simp_all add: same_control_def)
  have t: "tracked r' = insert f (tracked r)"
    by (simp add: tracked_def r' i(2))
  have old: "\<forall>g \<in> set (sr_sent r) \<union> tracked r. frame_of (ss_streamID ?s) (snt @ sf_Data f) (ss_finSent s1) g"
    using inv i(1) frame_of_more unfolding send_inv_def by fastforce
  have "{0 ..< int (length (snt @ sf_Data f))} \<subseteq> {0 ..< int (length snt)} \<union> {sf_Offset f ..< sf_Offset f + int (length (sf_Data f))}"
    by (auto simp: i(5))
  moreover have "data_inv (sr_stream r') (sr_content r') (sr_call_data r') (snt @ sf_Data f)"
    using i(3) by (simp add: r' sr_call_data_def data_inv_control)
  moreover have "frame_of (ss_streamID ?s) (snt @ sf_Data f) (ss_finSent s1) f"
    using i(4) by (simp add: f)
  ultimately show ?thesis
    using inv ns i(1,6) c old unfolding send_inv_def t by (auto simp: r' stopped_def)
qed

lemma send_inv_take:
  assumes inv: "send_inv sid r snt" and m: "MinStreamFrameSize \<le> maxBytes" "maxBytes \<le> int MaxPacketBufferSize"
    and p: "popStreamFrame (sr_stream r) conn maxBytes = Ok (s', conn', fo, hasMore)"
    and r': "r' = (case fo of None \<Rightarrow> r\<lparr>sr_stream := s'\<rparr>
      | Some f \<Rightarrow> r\<lparr>sr_stream := s', sr_sent := sr_sent r @ [f], sr_out := add_mset f (sr_out r)\<rparr>)"
  shows "\<exists>snt'. send_inv sid r' snt'"
proof -
  let ?s = "sr_stream r"
  have i: "data_inv ?s (sr_content r) (sr_call_data r) snt" "\<forall>f \<in> set (ss_retransmissionQueue ?s). frame_of (ss_streamID ?s) snt (ss_finSent ?s) f"
    using inv by (auto simp: send_inv_def tracked_def)
  obtain s1 conn1 f1 more1 where p1: "popNewOrRetransmittedStreamFrame ?s conn maxBytes = Ok (s1, conn1, f1, more1)"
      "pop_result ?s (sr_content r) (sr_call_data r) snt maxBytes s1 f1"
    using pop_law [OF i m] by blast
  show ?thesis
  proof (cases f1)
    case None
    then have "s' = s1" "fo = None"
      using p p1(1) by (auto simp: popStreamFrame_def)
    then have "send_inv sid r' snt"
      using p1(2) None by (intro send_inv_quiet [OF inv]) (auto simp: r' pop_result_def same_control_def same_frames_def sr_call_data_def)
    then show ?thesis ..
  next
    case (Some f0)
    define f where "f = f0\<lparr>sf_FECProtected := ss_fecProtected s1\<rparr>"
    have s': "s' = s1\<lparr>ss_numOutstandingFrames := ss_numOutstandingFrames s1 + 1\<rparr>" "fo = Some f"
      using p p1(1) Some by (auto simp: popStreamFrame_def f_def)
    have "resent ?s snt f0 s1 \<or> fresh_frame ?s (sr_content r) (sr_call_data r) snt f0 s1"
      using p1(2) Some by (simp add: pop_result_def)
    moreover have "r' = r\<lparr>sr_stream := s1\<lparr>ss_numOutstandingFrames := ss_numOutstandingFrames s1 + 1\<rparr>, sr_sent := sr_sent r @ [f], sr_out := add_mset f (sr_out r)\<rparr>"
      by (simp add: r' s')
    moreover have "\<not> stopped ?s" "same_control ?s s1"
      using p1(2) Some by (simp_all add: pop_result_def)
    ultimately show ?thesis
      using send_inv_resent [OF inv _ _ f_def] send_inv_fresh [OF inv _ _ _ f_def] by blast
  qed
qed

lemma newlyCompleted_law:
  assumes "isNewlyCompleted s = (s', b)"
  shows "s' = s\<lparr>ss_completed := ss_completed s \<or> b\<rparr>"
    "b \<Longrightarrow> (ss_finSent s \<or> ss_cancelWriteErr s \<noteq> None) \<and> ss_numOutstandingFrames s = 0 \<and> ss_retransmissionQueue s = []"
  using assms by (auto simp: isNewlyCompleted_def Let_def split: if_splits)

lemma out_not_completed:
  assumes "send_inv sid r snt" "f \<in># sr_out r" "ss_cancelWriteErr (sr_stream r) = None"
  shows "\<not> ss_completed (sr_stream r)" "ss_numOutstandingFrames (sr_stream r) = int (size (sr_out r - {#f#})) + 1"
  using assms size_Suc_Diff1 [of f "sr_out r"] by (auto simp: send_inv_def)

lemma OnAcked_law:
  assumes inv: "send_inv sid r snt" and f: "f \<in># sr_out r" and nc: "ss_cancelWriteErr (sr_stream r) = None"
  obtains b cs where "sendStream_OnAcked (sr_stream r) f' =
      Ok ((sr_stream r)\<lparr>ss_numOutstandingFrames := int (size (sr_out r - {#f#})), ss_completed := b, ss_sender := cs\<rparr>)"
    "b \<Longrightarrow> ss_finSent (sr_stream r) \<and> sr_out r - {#f#} = {#} \<and> ss_retransmissionQueue (sr_stream r) = []"
proof -
  let ?s = "sr_stream r" and ?n = "int (size (sr_out r - {#f#}))"
  note o = out_not_completed [OF inv f nc]
  obtain s1 b where ic: "isNewlyCompleted (?s\<lparr>ss_numOutstandingFrames := ?n\<rparr>) = (s1, b)"
    by (cases "isNewlyCompleted (?s\<lparr>ss_numOutstandingFrames := ?n\<rparr>)")
  note l = newlyCompleted_law [OF ic]
  have "sendStream_OnAcked ?s f' = Ok (?s\<lparr>ss_numOutstandingFrames := ?n, ss_completed := b,
      ss_sender := ss_sender ?s @ (if b then [OnStreamCompleted (ss_streamID ?s)] else [])\<rparr>)"
    using nc ic l(1) o by (simp add: sendStream_OnAcked_def callSender_def)
  moreover have "b \<Longrightarrow> ss_finSent ?s \<and> sr_out r - {#f#} = {#} \<and> ss_retransmissionQueue ?s = []"
    using l(2) nc by simp
  ultimately show ?thesis
    using that by blast
qed

lemma send_inv_ack:
  assumes inv: "send_inv sid r snt" and f: "f \<in># sr_out r" and a: "sendStream_OnAcked (sr_stream r) f' = Ok s'"
    and r': "r' = r\<lparr>sr_stream := s', sr_out := sr_out r - {#f#}, sr_acked := sr_acked r @ [f]\<rparr>"
  shows "send_inv sid r' snt"
proof (cases "ss_cancelWriteErr (sr_stream r)")
  case None
  obtain b cs where ok: "sendStream_OnAcked (sr_stream r) f' =
      Ok ((sr_stream r)\<lparr>ss_numOutstandingFrames := int (size (sr_out r - {#f#})), ss_completed := b, ss_sender := cs\<rparr>)"
    and b: "b \<Longrightarrow> ss_finSent (sr_stream r) \<and> sr_out r - {#f#} = {#} \<and> ss_retransmissionQueue (sr_stream r) = []"
    by (rule OnAcked_law [OF inv f None, of f']) blast
  have s': "s' = (sr_stream r)\<lparr>ss_numOutstandingFrames := int (size (sr_out r - {#f#})), ss_completed := b, ss_sender := cs\<rparr>"
    using a ok by simp
  have "set_mset (sr_out r) = insert f (set_mset (sr_out r - {#f#}))"
    using f by (metis insert_DiffM set_mset_add_mset_insert)
  then have t: "tracked r' = tracked r"
    by (auto simp: tracked_def r' s')
  have "data_inv s' (sr_content r) (sr_call_data r) snt"
    using inv unfolding s' send_inv_def by (simp add: data_inv_control(3,4,7))
  then show ?thesis
    using inv b unfolding send_inv_def t by (simp add: r' s' sr_call_data_def)
next
  case (Some e)
  then have s': "s' = sr_stream r"
    using a by (simp add: sendStream_OnAcked_def)
  have "tracked r' \<subseteq> tracked r"
    using f by (auto simp: tracked_def r' s' dest: in_diffD)
  then show ?thesis
    using inv Some by (auto simp: send_inv_def r' s' sr_call_data_def)
qed

lemma send_inv_lose:
  assumes inv: "send_inv sid r snt" and f: "f \<in># sr_out r" and a: "sendStream_OnLost (sr_stream r) (f\<lparr>sf_DataLenPresent := b\<rparr>) = Ok s'"
    and r': "r' = r\<lparr>sr_stream := s', sr_out := sr_out r - {#f#}\<rparr>"
  shows "send_inv sid r' snt"
proof (cases "ss_cancelWriteErr (sr_stream r)")
  case None
  let ?s = "sr_stream r" and ?f = "f\<lparr>sf_DataLenPresent := True\<rparr>"
  note o = out_not_completed [OF inv f None]
  have s': "s' = ?s\<lparr>ss_retransmissionQueue := ss_retransmissionQueue ?s @ [?f], ss_numOutstandingFrames := int (size (sr_out r - {#f#})),
      ss_sender := ss_sender ?s @ [OnHasStreamData (ss_streamID ?s)]\<rparr>"
    using a None o by (simp add: sendStream_OnLost_def callSender_def)
  have so: "set_mset (sr_out r) = insert f (set_mset (sr_out r - {#f#}))"
    using f by (metis insert_DiffM set_mset_add_mset_insert)
  have cv: "covers (tracked r') = covers (tracked r)" and fin: "(\<exists>g \<in> tracked r. sf_Fin g) \<longrightarrow> (\<exists>g \<in> tracked r'. sf_Fin g)"
    unfolding tracked_def so by (auto simp: r' s')
  have "\<forall>g \<in> set (sr_sent r') \<union> tracked r'. frame_of (ss_streamID ?s) snt (ss_finSent ?s) g"
    using inv unfolding send_inv_def tracked_def so by (auto simp: r' s')
  moreover have "data_inv s' (sr_content r) (sr_call_data r) snt"
    using inv unfolding s' send_inv_def by (simp add: data_inv_control(2,3,7))
  ultimately show ?thesis
    using inv cv fin o(1) unfolding send_inv_def by (simp add: r' s' sr_call_data_def)
next
  case (Some e)
  then have s': "s' = sr_stream r"
    using a by (simp add: sendStream_OnLost_def)
  have "tracked r' \<subseteq> tracked r"
    by (auto simp: tracked_def r' s' dest: in_diffD)
  then show ?thesis
    using inv Some by (auto simp: send_inv_def r' s' sr_call_data_def)
qed

lemma send_inv_cancel:
  assumes inv: "send_inv sid r snt"
  shows "send_inv sid (r\<lparr>sr_stream := cancelWriteImpl (sr_stream r) errorCode remote\<rparr>) snt"
proof (cases "ss_cancelWriteErr (sr_stream r)")
  case (Some e)
  then show ?thesis
    using inv by (simp add: cancelWriteImpl_def)
next
  case None
  let ?s = "sr_stream r"
  define e where "e = Some (StreamError (ss_streamID ?s) errorCode remote)"
  obtain c where ctx: "ctxCancel (?s\<lparr>ss_cancelWriteErr := e\<rparr>) e = ?s\<lparr>ss_cancelWriteErr := e, ss_ctx := c\<rparr>"
    by (cases "ss_ctx ?s") (auto simp: ctxCancel_def intro: that [of "ss_ctx ?s"])
  obtain s1 b where ic: "isNewlyCompleted (?s\<lparr>ss_cancelWriteErr := e, ss_ctx := c, ss_numOutstandingFrames := 0, ss_retransmissionQueue := []\<rparr>) = (s1, b)"
    by fastforce
  note l = newlyCompleted_law(1) [OF ic]
  let ?cs = "ss_sender ?s @ QueueControlFrame (FResetStream
      \<lparr>rsf_StreamID = ss_streamID ?s, rsf_ErrorCode = errorCode, rsf_FinalSize = ss_writeOffset ?s\<rparr>) # (if b then [OnStreamCompleted (ss_streamID ?s)] else [])"
  have s': "cancelWriteImpl ?s errorCode remote =
      ?s\<lparr>ss_cancelWriteErr := e, ss_ctx := c, ss_numOutstandingFrames := 0, ss_retransmissionQueue := [],
         ss_completed := ss_completed ?s \<or> b, ss_writeChan := True, ss_sender := ?cs\<rparr>"
    using None ctx ic by (simp add: cancelWriteImpl_def Let_def l signalWrite_def callSender_def flip: e_def)
  have e: "e \<noteq> None"
    by (simp add: e_def)
  have "data_inv (cancelWriteImpl ?s errorCode remote) (sr_content r) (sr_call_data r) snt"
    using inv e unfolding send_inv_def s'
    by (auto simp: data_inv_def stopped_def buffered_def forWriting_def next_at_def cong: option.case_cong)
  then show ?thesis
    using inv e by (auto simp: send_inv_def s' sr_call_data_def tracked_def)
qed

lemma send_inv_method:
  assumes inv: "send_inv sid r snt" and same: "same_frames (sr_stream r) s'"
    and d: "data_inv (sr_stream r) (sr_content r) (sr_call_data r) snt \<Longrightarrow> data_inv s' (sr_content r) (sr_call_data r) snt"
  shows "\<exists>snt'. send_inv sid (r\<lparr>sr_stream := s'\<rparr>) snt'"
  using send_inv_quiet [OF inv, of "r\<lparr>sr_stream := s'\<rparr>"] assms by (auto simp: send_inv_def sr_call_data_def)

lemma send_step_inv:
  assumes "send_step r r'" "send_inv sid r snt"
  shows "\<exists>snt'. send_inv sid r' snt'"
  using assms
proof (induction rule: send_step.induct)
  case (begin_write r now p s1 s2 nf res)
  then have "data_inv (sr_stream r) (sr_content r) None snt"
    by (simp add: send_inv_def sr_call_data_def)
  note ws = Write_start_law [OF this begin_write.hyps(2)]
  show ?case
    using send_inv_write [OF begin_write.prems ws(2,1) begin_write.hyps(3)] by blast
next
  case (resume_write r p nf s1 now s2 nf' res)
  have d: "data_inv (sr_stream r) (sr_content r) (Some p) snt"
    using resume_write by (simp add: send_inv_def sr_call_data_def)
  have "data_inv s1 (sr_content r) (Some p) snt" "same_frames (sr_stream r) s1"
    using resume_write.hyps(2) d control_laws(9,10) [OF d] by (auto simp: same_frames_def)
  then show ?case
    using send_inv_write [OF resume_write.prems _ _ resume_write.hyps(3)] by blast
next
  case (take_frame maxBytes r conn s' conn' fo hasMore)
  then show ?case
    using send_inv_take [OF take_frame.prems take_frame.hyps refl] by blast
next
  case (ack_frame f r b s')
  then show ?case
    using send_inv_ack [OF ack_frame.prems ack_frame.hyps refl] by blast
next
  case (lose_frame f r b s')
  then show ?case
    using send_inv_lose [OF lose_frame.prems lose_frame.hyps refl] by blast
next
  case (cancel r errorCode remote)
  then show ?case
    using send_inv_cancel by blast
next
  case (close r)
  then have "data_inv (sr_stream r) (sr_content r) (sr_call_data r) snt"
    by (simp add: send_inv_def)
  then show ?case
    by (intro send_inv_method [OF close.prems] control_laws(1) control_laws(2))
next
  case (window limit r)
  then have "data_inv (sr_stream r) (sr_content r) (sr_call_data r) snt"
    by (simp add: send_inv_def)
  then show ?case
    by (intro send_inv_method [OF window.prems] control_laws(7) [OF _ window.hyps] control_laws(8))
next
  case (deadline r t)
  then have "data_inv (sr_stream r) (sr_content r) (sr_call_data r) snt"
    by (simp add: send_inv_def)
  then show ?case
    by (intro send_inv_method [OF deadline.prems] control_laws(3) control_laws(4))
next
  case (shutdown r e)
  then have "data_inv (sr_stream r) (sr_content r) (sr_call_data r) snt"
    by (simp add: send_inv_def)
  then show ?case
    by (intro send_inv_method [OF shutdown.prems] control_laws(5) control_laws(6))
qed

lemma send_reach_inv:
  assumes "send_step\<^sup>*\<^sup>* (send_init sid fc fec) r" "fits_i sid" "fc_bytesSent fc = 0" "0 \<le> fc_sendWindow fc" "fc_sendWindow fc \<le> MaxByteCount"
  shows "\<exists>snt. send_inv sid r snt"
  using assms(1)
proof (induction rule: rtranclp_induct)
  case base
  then show ?case
    using send_inv_init [OF assms(2-5)] by blast
next
  case (step r r')
  then show ?case
    using send_step_inv by blast
qed

lemma popStreamFrame_fits:
  assumes inv: "send_inv sid r snt" and m: "MinStreamFrameSize \<le> maxBytes" "maxBytes \<le> int MaxPacketBufferSize"
  shows "\<exists>s' conn' fo hasMore. popStreamFrame (sr_stream r) conn maxBytes = Ok (s', conn', fo, hasMore)
    \<and> (\<forall>f. fo = Some f \<longrightarrow> (\<exists>l. StreamFrame_Length f = Ok l \<and> l \<le> maxBytes))"
proof -
  let ?s = "sr_stream r"
  have i: "data_inv ?s (sr_content r) (sr_call_data r) snt" "\<forall>f \<in> set (ss_retransmissionQueue ?s). frame_of (ss_streamID ?s) snt (ss_finSent ?s) f"
    using inv by (auto simp: send_inv_def tracked_def)
  obtain s1 conn1 f1 more1 where p1: "popNewOrRetransmittedStreamFrame ?s conn maxBytes = Ok (s1, conn1, f1, more1)"
      "pop_result ?s (sr_content r) (sr_call_data r) snt maxBytes s1 f1"
    using pop_law [OF i m] by blast
  then show ?thesis
    by (cases f1) (auto simp: popStreamFrame_def pop_result_def)
qed

definition accepted :: "send_run \<Rightarrow> byte list" where
  "accepted r = sr_content r @ (case sr_call r of None \<Rightarrow> [] | Some (p, _) \<Rightarrow> p)"

lemma accepted_sent:
  assumes "send_inv sid r snt"
  shows "\<exists>w. accepted r = snt @ w \<and> (ss_finSent (sr_stream r) \<longrightarrow> w = [] \<and> ss_finishedWriting (sr_stream r))"
proof -
  have "accepted r = sr_content r @ (case sr_call_data r of None \<Rightarrow> [] | Some p \<Rightarrow> p)"
    by (simp add: accepted_def sr_call_data_def split: option.split prod.split)
  then show ?thesis
    using assms by (auto simp: send_inv_def data_inv_def buffered_def forWriting_def)
qed

lemma sent_frames:
  assumes run: "send_step\<^sup>*\<^sup>* (send_init sid fc fec) r"
    and fc: "fits_i sid" "fc_bytesSent fc = 0" "0 \<le> fc_sendWindow fc" "fc_sendWindow fc \<le> MaxByteCount"
  shows "\<forall>f \<in> set (sr_sent r). 0 \<le> sf_Offset f \<and> sf_Offset f + int (length (sf_Data f)) \<le> int (length (accepted r))
    \<and> sf_Offset f + int (length (sf_Data f)) \<le> fc_sendWindow (ss_flowController (sr_stream r))
    \<and> (\<forall>n < length (sf_Data f). sf_Data f ! n = accepted r ! (nat (sf_Offset f) + n))"
proof -
  obtain snt where inv: "send_inv sid r snt"
    using send_reach_inv [OF run fc] by blast
  obtain w where w: "accepted r = snt @ w"
    using accepted_sent [OF inv] by blast
  have fr: "\<forall>f \<in> set (sr_sent r). frame_of sid snt (ss_finSent (sr_stream r)) f" "int (length snt) \<le> fc_sendWindow (ss_flowController (sr_stream r))"
    using inv by (auto simp: send_inv_def data_inv_def)
  have "sf_Data f ! n = (snt @ w) ! (nat (sf_Offset f) + n)" if f: "f \<in> set (sr_sent r)" "n < length (sf_Data f)" for f n
  proof -
    have t: "take (length (sf_Data f)) (drop (nat (sf_Offset f)) snt) = sf_Data f" "nat (sf_Offset f) + n < length snt"
      using fr(1) f by (force simp: frame_of_def)+
    have "take (length (sf_Data f)) (drop (nat (sf_Offset f)) snt) ! n = snt ! (nat (sf_Offset f) + n)"
      using f(2) t(2) by simp
    then show ?thesis
      using t by (simp add: nth_append)
  qed
  then show ?thesis
    using fr w by (force simp: frame_of_def)
qed

text \<open>A sample run: three bytes are written, the stream is closed, and the only frame is acknowledged.\<close>

definition sample_fc :: streamFlowController where
  "sample_fc = NewStreamFlowController 4 1000 1000 100"

definition sample_frame :: StreamFrame where
  "sample_frame = \<lparr>sf_StreamID = 4, sf_Offset = 0, sf_Data = [7, 8, 9], sf_Fin = True, sf_DataLenPresent = True,
     sf_fromPool = True, sf_FECProtected = False\<rparr>"

lemma sample_send_run:
  "\<exists>r. send_step\<^sup>*\<^sup>* (send_init 4 sample_fc False) r \<and> sr_sent r = [sample_frame] \<and> sr_acked r = [sample_frame] \<and> sr_out r = {#}
     \<and> accepted r = [7, 8, 9] \<and> ss_completed (sr_stream r) \<and> ss_cancelWriteErr (sr_stream r) = None
     \<and> fc_sendWindow (ss_flowController (sr_stream r)) = 100"
proof -
  let ?s0 = "newSendStreamWithFEC 4 sample_fc False" and ?r0 = "send_init 4 sample_fc False"
  let ?conn = "(NewConnectionFlowController 1000 1000 None)\<lparr>fc_sendWindow := 100\<rparr>"
  let ?s1 = "?s0\<lparr>ss_dataForWriting := Some [7, 8, 9], ss_writeOnce := True\<rparr>"
  let ?s2 = "?s0\<lparr>ss_nextFrame := Some (sample_frame\<lparr>sf_Fin := False\<rparr>), ss_sender := [OnHasStreamData 4]\<rparr>"
  have "Write_start ?s0 0 [7, 8, 9] = (?s1, None)"
    by (simp add: Write_start_def newSendStreamWithFEC_def deadlinePassed_def)
  moreover have "Write_pass ?s1 0 [7, 8, 9] False = (?s2, True, Ok (Some (3, None)))"
    by (simp add: Write_pass_def newSendStreamWithFEC_def canBufferStreamFrame_def forWriting_def GetStreamFrame_def sample_frame_def
        MaxPacketBufferSize_def callSender_def Write_result_def)
  ultimately have 1: "send_step ?r0 (?r0\<lparr>sr_stream := ?s2, sr_content := [7, 8, 9]\<rparr>)" (is "send_step _ ?r1")
    using send_step.begin_write [of ?r0 0 "[7, 8, 9]" ?s1 ?s2 True "Some (3, None)"] by (simp add: send_init_def after_write_def)
  let ?s3 = "?s2\<lparr>ss_ctx := Some None, ss_finishedWriting := True, ss_sender := [OnHasStreamData 4, OnHasStreamData 4]\<rparr>"
  have 2: "send_step ?r1 (?r1\<lparr>sr_stream := ?s3\<rparr>)" (is "send_step _ ?r2")
    using send_step.close [of ?r1] by (simp add: sendStream_Close_def newSendStreamWithFEC_def ctxCancel_def callSender_def)
  let ?s4 = "?s3\<lparr>ss_nextFrame := None, ss_writeChan := True, ss_writeOffset := 3, ss_finSent := True, ss_numOutstandingFrames := 1,
      ss_flowController := sample_fc\<lparr>fc_bytesSent := 3\<rparr>\<rparr>"
  have md: "StreamFrame_MaxDataLen (sample_frame\<lparr>sf_Fin := False\<rparr>) 200 = Ok 196"
    by code_simp
  have "popNewStreamFrame ?s3 200 100 = Ok (?s3\<lparr>ss_nextFrame := None, ss_writeChan := True\<rparr>, Some (sample_frame\<lparr>sf_Fin := False\<rparr>), False)"
    by (simp add: popNewStreamFrame_def newSendStreamWithFEC_def md StreamFrame_DataLen_def signalWrite_def sample_frame_def [THEN arg_cong, of sf_Data])
  then have "popStreamFrame ?s3 ?conn 200 = Ok (?s4, ?conn\<lparr>fc_bytesSent := 3\<rparr>, Some sample_frame, False)"
    by (simp add: popStreamFrame_def popNewOrRetransmittedStreamFrame_def popNewData_def newSendStreamWithFEC_def
        stream_SendWindowSize_def sample_fc_def NewStreamFlowController_def fc_sendWindowSize_def conn_SendWindowSize_def
        NewConnectionFlowController_def sample_frame_def StreamFrame_DataLen_def forWriting_def
        stream_AddBytesSent_def fc_AddBytesSent_def Let_def)
  then have 3: "send_step ?r2 (?r2\<lparr>sr_stream := ?s4, sr_sent := [sample_frame], sr_out := {#sample_frame#}\<rparr>)" (is "send_step _ ?r3")
    using send_step.take_frame [of 200 ?r2 ?conn ?s4 "?conn\<lparr>fc_bytesSent := 3\<rparr>" "Some sample_frame" False]
    by (simp add: MinStreamFrameSize_def MaxPacketBufferSize_def send_init_def)
  let ?s5 = "?s4\<lparr>ss_numOutstandingFrames := 0, ss_completed := True, ss_sender := [OnHasStreamData 4, OnHasStreamData 4, OnStreamCompleted 4]\<rparr>"
  have "sendStream_OnAcked ?s4 (sample_frame\<lparr>sf_DataLenPresent := True\<rparr>) = Ok ?s5"
    by (simp add: sendStream_OnAcked_def isNewlyCompleted_def newSendStreamWithFEC_def callSender_def)
  then have 4: "send_step ?r3 (?r3\<lparr>sr_stream := ?s5, sr_out := {#}, sr_acked := [sample_frame]\<rparr>)" (is "send_step _ ?r4")
    using send_step.ack_frame [of sample_frame ?r3 True ?s5] by (simp add: send_init_def)
  have "send_step\<^sup>*\<^sup>* ?r0 ?r4"
    using 1 2 3 4 by (meson rtranclp.rtrancl_into_rtrancl rtranclp.rtrancl_refl)
  then show ?thesis
    by (intro exI [of _ ?r4])
      (simp add: accepted_def send_init_def newSendStreamWithFEC_def sample_fc_def NewStreamFlowController_def)
qed

lemma sample_fc_ok: "fits_i 4" "fc_bytesSent sample_fc = 0" "0 \<le> fc_sendWindow sample_fc" "fc_sendWindow sample_fc \<le> MaxByteCount"
  by (simp_all add: fits_i_def sample_fc_def NewStreamFlowController_def MaxByteCount_def)

text \<open>
  C5 (send-stream). In every run of a send stream, each frame taken so far carries the bytes
  the application wrote at the offset of the frame, within the window the peer granted, and
  FIN only at the end of a closed stream. Taking a frame with room for at least 128 bytes
  does not panic and gives a frame that fits.
\<close>

theorem send_stream_correct:
  assumes run: "send_step\<^sup>*\<^sup>* (send_init sid fc fec) r"
    and fc: "fits_i sid" "fc_bytesSent fc = 0" "0 \<le> fc_sendWindow fc" "fc_sendWindow fc \<le> MaxByteCount"
    and m: "MinStreamFrameSize \<le> maxBytes" "maxBytes \<le> int MaxPacketBufferSize"
  shows "(\<forall>f \<in> set (sr_sent r). sf_StreamID f = sid \<and> 0 \<le> sf_Offset f
        \<and> sf_Offset f + int (length (sf_Data f)) \<le> fc_sendWindow (ss_flowController (sr_stream r))
        \<and> sf_Data f = take (length (sf_Data f)) (drop (nat (sf_Offset f)) (accepted r))
        \<and> (sf_Fin f \<longrightarrow> ss_finishedWriting (sr_stream r) \<and> sf_Offset f + int (length (sf_Data f)) = int (length (accepted r))))
    \<and> (\<exists>s' conn' fo hasMore. popStreamFrame (sr_stream r) conn maxBytes = Ok (s', conn', fo, hasMore)
        \<and> (\<forall>f. fo = Some f \<longrightarrow> (\<exists>l. StreamFrame_Length f = Ok l \<and> l \<le> maxBytes)))"
proof -
  obtain snt where inv: "send_inv sid r snt"
    using send_reach_inv [OF run fc] by blast
  obtain w where w: "accepted r = snt @ w" "ss_finSent (sr_stream r) \<longrightarrow> w = [] \<and> ss_finishedWriting (sr_stream r)"
    using accepted_sent [OF inv] by blast
  have "\<forall>f \<in> set (sr_sent r). frame_of sid snt (ss_finSent (sr_stream r)) f" "int (length snt) \<le> fc_sendWindow (ss_flowController (sr_stream r))"
    using inv by (auto simp: send_inv_def data_inv_def)
  moreover have "\<exists>s' conn' fo hasMore. popStreamFrame (sr_stream r) conn maxBytes = Ok (s', conn', fo, hasMore)
        \<and> (\<forall>f. fo = Some f \<longrightarrow> (\<exists>l. StreamFrame_Length f = Ok l \<and> l \<le> maxBytes))"
    by (rule popStreamFrame_fits [OF inv m])
  ultimately show ?thesis
    using w by (fastforce simp: frame_of_def)
qed

theorem send_stream_correct_witness:
  "\<exists>r. send_step\<^sup>*\<^sup>* (send_init 4 sample_fc False) r \<and> sr_sent r = [sample_frame]
     \<and> sf_Data sample_frame = take (length (sf_Data sample_frame)) (drop (nat (sf_Offset sample_frame)) (accepted r))
     \<and> sf_Offset sample_frame + int (length (sf_Data sample_frame)) = int (length (accepted r))"
proof -
  obtain r where r: "send_step\<^sup>*\<^sup>* (send_init 4 sample_fc False) r" "sr_sent r = [sample_frame]"
    using sample_send_run by blast
  then show ?thesis
    using send_stream_correct [OF r(1) sample_fc_ok, of 200 "NewConnectionFlowController 1000 1000 None"]
    by (auto simp: sample_frame_def MinStreamFrameSize_def MaxPacketBufferSize_def)
qed

text \<open>
  C6 (send-complete). Unless the stream was cancelled, no byte that was sent is forgotten: it is
  in flight, acknowledged or queued to be sent again. The stream is reported as completed
  only after it was closed and all bytes and the FIN were acknowledged. Acknowledging or
  losing a frame in flight does not panic.
\<close>

theorem send_stream_completes:
  assumes run: "send_step\<^sup>*\<^sup>* (send_init sid fc fec) r"
    and fc: "fits_i sid" "fc_bytesSent fc = 0" "0 \<le> fc_sendWindow fc" "fc_sendWindow fc \<le> MaxByteCount"
    and nc: "ss_cancelWriteErr (sr_stream r) = None"
  shows "{0 ..< ss_writeOffset (sr_stream r)} \<subseteq> covers (tracked r)
    \<and> (ss_completed (sr_stream r) \<longrightarrow> ss_finishedWriting (sr_stream r)
        \<and> {0 ..< int (length (accepted r))} \<subseteq> covers (set (sr_acked r)) \<and> (\<exists>f \<in> set (sr_acked r). sf_Fin f))
    \<and> (\<forall>f \<in># sr_out r. is_ok (sendStream_OnAcked (sr_stream r) f) \<and> is_ok (sendStream_OnLost (sr_stream r) f))"
proof -
  obtain snt where inv: "send_inv sid r snt"
    using send_reach_inv [OF run fc] by blast
  obtain w where w: "accepted r = snt @ w" "ss_finSent (sr_stream r) \<longrightarrow> w = [] \<and> ss_finishedWriting (sr_stream r)"
    using accepted_sent [OF inv] by blast
  have "is_ok (sendStream_OnAcked (sr_stream r) f) \<and> is_ok (sendStream_OnLost (sr_stream r) f)" if f: "f \<in># sr_out r" for f
  proof -
    obtain b cs where "sendStream_OnAcked (sr_stream r) f =
        Ok ((sr_stream r)\<lparr>ss_numOutstandingFrames := int (size (sr_out r - {#f#})), ss_completed := b, ss_sender := cs\<rparr>)"
      by (rule OnAcked_law [OF inv f nc, of f]) blast
    then show ?thesis
      using out_not_completed [OF inv f nc] nc by (simp add: sendStream_OnLost_def)
  qed
  then show ?thesis
    using inv nc w by (auto simp: send_inv_def data_inv_def tracked_def)
qed

theorem send_stream_completes_witness:
  "\<exists>r. send_step\<^sup>*\<^sup>* (send_init 4 sample_fc False) r \<and> ss_completed (sr_stream r) \<and> accepted r = [7, 8, 9]
     \<and> {0 ..< 3} \<subseteq> covers (set (sr_acked r)) \<and> (\<exists>f \<in> set (sr_acked r). sf_Fin f)"
proof -
  obtain r where r: "send_step\<^sup>*\<^sup>* (send_init 4 sample_fc False) r" "accepted r = [7, 8, 9]" "ss_completed (sr_stream r)"
      "ss_cancelWriteErr (sr_stream r) = None"
    using sample_send_run by blast
  then show ?thesis
    using send_stream_completes [OF r(1) sample_fc_ok r(4)] by (intro exI [of _ r]) simp
qed

end
