(* ===== verification/RetransmissionQueue.thy ===== *)
theory RetransmissionQueue
  imports FrameParser
begin

text \<open>
  The queue of lost frames that are sent again (\<^verbatim>\<open>src/retransmission_queue.go\<close>): one list per packet
  number space, with the CRYPTO frames of the first two apart, since they can be split. The
  version argument is not used by any frame and left out.
\<close>

section \<open>The queue\<close>

record retransmissionQueue =
  rtq_initial :: "Frame list"
  rtq_initialCryptoData :: "CryptoFrame list"
  rtq_handshake :: "Frame list"
  rtq_handshakeCryptoData :: "CryptoFrame list"
  rtq_appData :: "Frame list"

definition newRetransmissionQueue :: retransmissionQueue where
  "newRetransmissionQueue = \<lparr>rtq_initial = [], rtq_initialCryptoData = [], rtq_handshake = [],
     rtq_handshakeCryptoData = [], rtq_appData = []\<rparr>"

definition addInitial :: "retransmissionQueue \<Rightarrow> Frame \<Rightarrow> retransmissionQueue" where
  "addInitial q f =
     (case f of
        FCrypto cf \<Rightarrow> q\<lparr>rtq_initialCryptoData := rtq_initialCryptoData q @ [cf]\<rparr>
      | _ \<Rightarrow> q\<lparr>rtq_initial := rtq_initial q @ [f]\<rparr>)"

definition addHandshake :: "retransmissionQueue \<Rightarrow> Frame \<Rightarrow> retransmissionQueue" where
  "addHandshake q f =
     (case f of
        FCrypto cf \<Rightarrow> q\<lparr>rtq_handshakeCryptoData := rtq_handshakeCryptoData q @ [cf]\<rparr>
      | _ \<Rightarrow> q\<lparr>rtq_handshake := rtq_handshake q @ [f]\<rparr>)"

definition addAppData :: "retransmissionQueue \<Rightarrow> Frame \<Rightarrow> retransmissionQueue outcome" where
  "addAppData q f =
     (case f of
        FStream _ \<Rightarrow> Panic ''STREAM frames are handled with their respective streams.''
      | _ \<Rightarrow> Ok (q\<lparr>rtq_appData := rtq_appData q @ [f]\<rparr>))"

definition AddPing :: "retransmissionQueue \<Rightarrow> EncryptionLevel \<Rightarrow> retransmissionQueue outcome" where
  "AddPing q encLevel =
     (case encLevel of
        EncryptionInitial \<Rightarrow> Ok (addInitial q FPing)
      | EncryptionHandshake \<Rightarrow> Ok (addHandshake q FPing)
      | Encryption1RTT \<Rightarrow> addAppData q FPing
      | Encryption0RTT \<Rightarrow> Panic ''unexpected encryption level'')"

definition HasInitialData :: "retransmissionQueue \<Rightarrow> bool" where
  "HasInitialData q \<longleftrightarrow> length (rtq_initialCryptoData q) > 0 \<or> length (rtq_initial q) > 0"

definition HasHandshakeData :: "retransmissionQueue \<Rightarrow> bool" where
  "HasHandshakeData q \<longleftrightarrow> length (rtq_handshakeCryptoData q) > 0 \<or> length (rtq_handshake q) > 0"

definition HasAppData :: "retransmissionQueue \<Rightarrow> bool" where
  "HasAppData q \<longleftrightarrow> length (rtq_appData q) > 0"

text \<open>
  The first frame that fits, from the CRYPTO frames and the others of one packet number
  space. Both \<^verbatim>\<open>GetInitialFrame\<close> and \<^verbatim>\<open>GetHandshakeFrame\<close> have this body.
\<close>

definition getFrame ::
  "CryptoFrame list \<Rightarrow> Frame list \<Rightarrow> ByteCount \<Rightarrow> (CryptoFrame list \<times> Frame list \<times> Frame option) outcome" where
  "getFrame crypto others maxLen =
     bindr (case crypto of
              [] \<Rightarrow> Ok (crypto, None)
            | f # fs \<Rightarrow>
                bindr (CryptoFrame_MaybeSplitOffFrame f maxLen) (\<lambda>(newFrame, needsSplit, f').
                if newFrame = None \<and> \<not> needsSplit then Ok (fs, Some (FCrypto f'))
                else case newFrame of
                       Some g \<Rightarrow> Ok (f' # fs, Some (FCrypto g))
                     | None \<Rightarrow> Ok (f' # fs, None))) (\<lambda>(crypto, f).
     case f of
       Some f \<Rightarrow> Ok (crypto, others, Some f)
     | None \<Rightarrow>
         (case others of
            [] \<Rightarrow> Ok (crypto, others, None)
          | f # fs \<Rightarrow> bindr (Frame_Length f) (\<lambda>l.
              if l > maxLen then Ok (crypto, others, None) else Ok (crypto, fs, Some f))))"

definition GetInitialFrame :: "retransmissionQueue \<Rightarrow> ByteCount \<Rightarrow> (retransmissionQueue \<times> Frame option) outcome" where
  "GetInitialFrame q maxLen =
     bindr (getFrame (rtq_initialCryptoData q) (rtq_initial q) maxLen) (\<lambda>(crypto, others, f).
     Ok (q\<lparr>rtq_initialCryptoData := crypto, rtq_initial := others\<rparr>, f))"

definition GetHandshakeFrame :: "retransmissionQueue \<Rightarrow> ByteCount \<Rightarrow> (retransmissionQueue \<times> Frame option) outcome" where
  "GetHandshakeFrame q maxLen =
     bindr (getFrame (rtq_handshakeCryptoData q) (rtq_handshake q) maxLen) (\<lambda>(crypto, others, f).
     Ok (q\<lparr>rtq_handshakeCryptoData := crypto, rtq_handshake := others\<rparr>, f))"

definition GetAppDataFrame :: "retransmissionQueue \<Rightarrow> ByteCount \<Rightarrow> (retransmissionQueue \<times> Frame option) outcome" where
  "GetAppDataFrame q maxLen =
     (case rtq_appData q of
        [] \<Rightarrow> Ok (q, None)
      | f # fs \<Rightarrow> bindr (Frame_Length f) (\<lambda>l.
          if l > maxLen then Ok (q, None) else Ok (q\<lparr>rtq_appData := fs\<rparr>, Some f)))"

definition retransmission_DropPackets :: "retransmissionQueue \<Rightarrow> EncryptionLevel \<Rightarrow> retransmissionQueue outcome" where
  "retransmission_DropPackets q encLevel =
     (case encLevel of
        EncryptionInitial \<Rightarrow> Ok (q\<lparr>rtq_initial := [], rtq_initialCryptoData := []\<rparr>)
      | EncryptionHandshake \<Rightarrow> Ok (q\<lparr>rtq_handshake := [], rtq_handshakeCryptoData := []\<rparr>)
      | _ \<Rightarrow> Panic ''unexpected encryption level'')"

text \<open>The handlers of frames sent from the queue; an acknowledgement needs no action.\<close>

datatype frameHandler = NoHandler | InitialAckHandler | HandshakeAckHandler | AppDataAckHandler | StreamAckHandler StreamID

definition retransmission_OnLost :: "retransmissionQueue \<Rightarrow> frameHandler \<Rightarrow> Frame \<Rightarrow> retransmissionQueue outcome" where
  "retransmission_OnLost q h f =
     (case h of
        InitialAckHandler \<Rightarrow> Ok (addInitial q f)
      | HandshakeAckHandler \<Rightarrow> Ok (addHandshake q f)
      | AppDataAckHandler \<Rightarrow> addAppData q f
      | _ \<Rightarrow> Ok q)"

section \<open>Taking frames until a packet is full\<close>

text \<open>Every frame that is taken makes the queues shorter.\<close>

definition crypto_measure :: "CryptoFrame list \<Rightarrow> Frame list \<Rightarrow> nat" where
  "crypto_measure crypto others = sum_list (map (\<lambda>f. length (cf_Data f) + 1) crypto) + length others"

lemma CryptoFrame_MaxDataLen_nonneg:
  assumes "CryptoFrame_MaxDataLen f maxSize = Ok n"
  shows "0 \<le> n"
proof -
  obtain h where h: "(if h > maxSize then Ok 0 else let maxDataLen = maxSize - h in bindr (quicvarint_Len (to_u64 maxDataLen)) (\<lambda>l.
      Ok (if l \<noteq> 1 then maxDataLen - 1 else maxDataLen))) = Ok n"
    using assms unfolding CryptoFrame_MaxDataLen_def bindr_eq_Ok_iff by blast
  have "quicvarint_Len (to_u64 0) = Ok 1"
    by (simp add: quicvarint_Len_def to_u64_def)
  then show ?thesis
    using h by (cases "maxSize = h"; cases "quicvarint_Len (to_u64 (maxSize - h))") (auto simp: Let_def split: if_splits)
qed

lemma split_shorter:
  assumes "CryptoFrame_MaybeSplitOffFrame f maxLen = Ok (Some g, needsSplit, f')"
  shows "length (cf_Data f') < length (cf_Data f)"
proof -
  obtain n where "CryptoFrame_MaxDataLen f maxLen = Ok n" "n \<noteq> 0" "\<not> n > int (length (cf_Data f))" "cf_Data f' = drop (nat n) (cf_Data f)"
    using assms by (auto simp: CryptoFrame_MaybeSplitOffFrame_def bindr_eq_Ok_iff split: if_splits)
  then show ?thesis
    using CryptoFrame_MaxDataLen_nonneg [of f maxLen n] by auto
qed

lemma getFrame_shorter:
  assumes "getFrame crypto others maxLen = Ok (crypto', others', Some f)"
  shows "crypto_measure crypto' others' < crypto_measure crypto others"
proof (cases crypto)
  case Nil
  then show ?thesis
    using assms by (auto simp: getFrame_def crypto_measure_def bindr_eq_Ok_iff split: list.splits if_splits)
next
  case (Cons g fs)
  obtain new needed g' where sp: "CryptoFrame_MaybeSplitOffFrame g maxLen = Ok (new, needed, g')"
    using assms Cons by (cases "CryptoFrame_MaybeSplitOffFrame g maxLen") (auto simp: getFrame_def)
  have "new = None \<Longrightarrow> g' = g"
    using sp by (auto simp: CryptoFrame_MaybeSplitOffFrame_def bindr_eq_Ok_iff split: if_splits)
  then show ?thesis
    using assms Cons sp split_shorter [of g maxLen _ needed g']
    by (cases new; cases needed; cases others) (auto simp: getFrame_def crypto_measure_def bindr_eq_Ok_iff split: if_splits)
qed

lemma GetAppDataFrame_shorter: "GetAppDataFrame q maxLen = Ok (q', Some f) \<Longrightarrow> length (rtq_appData q') < length (rtq_appData q)"
  by (auto simp: GetAppDataFrame_def bindr_eq_Ok_iff split: list.splits if_splits)

text \<open>
  The loop of \<^verbatim>\<open>maybeGetCryptoPacket\<close> (\<^verbatim>\<open>src/packet_packer.go\<close>), for the initial or the handshake space: frames
  are taken until none fits. It returns what is left of the queues, and the frames with
  their total length.
\<close>

function takeCryptoFrames ::
  "CryptoFrame list \<Rightarrow> Frame list \<Rightarrow> ByteCount \<Rightarrow> Frame list \<Rightarrow> ByteCount
   \<Rightarrow> (CryptoFrame list \<times> Frame list \<times> Frame list \<times> ByteCount) outcome" where
  "takeCryptoFrames crypto others room frames len =
     (case getFrame crypto others room of
        Panic m \<Rightarrow> Panic m
      | Err e \<Rightarrow> Err e
      | Ok (crypto', others', None) \<Rightarrow> Ok (crypto', others', frames, len)
      | Ok (crypto', others', Some f) \<Rightarrow>
          (case Frame_Length f of
             Panic m \<Rightarrow> Panic m
           | Err e \<Rightarrow> Err e
           | Ok l \<Rightarrow> takeCryptoFrames crypto' others' (room - l) (frames @ [f]) (len + l)))"
  by pat_completeness auto
termination
  by (relation "measure (\<lambda>(crypto, others, room, frames, len). crypto_measure crypto others)") (auto dest: getFrame_shorter)

text \<open>The loop of \<^verbatim>\<open>composeNextPacket\<close> for lost frames of 1-RTT packets.\<close>

function takeAppFrames ::
  "retransmissionQueue \<Rightarrow> ByteCount \<Rightarrow> ByteCount \<Rightarrow> Frame list \<Rightarrow> ByteCount
   \<Rightarrow> (retransmissionQueue \<times> Frame list \<times> ByteCount) outcome" where
  "takeAppFrames q minSize room frames len =
     (if room < minSize then Ok (q, frames, len)
      else case GetAppDataFrame q room of
        Panic m \<Rightarrow> Panic m
      | Err e \<Rightarrow> Err e
      | Ok (q', None) \<Rightarrow> Ok (q', frames, len)
      | Ok (q', Some f) \<Rightarrow>
          (case Frame_Length f of
             Panic m \<Rightarrow> Panic m
           | Err e \<Rightarrow> Err e
           | Ok l \<Rightarrow> takeAppFrames q' minSize (room - l) (frames @ [f]) (len + l)))"
  by pat_completeness auto
termination
  by (relation "measure (\<lambda>(q, minSize, room, frames, len). length (rtq_appData q))") (auto dest: GetAppDataFrame_shorter)

declare takeCryptoFrames.simps [simp del] takeAppFrames.simps [simp del]

section \<open>Laws\<close>

lemma all_accepted: "parser_accepts (NewFrameParser True) EncryptionInitial f"
  by (cases f) (simp_all add: NewFrameParser_def)

lemma Frame_Length_enc: "Frame_wf f \<Longrightarrow> Frame_Length f = Ok (int (length (frames.enc f)))"
  using frames.length_enc [of f "NewFrameParser True" EncryptionInitial] all_accepted by blast

lemma Frame_Append_enc: "Frame_wf f \<Longrightarrow> Frame_Append b f = Ok (b @ frames.enc f)"
  using frames.append_enc [of f "NewFrameParser True" EncryptionInitial b] all_accepted by blast

text \<open>The bytes of CRYPTO frames with their offsets, and the two kinds of frames in a packet.\<close>

definition crypto_bytes :: "CryptoFrame list \<Rightarrow> (ByteCount \<times> byte) list" where
  "crypto_bytes fs = concat (map (\<lambda>f. zip (map (\<lambda>i. cf_Offset f + int i) [0..<length (cf_Data f)]) (cf_Data f)) fs)"

fun crypto_of :: "Frame list \<Rightarrow> CryptoFrame list" where
  "crypto_of [] = []"
| "crypto_of (FCrypto f # fs) = f # crypto_of fs"
| "crypto_of (_ # fs) = crypto_of fs"

fun is_crypto :: "Frame \<Rightarrow> bool" where
  "is_crypto (FCrypto f) = True"
| "is_crypto _ = False"

definition crypto_ok :: "CryptoFrame \<Rightarrow> bool" where
  "crypto_ok f \<longleftrightarrow> CryptoFrame_wf f \<and> fits_i (cf_Offset f + int (length (cf_Data f)))"

definition frame_size :: "Frame \<Rightarrow> int" where
  "frame_size f = (case Frame_Length f of Ok l \<Rightarrow> l | _ \<Rightarrow> 0)"

lemma crypto_of_append: "crypto_of (xs @ ys) = crypto_of xs @ crypto_of ys"
  by (induction xs rule: crypto_of.induct) auto

lemma crypto_of_other: "\<not> is_crypto f \<Longrightarrow> crypto_of (f # fs) = crypto_of fs"
  by (cases f) auto

lemma crypto_bytes_Cons: "crypto_bytes (f # fs) = zip (map (\<lambda>i. cf_Offset f + int i) [0..<length (cf_Data f)]) (cf_Data f) @ crypto_bytes fs"
  by (simp add: crypto_bytes_def)

lemma crypto_bytes_split:
  assumes "cf_Data g @ cf_Data f' = cf_Data f" "cf_Offset g = cf_Offset f" "cf_Offset f' = cf_Offset f + int (length (cf_Data g))"
  shows "crypto_bytes (g # f' # fs) = crypto_bytes (f # fs)"
proof -
  let ?n = "length (cf_Data g)" and ?m = "length (cf_Data f')"
  have l: "length (cf_Data f) = ?n + ?m"
    using assms(1) by (metis length_append)
  have "map (\<lambda>i. cf_Offset f + int i) [0..<?n + ?m] = map (\<lambda>i. cf_Offset g + int i) [0..<?n] @ map (\<lambda>i. cf_Offset f' + int i) [0..<?m]"
    by (rule nth_equalityI) (auto simp: nth_append assms(2,3))
  then show ?thesis
    unfolding crypto_bytes_Cons l assms(1) [symmetric] by simp
qed

text \<open>One frame is taken, and it fits.\<close>

lemma getFrame_law:
  assumes c: "\<forall>f \<in> set crypto. crypto_ok f" and o: "\<forall>f \<in> set others. Frame_wf f \<and> \<not> is_crypto f" and r: "0 \<le> room" "room < 16384"
  obtains (nothing) "getFrame crypto others room = Ok (crypto, others, None)"
  | (taken) f crypto' others' l where "getFrame crypto others room = Ok (crypto', others', Some f)" "Frame_Length f = Ok l" "0 \<le> l" "l \<le> room"
      "\<forall>f \<in> set crypto'. crypto_ok f" "\<forall>f \<in> set others'. Frame_wf f \<and> \<not> is_crypto f"
      "crypto_bytes (crypto_of [f] @ crypto') = crypto_bytes crypto" "filter (\<lambda>f. \<not> is_crypto f) [f] @ others' = others"
      "length (crypto_bytes crypto') + length crypto' + length others' < length (crypto_bytes crypto) + length crypto + length others"
proof -
  have fr: "fits_i room"
    using r by (simp add: fits_i_def)
  have other: thesis if "crypto = [] \<or> (\<exists>f fs f'. crypto = f # fs \<and> CryptoFrame_MaybeSplitOffFrame f room = Ok (None, True, f))"
  proof (cases others)
    case Nil
    then have "getFrame crypto others room = Ok (crypto, others, None)"
      using that by (auto simp: getFrame_def)
    then show thesis
      by (rule nothing)
  next
    case (Cons f fs)
    have wf: "Frame_wf f" "\<not> is_crypto f"
      using o Cons by auto
    have l: "Frame_Length f = Ok (int (length (frames.enc f)))"
      by (rule Frame_Length_enc [OF wf(1)])
    show thesis
    proof (cases "int (length (frames.enc f)) > room")
      case True
      then have "getFrame crypto others room = Ok (crypto, others, None)"
        using that Cons l by (auto simp: getFrame_def)
      then show thesis
        by (rule nothing)
    next
      case False
      then have "getFrame crypto others room = Ok (crypto, fs, Some f)"
        using that Cons l by (auto simp: getFrame_def)
      then show thesis
        using l False c o Cons wf by (intro taken) (auto simp: crypto_of_other)
    qed
  qed
  show thesis
  proof (cases crypto)
    case Nil
    then show thesis
      using other by blast
  next
    case (Cons f fs)
    then have wf: "CryptoFrame_wf f" "fits_i (cf_Offset f + int (length (cf_Data f)))"
      using c by (auto simp: crypto_ok_def)
    obtain new needed f' where sp: "CryptoFrame_MaybeSplitOffFrame f room = Ok (new, needed, f')"
      and nd: "needed \<longleftrightarrow> (\<exists>len. CryptoFrame_Length f = Ok len \<and> room < len)"
      and nw: "case new of None \<Rightarrow> f' = f
        | Some g \<Rightarrow> needed \<and> cf_Data g @ cf_Data f' = cf_Data f \<and> cf_Data g \<noteq> [] \<and> cf_Data f' \<noteq> []
           \<and> cf_Offset g = cf_Offset f \<and> cf_Offset f' = cf_Offset f + int (length (cf_Data g))
           \<and> (\<exists>len. CryptoFrame_Length g = Ok len \<and> len \<le> room)"
      using CryptoFrame_split_law [OF wf(1) fr r(2)] by blast
    obtain len where len: "CryptoFrame_Length f = Ok len" "0 \<le> len"
      using CryptoFrame_Length_Ok [OF wf(1)] by auto
    show thesis
    proof (cases new)
      case None
      show thesis
      proof (cases needed)
        case True
        then show thesis
          using other Cons sp None nw by auto
      next
        case False
        then have "getFrame crypto others room = Ok (fs, others, Some (FCrypto f))"
          using Cons sp None nw by (simp add: getFrame_def)
        then show thesis
          using len False nd c o Cons by (intro taken) (auto simp: crypto_bytes_Cons)
      qed
    next
      case (Some g)
      then have g: "cf_Data g @ cf_Data f' = cf_Data f" "cf_Data g \<noteq> []" "cf_Offset g = cf_Offset f" "cf_Offset f' = cf_Offset f + int (length (cf_Data g))"
        using nw by auto
      have l: "length (cf_Data f) = length (cf_Data g) + length (cf_Data f')" "0 < length (cf_Data g)"
        using g by (metis length_append, simp)
      obtain lg where lg: "CryptoFrame_Length g = Ok lg" "lg \<le> room"
        using nw Some by auto
      have "CryptoFrame_wf g" "crypto_ok f'"
        using wf g l by (auto simp: crypto_ok_def CryptoFrame_wf_def fits_i_def)
      moreover have "0 \<le> lg"
        using CryptoFrame_Length_Ok [OF \<open>CryptoFrame_wf g\<close>] lg by simp
      moreover have "getFrame crypto others room = Ok (f' # fs, others, Some (FCrypto g))"
        using Cons sp Some nw by (simp add: getFrame_def)
      moreover have "crypto_bytes (g # f' # fs) = crypto_bytes (f # fs)"
        by (rule crypto_bytes_split [OF g(1,3,4)])
      ultimately show thesis
        using lg c o Cons l by (intro taken) (auto simp: crypto_bytes_Cons)
    qed
  qed
qed

text \<open>What a loop has done: it stopped, nothing was lost, the frames fit, and no further one does.\<close>

definition drained ::
  "CryptoFrame list \<Rightarrow> Frame list \<Rightarrow> ByteCount \<Rightarrow> CryptoFrame list \<Rightarrow> Frame list \<Rightarrow> Frame list \<Rightarrow> bool" where
  "drained crypto others room crypto' others' frames \<longleftrightarrow>
     crypto_bytes (crypto_of frames @ crypto') = crypto_bytes crypto \<and> filter (\<lambda>f. \<not> is_crypto f) frames @ others' = others
     \<and> (\<forall>f \<in> set frames. Frame_Length f = Ok (frame_size f)) \<and> sum_list (map frame_size frames) \<le> room
     \<and> getFrame crypto' others' (room - sum_list (map frame_size frames)) = Ok (crypto', others', None)"

lemma crypto_bytes_append: "crypto_bytes (xs @ ys) = crypto_bytes xs @ crypto_bytes ys"
  by (simp add: crypto_bytes_def)

lemma takeCryptoFrames_law:
  "\<forall>f \<in> set crypto. crypto_ok f \<Longrightarrow> \<forall>f \<in> set others. Frame_wf f \<and> \<not> is_crypto f \<Longrightarrow> 0 \<le> room \<Longrightarrow> room < 16384 \<Longrightarrow>
   \<exists>crypto' others' fs. takeCryptoFrames crypto others room frames len
       = Ok (crypto', others', frames @ fs, len + sum_list (map frame_size fs))
     \<and> drained crypto others room crypto' others' fs"
proof (induction "length (crypto_bytes crypto) + length crypto + length others" arbitrary: crypto others room frames len rule: less_induct)
  case less
  note un = takeCryptoFrames.simps [of crypto others room frames len]
  show ?case
  proof (rule getFrame_law [OF less.prems])
    assume "getFrame crypto others room = Ok (crypto, others, None)"
    then show ?thesis
      using less.prems(3) by (intro exI [of _ crypto] exI [of _ others] exI [of _ "[]"]) (simp add: un drained_def)
  next
    fix f crypto1 others1 l
    assume g: "getFrame crypto others room = Ok (crypto1, others1, Some f)" "Frame_Length f = Ok l" "0 \<le> l" "l \<le> room"
      "\<forall>f \<in> set crypto1. crypto_ok f" "\<forall>f \<in> set others1. Frame_wf f \<and> \<not> is_crypto f"
      "crypto_bytes (crypto_of [f] @ crypto1) = crypto_bytes crypto" "filter (\<lambda>f. \<not> is_crypto f) [f] @ others1 = others"
      "length (crypto_bytes crypto1) + length crypto1 + length others1 < length (crypto_bytes crypto) + length crypto + length others"
    have room: "0 \<le> room - l" "room - l < 16384" and fs: "frame_size f = l"
      using g less.prems by (simp_all add: frame_size_def)
    obtain crypto' others' fs where r: "takeCryptoFrames crypto1 others1 (room - l) (frames @ [f]) (len + l)
        = Ok (crypto', others', (frames @ [f]) @ fs, len + l + sum_list (map frame_size fs))"
      "drained crypto1 others1 (room - l) crypto' others' fs"
      using less.hyps [OF g(9,5,6) room, of "frames @ [f]" "len + l"] by blast
    have "drained crypto others room crypto' others' (f # fs)"
      using r(2) g(2,7) fs unfolding drained_def g(8) [symmetric]
      using crypto_of_append [of "[f]" fs] by (simp add: crypto_bytes_append algebra_simps)
    then show ?thesis
      using r(1) g(1,2) fs by (intro exI [of _ crypto'] exI [of _ others'] exI [of _ "f # fs"]) (simp add: un)
  qed
qed

lemma takeAppFrames_law:
  "\<forall>f \<in> set (rtq_appData q). Frame_wf f \<Longrightarrow>
   \<exists>fs rest. takeAppFrames q minSize room frames len
       = Ok (q\<lparr>rtq_appData := rest\<rparr>, frames @ fs, len + sum_list (map frame_size fs))
     \<and> rtq_appData q = fs @ rest \<and> (\<forall>f \<in> set fs. Frame_Length f = Ok (frame_size f))
     \<and> (room \<ge> 0 \<longrightarrow> sum_list (map frame_size fs) \<le> room)
     \<and> (rest = [] \<or> room - sum_list (map frame_size fs) < minSize \<or> room - sum_list (map frame_size fs) < frame_size (hd rest))"
proof (induction "rtq_appData q" arbitrary: q room frames len)
  case Nil
  then show ?case
    by (intro exI [of _ "[]"]) (simp add: takeAppFrames.simps [of q] GetAppDataFrame_def)
next
  case (Cons f fs0)
  let ?q = "q\<lparr>rtq_appData := fs0\<rparr>"
  have q: "rtq_appData q = f # fs0"
    using Cons.hyps(2) by simp
  then have l: "Frame_Length f = Ok (frame_size f)" "0 \<le> frame_size f"
    using Cons.prems Frame_Length_enc [of f] by (simp_all add: frame_size_def)
  show ?case
  proof (cases "room < minSize \<or> room < frame_size f")
    case True
    then show ?thesis
      using l q by (intro exI [of _ "[]"] exI [of _ "f # fs0"]) (auto simp: takeAppFrames.simps [of q] GetAppDataFrame_def)
  next
    case False
    obtain fs rest where r: "takeAppFrames ?q minSize (room - frame_size f) (frames @ [f]) (len + frame_size f)
        = Ok (?q\<lparr>rtq_appData := rest\<rparr>, (frames @ [f]) @ fs, len + frame_size f + sum_list (map frame_size fs))"
      "rtq_appData ?q = fs @ rest" "\<forall>f \<in> set fs. Frame_Length f = Ok (frame_size f)"
      "room - frame_size f \<ge> 0 \<longrightarrow> sum_list (map frame_size fs) \<le> room - frame_size f"
      "rest = [] \<or> room - frame_size f - sum_list (map frame_size fs) < minSize \<or> room - frame_size f - sum_list (map frame_size fs) < frame_size (hd rest)"
      using Cons.hyps(1) [of ?q "room - frame_size f" "frames @ [f]" "len + frame_size f"] Cons.prems q by auto
    have "takeAppFrames q minSize room frames len = takeAppFrames ?q minSize (room - frame_size f) (frames @ [f]) (len + frame_size f)"
      using False l q by (simp add: takeAppFrames.simps [of q minSize room] GetAppDataFrame_def)
    then show ?thesis
      using r l q False by (intro exI [of _ "f # fs"] exI [of _ rest]) (auto simp: algebra_simps)
  qed
qed



end
