(* ===== verification/Framer.thy ===== *)
theory Framer
  imports RingBuffer SendRuns RetransmissionQueue
begin

text \<open>
  The framer (\<^verbatim>\<open>src/framer.go\<close>), which collects the control frames and the streams that have data, and
  fills packets from them. The streams a stream getter returns are a map from stream IDs to
  send streams; the calls a stream makes while a frame is taken (the \<^verbatim>\<open>streamSender\<close> of
  \<^verbatim>\<open>src/stream.go\<close>, implemented in \<^verbatim>\<open>src/connection.go\<close>) go to the same framer.
\<close>

section \<open>State\<close>

type_synonym ackhandler_Frame = "Frame \<times> frameHandler"

type_synonym sendStreams = "StreamID \<Rightarrow> sendStream option"

definition maxPathResponses :: nat where
  "maxPathResponses = 256"

definition maxControlFrames :: nat where
  "maxControlFrames = 16 * 1024"

text \<open>
  \<^verbatim>\<open>controlFrameMutex\<close> is part of the state because one method can return without unlocking it.
\<close>

record framerI =
  fr_activeStreams :: "StreamID set"
  fr_streamQueue :: "StreamID RingBuffer"
  fr_controlFrameMutex :: bool
  fr_controlFrames :: "Frame list"
  fr_pathResponses :: "PathResponseFrame list"
  fr_queuedTooManyControlFrames :: bool

definition newFramer :: framerI where
  "newFramer = \<lparr>fr_activeStreams = {}, fr_streamQueue = newRingBuffer, fr_controlFrameMutex = False,
     fr_controlFrames = [], fr_pathResponses = [], fr_queuedTooManyControlFrames = False\<rparr>"

section \<open>Operations\<close>

definition framer_HasData :: "framerI \<Rightarrow> bool" where
  "framer_HasData f \<longleftrightarrow>
     (if \<not> RingBuffer_Empty (fr_streamQueue f) then True
      else length (fr_controlFrames f) > 0 \<or> length (fr_pathResponses f) > 0)"

definition framer_QueueControlFrame :: "framerI \<Rightarrow> Frame \<Rightarrow> framerI" where
  "framer_QueueControlFrame f frame =
     (case frame of
        FPathResponse pr \<Rightarrow>
          if length (fr_pathResponses f) \<ge> maxPathResponses then f
          else f\<lparr>fr_pathResponses := fr_pathResponses f @ [pr]\<rparr>
      | _ \<Rightarrow>
          if length (fr_controlFrames f) \<ge> maxControlFrames then f\<lparr>fr_queuedTooManyControlFrames := True\<rparr>
          else f\<lparr>fr_controlFrames := fr_controlFrames f @ [frame]\<rparr>)"

text \<open>The loop of \<^verbatim>\<open>AppendControlFrames\<close>, over the queue from its end.\<close>

fun takeControlFrames ::
  "ByteCount \<Rightarrow> Frame list \<Rightarrow> ackhandler_Frame list \<Rightarrow> ByteCount \<Rightarrow> (Frame list \<times> ackhandler_Frame list \<times> ByteCount) outcome" where
  "takeControlFrames maxLen [] frames len = Ok ([], frames, len)"
| "takeControlFrames maxLen (frame # rest) frames len =
     bindr (Frame_Length frame) (\<lambda>frameLen.
     if len + frameLen > maxLen then Ok (frame # rest, frames, len)
     else takeControlFrames maxLen rest (frames @ [(frame, NoHandler)]) (len + frameLen))"

text \<open>At most one PATH_RESPONSE goes into a packet.\<close>

definition takePathResponse ::
  "framerI \<Rightarrow> ackhandler_Frame list \<Rightarrow> ByteCount \<Rightarrow> (framerI \<times> ackhandler_Frame list \<times> ByteCount) outcome" where
  "takePathResponse f frames maxLen =
     (case fr_pathResponses f of
        [] \<Rightarrow> Ok (f, frames, 0)
      | frame # rest \<Rightarrow>
          bindr (Frame_Length (FPathResponse frame)) (\<lambda>frameLen.
          if frameLen \<le> maxLen
          then Ok (f\<lparr>fr_pathResponses := rest\<rparr>, frames @ [(FPathResponse frame, NoHandler)], frameLen)
          else Ok (f, frames, 0)))"

definition AppendControlFrames ::
  "framerI \<Rightarrow> ackhandler_Frame list \<Rightarrow> ByteCount \<Rightarrow> (framerI \<times> ackhandler_Frame list \<times> ByteCount) outcome" where
  "AppendControlFrames f frames maxLen =
     bindr (takePathResponse f frames maxLen) (\<lambda>(f, frames, len).
     bindr (takeControlFrames maxLen (rev (fr_controlFrames f)) frames len) (\<lambda>(rest, frames, len).
     Ok (f\<lparr>fr_controlFrames := rev rest\<rparr>, frames, len)))"

definition AddActiveStream :: "framerI \<Rightarrow> StreamID \<Rightarrow> framerI outcome" where
  "AddActiveStream f sid =
     (if sid \<in> fr_activeStreams f then Ok f
      else bindr (RingBuffer_PushBack 0 (fr_streamQueue f) sid) (\<lambda>q.
           Ok (f\<lparr>fr_streamQueue := q, fr_activeStreams := insert sid (fr_activeStreams f)\<rparr>)))"

text \<open>
  What the connection does with the calls of a stream while the framer takes a frame from
  it: control frames are queued. Taking a frame makes no other calls.
\<close>

fun deliverCalls :: "framerI \<Rightarrow> senderCall list \<Rightarrow> framerI" where
  "deliverCalls f [] = f"
| "deliverCalls f (QueueControlFrame frame # cs) = deliverCalls (framer_QueueControlFrame f frame) cs"
| "deliverCalls f (_ # cs) = deliverCalls f cs"

text \<open>
  The loop of \<^verbatim>\<open>AppendStreamFrames\<close> over the streams that were active when it was called. The
  frames go with the ack handlers of their streams.
\<close>

fun streamFrames_loop ::
  "nat \<Rightarrow> framerI \<Rightarrow> sendStreams \<Rightarrow> connectionFlowController \<Rightarrow> ByteCount \<Rightarrow> StreamFrame list \<Rightarrow> ByteCount
   \<Rightarrow> (framerI \<times> sendStreams \<times> connectionFlowController \<times> StreamFrame list \<times> ByteCount) outcome" where
  "streamFrames_loop 0 f streams conn maxLen frames len = Ok (f, streams, conn, frames, len)"
| "streamFrames_loop (Suc n) f streams conn maxLen frames len =
     (if MinStreamFrameSize + len > maxLen then Ok (f, streams, conn, frames, len)
      else
        bindr (RingBuffer_PopFront 0 (fr_streamQueue f)) (\<lambda>(sid, q).
        let f = f\<lparr>fr_streamQueue := q\<rparr> in
        case streams sid of
          None \<Rightarrow> streamFrames_loop n (f\<lparr>fr_activeStreams := fr_activeStreams f - {sid}\<rparr>) streams conn maxLen frames len
        | Some str \<Rightarrow>
            let remainingLen = maxLen - len in
            bindr (quicvarint_Len (to_u64 remainingLen)) (\<lambda>vl.
            bindr (popStreamFrame str conn (remainingLen + vl)) (\<lambda>(str', conn, frame, hasMoreData).
            let f = deliverCalls f (drop (length (ss_sender str)) (ss_sender str'));
                streams = streams(sid := Some str') in
            bindr (if hasMoreData
                   then bindr (RingBuffer_PushBack 0 (fr_streamQueue f) sid) (\<lambda>q. Ok (f\<lparr>fr_streamQueue := q\<rparr>))
                   else Ok (f\<lparr>fr_activeStreams := fr_activeStreams f - {sid}\<rparr>)) (\<lambda>f.
            case frame of
              None \<Rightarrow> streamFrames_loop n f streams conn maxLen frames len
            | Some frame \<Rightarrow>
                bindr (StreamFrame_Length frame) (\<lambda>l.
                streamFrames_loop n f streams conn maxLen (frames @ [frame]) (len + l)))))))"

definition AppendStreamFrames ::
  "framerI \<Rightarrow> sendStreams \<Rightarrow> connectionFlowController \<Rightarrow> StreamFrame list \<Rightarrow> ByteCount
   \<Rightarrow> (framerI \<times> sendStreams \<times> connectionFlowController \<times> StreamFrame list \<times> ByteCount) outcome" where
  "AppendStreamFrames f streams conn frames maxLen =
     bindr (streamFrames_loop (nat (RingBuffer_Len (fr_streamQueue f))) f streams conn maxLen frames 0)
       (\<lambda>(f, streams, conn, fs, len).
     if length fs > length frames then
       bindr (StreamFrame_Length (last fs)) (\<lambda>l.
       let f' = (last fs)\<lparr>sf_DataLenPresent := False\<rparr> in
       bindr (StreamFrame_Length f') (\<lambda>l'.
       Ok (f, streams, conn, butlast fs @ [f'], len + (l' - l))))
     else Ok (f, streams, conn, fs, len))"

text \<open>The loop of \<^verbatim>\<open>Handle0RTTRejection\<close>; \<^const>\<open>None\<close> when an update frame was queued.\<close>

fun keepControlFrames :: "Frame list \<Rightarrow> Frame list option" where
  "keepControlFrames [] = Some []"
| "keepControlFrames (frame # frames) =
     (case frame of
        FMaxData _ \<Rightarrow> None
      | FMaxStreamData _ \<Rightarrow> None
      | FMaxStreams _ \<Rightarrow> None
      | FDataBlocked _ \<Rightarrow> keepControlFrames frames
      | FStreamDataBlocked _ \<Rightarrow> keepControlFrames frames
      | FStreamsBlocked _ \<Rightarrow> keepControlFrames frames
      | _ \<Rightarrow> map_option ((#) frame) (keepControlFrames frames))"

text \<open>
  On the error path \<^verbatim>\<open>controlFrameMutex\<close> stays locked. The frames that were already moved to the
  front of the slice are then not modelled: nobody can take the mutex to read them.
\<close>

definition Handle0RTTRejection :: "framerI \<Rightarrow> framerI \<times> unit outcome" where
  "Handle0RTTRejection f =
     (let f = f\<lparr>fr_controlFrameMutex := True, fr_streamQueue := RingBuffer_Clear 0 (fr_streamQueue f), fr_activeStreams := {}\<rparr>
      in case keepControlFrames (fr_controlFrames f) of
           None \<Rightarrow> (f, Err (ErrorString ''didn't expect MAX_DATA / MAX_STREAM_DATA / MAX_STREAMS frame to be sent in 0-RTT''))
         | Some kept \<Rightarrow> (f\<lparr>fr_controlFrames := kept, fr_controlFrameMutex := False\<rparr>, Ok ()))"

end
