(* ===== verification/FramerLaws.thy ===== *)
theory FramerLaws
  imports Framer
begin

text \<open>
  Laws of the framer (\<^verbatim>\<open>src/framer.go\<close>): the queue of active streams is kept in order, and the frames
  it puts into a packet fit and are taken from the runs of their streams.
\<close>

section \<open>Frames carry a length field until the framer removes it\<close>

definition len_fields :: "sendStream \<Rightarrow> bool" where
  "len_fields s \<longleftrightarrow> (\<forall>f \<in> set (ss_retransmissionQueue s). sf_DataLenPresent f)"

lemma Write_pass_queue:
  "Write_pass s now p nf = (s', nf', res) \<Longrightarrow> ss_retransmissionQueue s' = ss_retransmissionQueue s"
  by (auto simp: Write_pass_def Let_def callSender_def split: if_splits option.splits)

lemma Write_start_queue:
  "Write_start s now p = (s', res) \<Longrightarrow> ss_retransmissionQueue s' = ss_retransmissionQueue s"
  by (auto simp: Write_start_def split: if_splits)

lemma retransmission_len_field:
  assumes "maybeGetRetransmission s m = Ok (s', fo, hm)" "len_fields s"
  shows "len_fields s' \<and> ss_nextFrame s' = ss_nextFrame s \<and> ss_streamID s' = ss_streamID s \<and> (\<forall>f. fo = Some f \<longrightarrow> sf_DataLenPresent f)"
proof (cases "ss_retransmissionQueue s")
  case Nil
  then show ?thesis
    using assms by (simp add: maybeGetRetransmission_def)
next
  case (Cons f0 fs)
  then obtain new needed f1 where sp: "StreamFrame_MaybeSplitOffFrame f0 m = Ok (new, needed, f1)"
    using assms(1) by (cases "StreamFrame_MaybeSplitOffFrame f0 m") (auto simp: maybeGetRetransmission_def)
  then have "sf_DataLenPresent f1 = sf_DataLenPresent f0" "\<forall>g. new = Some g \<longrightarrow> sf_DataLenPresent g = sf_DataLenPresent f0"
    by (auto simp: StreamFrame_MaybeSplitOffFrame_def Let_def bindr_eq_Ok_iff split: if_splits)
  then show ?thesis
    using assms sp Cons by (auto simp: maybeGetRetransmission_def len_fields_def split: if_splits)
qed

lemma getDataForWriting_keeps:
  "getDataForWriting s f k = Ok (s', f') \<Longrightarrow>
     ss_retransmissionQueue s' = ss_retransmissionQueue s \<and> sf_DataLenPresent f' = sf_DataLenPresent f"
  by (auto simp: getDataForWriting_def Let_def signalWrite_def split: if_splits)

lemma withoutBuffer_keeps:
  assumes "popNewStreamFrameWithoutBuffer s f m w = Ok (s', f', hm)"
  shows "ss_retransmissionQueue s' = ss_retransmissionQueue s \<and> sf_DataLenPresent f' = sf_DataLenPresent f"
proof -
  obtain k where "(if k = 0 then Ok (s, f) else getDataForWriting s f (min k w)) = Ok (s', f')"
    using assms unfolding popNewStreamFrameWithoutBuffer_def bindr_eq_Ok_iff by auto
  then show ?thesis
    using getDataForWriting_keeps [of s f "min k w" s' f'] by (auto split: if_splits)
qed

lemma new_len_field:
  assumes "popNewStreamFrame s m w = Ok (s', fo, hm)" "next_at off s"
  shows "ss_retransmissionQueue s' = ss_retransmissionQueue s \<and> (\<forall>f. fo = Some f \<longrightarrow> sf_DataLenPresent f)"
proof (cases "ss_nextFrame s")
  case None
  let ?f = "GetStreamFrame\<lparr>sf_Fin := False, sf_StreamID := ss_streamID s, sf_Offset := ss_writeOffset s, sf_DataLenPresent := True, sf_Data := []\<rparr>"
  show ?thesis
  proof (cases "popNewStreamFrameWithoutBuffer s ?f m w")
    case (Ok x)
    then show ?thesis
      using assms None withoutBuffer_keeps [of s ?f m w] by (cases x) (auto simp: popNewStreamFrame_def split: if_splits)
  qed (use assms None in \<open>simp_all add: popNewStreamFrame_def\<close>)
next
  case (Some f)
  then have "sf_DataLenPresent f"
    using assms(2) by (simp add: next_at_def)
  then show ?thesis
    using assms(1) Some by (cases "StreamFrame_MaxDataLen f m") (simp_all add: popNewStreamFrame_def signalWrite_def Let_def split: if_splits, auto)
qed

lemma popNewData_len_field:
  assumes "popNewData s conn m = Ok (s', conn', fo, hm)" "next_at off s"
  shows "ss_retransmissionQueue s' = ss_retransmissionQueue s \<and> (\<forall>f. fo = Some f \<longrightarrow> sf_DataLenPresent f)"
proof (cases "popNewStreamFrame s m (stream_SendWindowSize (ss_flowController s) conn)")
  case (Ok x)
  then show ?thesis
    using assms new_len_field [OF _ assms(2), of m "stream_SendWindowSize (ss_flowController s) conn"]
    by (cases x) (auto simp: popNewData_def Let_def callSender_def stream_AddBytesSent_def split: if_splits option.splits prod.splits)
qed (use assms in \<open>auto simp: popNewData_def Let_def callSender_def split: if_splits option.splits prod.splits\<close>)

lemma pop_len_field:
  assumes p: "popStreamFrame s conn m = Ok (s', conn', fo, hm)" and l: "len_fields s" and n: "next_at off s"
  shows "len_fields s' \<and> (\<forall>f. fo = Some f \<longrightarrow> sf_DataLenPresent f)"
proof -
  obtain s1 conn1 f1 hm1 where p1: "popNewOrRetransmittedStreamFrame s conn m = Ok (s1, conn1, f1, hm1)"
    using p by (cases "popNewOrRetransmittedStreamFrame s conn m") (auto simp: popStreamFrame_def)
  have "len_fields s1 \<and> (\<forall>f. f1 = Some f \<longrightarrow> sf_DataLenPresent f)"
  proof (cases "length (ss_retransmissionQueue s) > 0")
    case True
    show ?thesis
    proof (cases "maybeGetRetransmission s m")
      case (Ok x)
      then obtain s2 f2 hm2 where r: "maybeGetRetransmission s m = Ok (s2, f2, hm2)"
        by (cases x) auto
      note rl = retransmission_len_field [OF r l]
      have "next_at off s2"
        using rl n by (simp add: next_at_def cong: option.case_cong)
      then show ?thesis
        using p1 r True rl l popNewData_len_field [of s2 conn m s1 conn1 f1 hm1 off]
        by (auto simp: popNewOrRetransmittedStreamFrame_def len_fields_def split: if_splits)
    qed (use p1 True l in \<open>auto simp: popNewOrRetransmittedStreamFrame_def split: if_splits\<close>)
  next
    case False
    then show ?thesis
      using p1 l popNewData_len_field [of s conn m s1 conn1 f1 hm1 off] n
      by (auto simp: popNewOrRetransmittedStreamFrame_def len_fields_def split: if_splits)
  qed
  then show ?thesis
    using p p1 by (cases f1) (auto simp: popStreamFrame_def len_fields_def)
qed

lemma send_step_len_fields:
  assumes "send_step r r'" "send_inv sid r snt" "len_fields (sr_stream r)"
  shows "len_fields (sr_stream r')"
  using assms
proof (induction rule: send_step.induct)
  case (begin_write r now p s1 s2 nf res)
  then show ?case
    using Write_start_queue [OF begin_write.hyps(2)] Write_pass_queue [OF begin_write.hyps(3)]
    by (simp add: len_fields_def after_write_def split: option.split prod.split)
next
  case (resume_write r p nf s1 now s2 nf' res)
  then show ?case
    using Write_pass_queue [OF resume_write.hyps(3)] by (auto simp: len_fields_def after_write_def split: option.split prod.split)
next
  case (take_frame maxBytes r conn s' conn' fo hasMore)
  have "next_at (int (length snt)) (sr_stream r)"
    using take_frame.prems(1) by (simp add: send_inv_def data_inv_def)
  then show ?case
    using pop_len_field [OF take_frame.hyps(3) take_frame.prems(2)] by (simp split: option.split)
next
  case (ack_frame f r b s')
  then show ?case
    by (auto simp: sendStream_OnAcked_def isNewlyCompleted_def callSender_def len_fields_def Let_def split: if_splits)
next
  case (lose_frame f r b s')
  then show ?case
    by (auto simp: sendStream_OnLost_def callSender_def len_fields_def Let_def split: if_splits)
next
  case (cancel r errorCode remote)
  then show ?case
    by (auto simp: cancelWriteImpl_def isNewlyCompleted_def callSender_def len_fields_def Let_def ctxCancel_def signalWrite_def)
qed (auto simp: len_fields_def sendStream_Close_def updateSendWindow_def SetWriteDeadline_def sendStream_closeForShutdown_def
    callSender_def ctxCancel_def signalWrite_def Let_def split: prod.split)

section \<open>Streams in use\<close>

text \<open>
  A stream that was reached by its methods, the streams of a connection, and streams that
  were only used to take the frames \<open>fs\<close>.
\<close>

definition good_run :: "StreamID \<Rightarrow> send_run \<Rightarrow> bool" where
  "good_run sid r \<longleftrightarrow> (\<exists>fc fec. send_step\<^sup>*\<^sup>* (send_init sid fc fec) r \<and> fits_i sid \<and> fc_bytesSent fc = 0
     \<and> 0 \<le> fc_sendWindow fc \<and> fc_sendWindow fc \<le> MaxByteCount)"

definition good_runs :: "(StreamID \<Rightarrow> send_run option) \<Rightarrow> bool" where
  "good_runs runs \<longleftrightarrow> (\<forall>sid r. runs sid = Some r \<longrightarrow> good_run sid r)"

definition streams_of :: "(StreamID \<Rightarrow> send_run option) \<Rightarrow> sendStreams" where
  "streams_of runs = (\<lambda>sid. map_option sr_stream (runs sid))"

definition taken :: "(StreamID \<Rightarrow> send_run option) \<Rightarrow> StreamFrame list \<Rightarrow> (StreamID \<Rightarrow> send_run option) \<Rightarrow> bool" where
  "taken runs fs runs' \<longleftrightarrow> (\<forall>sid. case runs sid of None \<Rightarrow> runs' sid = None
     | Some r \<Rightarrow> \<exists>r'. runs' sid = Some r' \<and> send_step\<^sup>*\<^sup>* r r' \<and> sr_content r' = sr_content r \<and> sr_call r' = sr_call r
         \<and> sr_sent r' = sr_sent r @ filter (\<lambda>f. sf_StreamID f = sid) fs)"

lemma good_run_inv:
  assumes "good_run sid r"
  shows "\<exists>snt. send_inv sid r snt \<and> len_fields (sr_stream r)"
proof -
  obtain fc fec where run: "send_step\<^sup>*\<^sup>* (send_init sid fc fec) r"
    and fc: "fits_i sid" "fc_bytesSent fc = 0" "0 \<le> fc_sendWindow fc" "fc_sendWindow fc \<le> MaxByteCount"
    using assms by (auto simp: good_run_def)
  show ?thesis
    using run
  proof (induction rule: rtranclp_induct)
    case base
    then show ?case
      using send_inv_init [OF fc] by (auto simp: len_fields_def send_init_def newSendStreamWithFEC_def)
  next
    case (step r r')
    then show ?case
      using send_step_inv send_step_len_fields by blast
  qed
qed

lemma good_run_step: "good_run sid r \<Longrightarrow> send_step r r' \<Longrightarrow> good_run sid r'"
  unfolding good_run_def by (meson rtranclp.rtrancl_into_rtrancl)

lemma taken_none: "taken runs [] runs"
  by (simp add: taken_def split: option.split)

text \<open>Taking one frame from a stream.\<close>

definition took :: "send_run \<Rightarrow> sendStream \<Rightarrow> StreamFrame option \<Rightarrow> send_run" where
  "took r s' fo = (case fo of None \<Rightarrow> r\<lparr>sr_stream := s'\<rparr>
     | Some f \<Rightarrow> r\<lparr>sr_stream := s', sr_sent := sr_sent r @ [f], sr_out := add_mset f (sr_out r)\<rparr>)"

lemma take_law:
  assumes g: "good_run sid r" and m: "MinStreamFrameSize \<le> maxBytes" "maxBytes \<le> int MaxPacketBufferSize"
  obtains s' conn' fo hm where "popStreamFrame (sr_stream r) conn maxBytes = Ok (s', conn', fo, hm)"
    "send_step r (took r s' fo)"
    "\<And>f. fo = Some f \<Longrightarrow> sf_StreamID f = sid \<and> sf_DataLenPresent f \<and> StreamFrame_wf f \<and> (\<exists>l. StreamFrame_Length f = Ok l \<and> l \<le> maxBytes)"
proof -
  obtain snt where inv: "send_inv sid r snt" "len_fields (sr_stream r)"
    using good_run_inv [OF g] by blast
  obtain s' conn' fo hm where p: "popStreamFrame (sr_stream r) conn maxBytes = Ok (s', conn', fo, hm)"
    "\<forall>f. fo = Some f \<longrightarrow> (\<exists>l. StreamFrame_Length f = Ok l \<and> l \<le> maxBytes)"
    using popStreamFrame_fits [OF inv(1) m] by blast
  have st: "send_step r (took r s' fo)"
    using send_step.take_frame [OF m p(1)] by (simp add: took_def)
  then obtain snt' where inv': "send_inv sid (took r s' fo) snt'"
    using send_step_inv inv(1) by blast
  have "next_at (int (length snt)) (sr_stream r)"
    using inv(1) by (simp add: send_inv_def data_inv_def)
  note lf = pop_len_field [OF p(1) inv(2) this]
  have i: "fits_i sid" "int (length snt') \<le> MaxByteCount"
    using inv' by (auto simp: send_inv_def data_inv_def)
  have "sf_StreamID f = sid \<and> StreamFrame_wf f" if "fo = Some f" for f
  proof -
    have "f \<in> set (sr_sent (took r s' fo))"
      using that by (simp add: took_def)
    then have "frame_of sid snt' (ss_finSent (sr_stream (took r s' fo))) f"
      using inv' by (simp add: send_inv_def)
    then show ?thesis
      using frame_of_wf i by (auto simp: frame_of_def)
  qed
  then show ?thesis
    using that [OF p(1) st] p(2) lf by blast
qed

text \<open>
  Without its length field a frame that was taken for the room of the packet and the length
  field fits into the room.
\<close>

lemma without_len_field:
  assumes wf: "StreamFrame_wf f" and d: "sf_DataLenPresent f" and l: "StreamFrame_Length f = Ok l" "l \<le> room + 2" "128 \<le> room"
  shows "\<exists>l'. StreamFrame_Length (f\<lparr>sf_DataLenPresent := False\<rparr>) = Ok l' \<and> 0 < l' \<and> l' \<le> room \<and> l - 2 \<le> l' \<and> l' < l"
proof -
  have wf': "StreamFrame_wf (f\<lparr>sf_DataLenPresent := False\<rparr>)" and n: "length (sf_Data f) \<le> MaxPacketBufferSize"
    using wf by (simp_all add: StreamFrame_wf_def)
  have h: "StreamFrame_header (f\<lparr>sf_DataLenPresent := False\<rparr>) = StreamFrame_header f" "0 < StreamFrame_header f" "StreamFrame_header f \<le> 17"
    using header_bound [of f] by (simp_all add: StreamFrame_header_def)
  have v: "length (varint (len64 (sf_Data f))) = (if length (sf_Data f) < 64 then 1 else 2)"
    using length_varint_bounds [of "int (length (sf_Data f))"] n by (auto simp: len64_def MaxPacketBufferSize_def fits_i_def)
  show ?thesis
    using StreamFrame_Length_header [OF wf] StreamFrame_Length_header [OF wf'] h v d l by (auto split: if_splits)
qed

lemma varint_room: "128 \<le> room \<Longrightarrow> room \<le> 1450 \<Longrightarrow> quicvarint_Len (to_u64 room) = Ok 2"
  using length_varint_bounds(2) [of room] fits_u_to_u64 [of room] by (simp add: fits_i_def fits_u_def)

section \<open>The invariant of the framer\<close>

definition framer_inv :: "framerI \<Rightarrow> bool" where
  "framer_inv f \<longleftrightarrow> RingBuffer_inv (fr_streamQueue f) \<and> distinct (RingBuffer_list (fr_streamQueue f))
     \<and> fr_activeStreams f = set (RingBuffer_list (fr_streamQueue f))"

definition active :: "framerI \<Rightarrow> StreamID list" where
  "active f = RingBuffer_list (fr_streamQueue f)"

lemma QueueControlFrame_keeps [simp]:
  "fr_streamQueue (framer_QueueControlFrame f frame) = fr_streamQueue f"
  "fr_activeStreams (framer_QueueControlFrame f frame) = fr_activeStreams f"
  by (cases frame; simp add: framer_QueueControlFrame_def)+

lemma deliverCalls_keeps [simp]:
  "fr_streamQueue (deliverCalls f cs) = fr_streamQueue f" "fr_activeStreams (deliverCalls f cs) = fr_activeStreams f"
  by (induction f cs rule: deliverCalls.induct) auto

lemma AddActiveStream_law:
  assumes "framer_inv f"
  shows "\<exists>f'. AddActiveStream f sid = Ok f' \<and> framer_inv f' \<and> active f' = (if sid \<in> set (active f) then active f else active f @ [sid])"
proof (cases "sid \<in> fr_activeStreams f")
  case True
  then show ?thesis
    using assms by (simp add: AddActiveStream_def framer_inv_def active_def)
next
  case False
  obtain q' where "RingBuffer_PushBack 0 (fr_streamQueue f) sid = Ok q'" "RingBuffer_inv q'"
      "RingBuffer_list q' = RingBuffer_list (fr_streamQueue f) @ [sid]"
    using assms ring.push_law [of "fr_streamQueue f" 0 sid] by (auto simp: framer_inv_def)
  then show ?thesis
    using False assms by (simp add: AddActiveStream_def framer_inv_def active_def)
qed

text \<open>
  The queue after the first \<open>k\<close> streams were visited: those that still have data are at its end.
\<close>

definition visited :: "StreamID list \<Rightarrow> nat \<Rightarrow> StreamID list \<Rightarrow> bool" where
  "visited q k q' \<longleftrightarrow> k \<le> length q \<and> (\<exists>keep. q' = drop k q @ filter keep (take k q))"

lemma visited_Cons:
  assumes v: "visited (q @ e) k q'" and k: "k \<le> length q" and e: "e = [] \<or> e = [x]" and x: "x \<notin> set q"
  shows "visited (x # q) (Suc k) q'"
proof -
  obtain keep where q': "q' = drop k q @ e @ filter keep (take k q)"
    using v k by (auto simp: visited_def)
  define keep' where "keep' = (\<lambda>y. if y = x then e = [x] else keep y)"
  have "filter keep (take k q) = filter keep' (take k q)"
    using x by (intro filter_cong) (auto simp: keep'_def dest: in_set_takeD)
  moreover have "filter keep' (take (Suc k) (x # q)) = e @ filter keep' (take k q)"
    using e by (auto simp: keep'_def)
  ultimately show ?thesis
    using k by (auto simp: visited_def q' intro!: exI [of _ keep'])
qed

section \<open>Filling a packet with STREAM frames\<close>

definition stream_size :: "StreamFrame \<Rightarrow> int" where
  "stream_size f = frame_size (FStream f)"

lemma stream_size_Ok: "StreamFrame_Length f = Ok l \<Longrightarrow> stream_size f = l"
  by (simp add: stream_size_def frame_size_def)

text \<open>
  The frames collected by the loop: each with its length field, and all but the last one
  leave room for another.
\<close>

definition packed :: "ByteCount \<Rightarrow> ByteCount \<Rightarrow> StreamFrame list \<Rightarrow> ByteCount \<Rightarrow> bool" where
  "packed maxLen len fs len' \<longleftrightarrow> (\<forall>f \<in> set fs. StreamFrame_wf f \<and> sf_DataLenPresent f \<and> StreamFrame_Length f = Ok (stream_size f))
     \<and> len' = len + sum_list (map stream_size fs)
     \<and> (fs \<noteq> [] \<longrightarrow> len' - stream_size (last fs) + MinStreamFrameSize \<le> maxLen \<and> len' \<le> maxLen + 2)"

lemma packed_Nil [simp]: "packed maxLen len [] len' \<longleftrightarrow> len' = len"
  by (auto simp: packed_def)

lemma packed_Cons:
  assumes "packed maxLen (len + l) fs len'" "StreamFrame_wf f" "sf_DataLenPresent f" "StreamFrame_Length f = Ok l"
    "MinStreamFrameSize + len \<le> maxLen" "l \<le> maxLen - len + 2"
  shows "packed maxLen len (f # fs) len'"
  using assms stream_size_Ok [OF assms(4)] by (auto simp: packed_def)

lemma taken_trans:
  assumes 1: "taken runs fs1 runs1" and 2: "taken runs1 fs2 runs2"
  shows "taken runs (fs1 @ fs2) runs2"
  unfolding taken_def
proof
  fix sid
  note 1 [unfolded taken_def, THEN spec, of sid] 2 [unfolded taken_def, THEN spec, of sid]
  then show "case runs sid of None \<Rightarrow> runs2 sid = None
     | Some r \<Rightarrow> \<exists>r'. runs2 sid = Some r' \<and> send_step\<^sup>*\<^sup>* r r' \<and> sr_content r' = sr_content r \<and> sr_call r' = sr_call r
         \<and> sr_sent r' = sr_sent r @ filter (\<lambda>f. sf_StreamID f = sid) (fs1 @ fs2)"
    by (cases "runs sid") (auto intro: rtranclp_trans)
qed

lemma taken_one:
  assumes "runs sid = Some r" "send_step r (took r s' fo)" "\<And>f. fo = Some f \<Longrightarrow> sf_StreamID f = sid"
  shows "taken runs (case fo of None \<Rightarrow> [] | Some f \<Rightarrow> [f]) (runs(sid \<mapsto> took r s' fo))"
  using assms by (auto simp: taken_def took_def split: option.split)

lemma streams_of_took: "streams_of (runs(sid \<mapsto> took r s' fo)) = (streams_of runs)(sid \<mapsto> s')"
  by (auto simp: streams_of_def took_def split: option.split)

definition loop_result ::
  "nat \<Rightarrow> framerI \<Rightarrow> (StreamID \<Rightarrow> send_run option) \<Rightarrow> ByteCount \<Rightarrow> ByteCount \<Rightarrow> framerI \<Rightarrow> (StreamID \<Rightarrow> send_run option)
   \<Rightarrow> StreamFrame list \<Rightarrow> ByteCount \<Rightarrow> bool" where
  "loop_result n f runs maxLen len f' runs' fs len' \<longleftrightarrow> framer_inv f' \<and> good_runs runs' \<and> taken runs fs runs' \<and> packed maxLen len fs len'
     \<and> (\<exists>k \<le> n. visited (active f) k (active f') \<and> (k = n \<or> maxLen < len' + MinStreamFrameSize))"

lemma loop_result_stop:
  "framer_inv f \<Longrightarrow> good_runs runs \<Longrightarrow> n = 0 \<or> maxLen < len + MinStreamFrameSize \<Longrightarrow> loop_result n f runs maxLen len f runs [] len"
  by (auto simp: loop_result_def taken_none visited_def)

lemma loop_result_step:
  assumes r: "loop_result n f1 runs1 maxLen len1 f' runs' fs len'" and n: "n \<le> length q"
    and q: "active f = sid # q" "active f1 = q @ e" "e = [] \<or> e = [sid]" "sid \<notin> set q"
    and t: "taken runs fs1 runs1"
    and p: "packed maxLen len1 fs len' \<Longrightarrow> packed maxLen len (fs1 @ fs) len'"
  shows "loop_result (Suc n) f runs maxLen len f' runs' (fs1 @ fs) len'"
proof -
  obtain k where k: "k \<le> n" "visited (q @ e) k (active f')" "k = n \<or> maxLen < len' + MinStreamFrameSize"
    using r q(2) by (auto simp: loop_result_def)
  have "visited (active f) (Suc k) (active f')"
    unfolding q(1) by (rule visited_Cons [OF k(2) _ q(3,4)]) (use k(1) n in simp)
  then have "\<exists>k \<le> Suc n. visited (active f) k (active f') \<and> (k = Suc n \<or> maxLen < len' + MinStreamFrameSize)"
    using k by (intro exI [of _ "Suc k"]) auto
  then show ?thesis
    using r t p taken_trans by (auto simp: loop_result_def)
qed

text \<open>One stream is visited.\<close>

lemma pop_active:
  assumes inv: "framer_inv f" and a: "active f = sid # q"
  obtains q1 where "RingBuffer_PopFront 0 (fr_streamQueue f) = Ok (sid, q1)"
    "framer_inv (f\<lparr>fr_streamQueue := q1, fr_activeStreams := fr_activeStreams f - {sid}\<rparr>)" "RingBuffer_list q1 = q" "RingBuffer_inv q1"
    "sid \<notin> set q"
proof -
  obtain q1 where "RingBuffer_PopFront 0 (fr_streamQueue f) = Ok (sid, q1)" "RingBuffer_inv q1" "RingBuffer_list q1 = q"
    using ring.pop_law [of "fr_streamQueue f" sid q 0] inv a by (auto simp: framer_inv_def active_def)
  then show ?thesis
    using inv a by (intro that [of q1]) (auto simp: framer_inv_def active_def)
qed

lemma requeue:
  assumes inv: "framer_inv f" and a: "active f = sid # q" and f1: "fr_activeStreams f1 = fr_activeStreams f" "fr_streamQueue f1 = q1"
    "RingBuffer_list q1 = q" "RingBuffer_inv q1" "sid \<notin> set q"
  shows "\<exists>f2 e. (if hm then bindr (RingBuffer_PushBack 0 (fr_streamQueue f1) sid) (\<lambda>q. Ok (f1\<lparr>fr_streamQueue := q\<rparr>))
      else Ok (f1\<lparr>fr_activeStreams := fr_activeStreams f1 - {sid}\<rparr>)) = Ok f2
    \<and> framer_inv f2 \<and> active f2 = q @ e \<and> (e = [] \<or> e = [sid])"
proof (cases hm)
  case True
  obtain q2 where "RingBuffer_PushBack 0 q1 sid = Ok q2" "RingBuffer_inv q2" "RingBuffer_list q2 = q @ [sid]"
    using ring.push_law [OF f1(4), of 0 sid] f1(3) by auto
  then show ?thesis
    using True inv a f1 by (auto simp: framer_inv_def active_def)
next
  case False
  then show ?thesis
    using inv a f1 by (auto simp: framer_inv_def active_def)
qed

lemma visit_stream:
  assumes inv: "framer_inv f" and gr: "good_runs runs" and m: "maxLen \<le> 1450" "0 \<le> len" and room: "\<not> MinStreamFrameSize + len > maxLen"
    and a: "active f = sid # q" and r: "runs sid = Some r"
  obtains f2 e runs1 conn' fo where
    "streamFrames_loop (Suc n) f (streams_of runs) conn maxLen frames len =
       (case fo of None \<Rightarrow> streamFrames_loop n f2 (streams_of runs1) conn' maxLen frames len
        | Some frame \<Rightarrow> bindr (StreamFrame_Length frame) (\<lambda>l. streamFrames_loop n f2 (streams_of runs1) conn' maxLen (frames @ [frame]) (len + l)))"
    "framer_inv f2" "active f2 = q @ e" "e = [] \<or> e = [sid]" "good_runs runs1" "taken runs (case fo of None \<Rightarrow> [] | Some f \<Rightarrow> [f]) runs1"
    "\<And>f. fo = Some f \<Longrightarrow> sf_DataLenPresent f \<and> StreamFrame_wf f \<and> (\<exists>l. StreamFrame_Length f = Ok l \<and> l \<le> maxLen - len + 2)"
proof -
  let ?m = "maxLen - len + 2"
  have m': "MinStreamFrameSize \<le> ?m" "?m \<le> int MaxPacketBufferSize" "128 \<le> maxLen - len" "maxLen - len \<le> 1450"
    using room m by (simp_all add: MinStreamFrameSize_def MaxPacketBufferSize_def)
  have g: "good_run sid r"
    using gr r by (simp add: good_runs_def)
  obtain q1 where q1: "RingBuffer_PopFront 0 (fr_streamQueue f) = Ok (sid, q1)" "RingBuffer_list q1 = q" "RingBuffer_inv q1" "sid \<notin> set q"
    using pop_active [OF inv a] by blast
  obtain s' conn' fo hm where p: "popStreamFrame (sr_stream r) conn ?m = Ok (s', conn', fo, hm)" "send_step r (took r s' fo)"
    "\<And>f. fo = Some f \<Longrightarrow> sf_StreamID f = sid \<and> sf_DataLenPresent f \<and> StreamFrame_wf f \<and> (\<exists>l. StreamFrame_Length f = Ok l \<and> l \<le> ?m)"
    using take_law [OF g m'(1,2), of conn] by metis
  let ?f1 = "deliverCalls (f\<lparr>fr_streamQueue := q1\<rparr>) (drop (length (ss_sender (sr_stream r))) (ss_sender s'))"
  obtain f2 e where f2: "(if hm then bindr (RingBuffer_PushBack 0 (fr_streamQueue ?f1) sid) (\<lambda>q. Ok (?f1\<lparr>fr_streamQueue := q\<rparr>))
      else Ok (?f1\<lparr>fr_activeStreams := fr_activeStreams ?f1 - {sid}\<rparr>)) = Ok f2" "framer_inv f2" "active f2 = q @ e" "e = [] \<or> e = [sid]"
    using requeue [OF inv a _ _ q1(2-4), of ?f1 hm] by auto
  let ?runs = "runs(sid \<mapsto> took r s' fo)"
  have "good_runs ?runs"
    using gr good_run_step [OF g p(2)] by (simp add: good_runs_def)
  moreover have "taken runs (case fo of None \<Rightarrow> [] | Some f \<Rightarrow> [f]) ?runs"
    by (rule taken_one) (use r p in auto)
  moreover have "streams_of runs sid = Some (sr_stream r)"
    by (simp add: streams_of_def r)
  moreover from this have "streamFrames_loop (Suc n) f (streams_of runs) conn maxLen frames len =
      (case fo of None \<Rightarrow> streamFrames_loop n f2 (streams_of ?runs) conn' maxLen frames len
       | Some frame \<Rightarrow> bindr (StreamFrame_Length frame) (\<lambda>l. streamFrames_loop n f2 (streams_of ?runs) conn' maxLen (frames @ [frame]) (len + l)))"
    using room by (simp add: q1(1) varint_room [OF m'(3,4)] p(1) f2(1) Let_def streams_of_took cong: option.case_cong)
  ultimately show ?thesis
    using that [of f2 ?runs conn' fo e] p(3) f2(2-4) by blast
qed

lemma streamFrames_loop_law:
  assumes "framer_inv f" "n \<le> length (active f)" "good_runs runs" "maxLen \<le> 1450" "0 \<le> len"
  shows "\<exists>f' runs' conn' fs len'. streamFrames_loop n f (streams_of runs) conn maxLen frames len = Ok (f', streams_of runs', conn', frames @ fs, len')
    \<and> loop_result n f runs maxLen len f' runs' fs len'"
  using assms
proof (induction n arbitrary: f runs conn frames len)
  case 0
  then show ?case
    using loop_result_stop [of f runs 0 maxLen len] by force
next
  case (Suc n)
  show ?case
  proof (cases "MinStreamFrameSize + len > maxLen")
    case True
    then show ?thesis
      using loop_result_stop [of f runs "Suc n" maxLen len] Suc.prems by force
  next
    case room: False
    obtain sid q where a: "active f = sid # q" and n: "n \<le> length q"
      using Suc.prems(2) by (cases "active f") auto
    obtain q1 where q1: "RingBuffer_PopFront 0 (fr_streamQueue f) = Ok (sid, q1)"
      "framer_inv (f\<lparr>fr_streamQueue := q1, fr_activeStreams := fr_activeStreams f - {sid}\<rparr>)" "RingBuffer_list q1 = q" "sid \<notin> set q"
      using pop_active [OF Suc.prems(1) a] by blast
    show ?thesis
    proof (cases "runs sid")
      case None
      let ?f = "f\<lparr>fr_streamQueue := q1, fr_activeStreams := fr_activeStreams f - {sid}\<rparr>"
      have f1: "active ?f = q @ []" and n1: "n \<le> length (active ?f)"
        using n by (simp_all add: active_def q1(3))
      have "streamFrames_loop (Suc n) f (streams_of runs) conn maxLen frames len = streamFrames_loop n ?f (streams_of runs) conn maxLen frames len"
        using room q1(1) None by (simp add: streams_of_def)
      then show ?thesis
        using Suc.IH [OF q1(2) n1 Suc.prems(3-5), of conn frames]
          loop_result_step [OF _ n a f1 _ q1(4) taken_none, of runs maxLen len] by fastforce
    next
      case (Some r)
      obtain f2 e runs1 conn' fo where v: "streamFrames_loop (Suc n) f (streams_of runs) conn maxLen frames len =
           (case fo of None \<Rightarrow> streamFrames_loop n f2 (streams_of runs1) conn' maxLen frames len
            | Some frame \<Rightarrow> bindr (StreamFrame_Length frame) (\<lambda>l. streamFrames_loop n f2 (streams_of runs1) conn' maxLen (frames @ [frame]) (len + l)))"
        "framer_inv f2" "active f2 = q @ e" "e = [] \<or> e = [sid]" "good_runs runs1" "taken runs (case fo of None \<Rightarrow> [] | Some f \<Rightarrow> [f]) runs1"
        "\<And>f. fo = Some f \<Longrightarrow> sf_DataLenPresent f \<and> StreamFrame_wf f \<and> (\<exists>l. StreamFrame_Length f = Ok l \<and> l \<le> maxLen - len + 2)"
        by (rule visit_stream [OF Suc.prems(1,3-5) room a Some, of n conn frames]) blast
      have n2: "n \<le> length (active f2)"
        using n v(3) by simp
      note step = loop_result_step [OF _ n a v(3,4) q1(4) v(6)]
      show ?thesis
      proof (cases fo)
        case None
        then show ?thesis
          using v(1) Suc.IH [OF v(2) n2 v(5) Suc.prems(4,5), of conn' frames] step by fastforce
      next
        case (Some frame)
        obtain l where l: "StreamFrame_Length frame = Ok l" "l \<le> maxLen - len + 2" "sf_DataLenPresent frame" "StreamFrame_wf frame"
          using v(7) [OF Some] by blast
        have "0 \<le> len + l"
          using StreamFrame_Length_header [OF l(4)] l(1) Suc.prems(5) by (simp add: StreamFrame_header_def split: if_splits)
        then obtain f' runs' conn'' fs len' where ih: "streamFrames_loop n f2 (streams_of runs1) conn' maxLen (frames @ [frame]) (len + l)
            = Ok (f', streams_of runs', conn'', (frames @ [frame]) @ fs, len')" "loop_result n f2 runs1 maxLen (len + l) f' runs' fs len'"
          using Suc.IH [OF v(2) n2 v(5) Suc.prems(4), of "len + l" conn' "frames @ [frame]"] by blast
        have "loop_result (Suc n) f runs maxLen len f' runs' (frame # fs) len'"
          using step [OF ih(2), of len] packed_Cons [OF _ l(4,3,1) _ l(2)] room Some by simp
        then show ?thesis
          using v(1) ih(1) Some l(1) by force
      qed
    qed
  qed
qed

definition strip_last :: "StreamFrame list \<Rightarrow> StreamFrame list" where
  "strip_last fs = (if fs = [] then [] else butlast fs @ [(last fs)\<lparr>sf_DataLenPresent := False\<rparr>])"

text \<open>
  The frames \<open>fs\<close> the framer put into a packet, as \<open>gs\<close> were taken from the streams: they fit,
  and only the last one has no length field.
\<close>

definition filled :: "ByteCount \<Rightarrow> StreamFrame list \<Rightarrow> ByteCount \<Rightarrow> bool" where
  "filled maxLen fs len \<longleftrightarrow> (\<forall>f \<in> set fs. StreamFrame_wf f \<and> StreamFrame_Length f = Ok (stream_size f))
     \<and> len = sum_list (map stream_size fs) \<and> (fs \<noteq> [] \<longrightarrow> 0 < len \<and> len \<le> maxLen)
     \<and> (\<forall>f \<in> set (butlast fs). sf_DataLenPresent f) \<and> (fs \<noteq> [] \<longrightarrow> \<not> sf_DataLenPresent (last fs))"

lemma wf_size_pos: "StreamFrame_wf f \<Longrightarrow> 0 < stream_size f"
  using StreamFrame_Length_header [of f] by (simp add: stream_size_def frame_size_def StreamFrame_header_def)

lemma packed_strip:
  assumes "packed maxLen 0 fs len" "fs \<noteq> []"
  obtains l' where "StreamFrame_Length ((last fs)\<lparr>sf_DataLenPresent := False\<rparr>) = Ok l'" "StreamFrame_Length (last fs) = Ok (stream_size (last fs))"
    "filled maxLen (strip_last fs) (len + (l' - stream_size (last fs)))" "len - 2 \<le> len + (l' - stream_size (last fs))"
proof -
  obtain gs f where fs: "fs = gs @ [f]"
    using assms(2) by (cases fs rule: rev_cases) auto
  have f: "StreamFrame_wf f" "sf_DataLenPresent f" "StreamFrame_Length f = Ok (stream_size f)"
    and gs: "\<forall>f \<in> set gs. StreamFrame_wf f \<and> sf_DataLenPresent f \<and> StreamFrame_Length f = Ok (stream_size f)"
    and len: "len = sum_list (map stream_size gs) + stream_size f" "len - stream_size f + 128 \<le> maxLen" "len \<le> maxLen + 2"
    using assms(1) by (auto simp: fs packed_def MinStreamFrameSize_def)
  obtain l' where l': "StreamFrame_Length (f\<lparr>sf_DataLenPresent := False\<rparr>) = Ok l'" "0 < l'" "l' \<le> maxLen - (len - stream_size f)" "stream_size f - 2 \<le> l'"
    using without_len_field [OF f, of "maxLen - (len - stream_size f)"] len by auto
  have "0 \<le> sum_list (map stream_size gs)"
    using gs wf_size_pos by (intro sum_list_nonneg) (auto simp: less_imp_le)
  moreover have "StreamFrame_wf (f\<lparr>sf_DataLenPresent := False\<rparr>)"
    using f(1) by (simp add: StreamFrame_wf_def)
  ultimately have "filled maxLen (strip_last fs) (len + (l' - stream_size f))"
    using gs len l' stream_size_Ok [OF l'(1)] by (auto simp: filled_def strip_last_def fs)
  then show ?thesis
    using that [of l'] l' f(3) by (simp add: fs)
qed

lemma AppendStreamFrames_law:
  assumes inv: "framer_inv f" and runs: "good_runs runs" and m: "maxLen \<le> 1450"
  shows "\<exists>f' runs' conn' gs len. AppendStreamFrames f (streams_of runs) conn [] maxLen = Ok (f', streams_of runs', conn', strip_last gs, len)
    \<and> framer_inv f' \<and> good_runs runs' \<and> taken runs gs runs' \<and> filled maxLen (strip_last gs) len
    \<and> (\<exists>k. visited (active f) k (active f') \<and> (k = length (active f) \<or> maxLen < len + MinStreamFrameSize + 2))"
proof -
  have n: "nat (RingBuffer_Len (fr_streamQueue f)) = length (active f)"
    using ring.len_law [of "fr_streamQueue f"] inv by (simp add: framer_inv_def active_def)
  obtain f' runs' conn' fs len where l: "streamFrames_loop (length (active f)) f (streams_of runs) conn maxLen [] 0 = Ok (f', streams_of runs', conn', fs, len)"
    and r: "loop_result (length (active f)) f runs maxLen 0 f' runs' fs len"
    using streamFrames_loop_law [OF inv order_refl runs m order_refl, of conn "[]"] by auto
  show ?thesis
  proof (cases "fs = []")
    case True
    then have "AppendStreamFrames f (streams_of runs) conn [] maxLen = Ok (f', streams_of runs', conn', strip_last [], 0)"
      using l r n by (simp add: AppendStreamFrames_def strip_last_def loop_result_def)
    then show ?thesis
      using r True by (intro exI [of _ f'] exI [of _ runs'] exI [of _ conn'] exI [of _ "[]"] exI [of _ 0])
        (auto simp: loop_result_def filled_def strip_last_def)
  next
    case False
    have "packed maxLen 0 fs len"
      using r by (simp add: loop_result_def)
    from packed_strip [OF this False] obtain l' where l': "StreamFrame_Length ((last fs)\<lparr>sf_DataLenPresent := False\<rparr>) = Ok l'"
      "StreamFrame_Length (last fs) = Ok (stream_size (last fs))"
      "filled maxLen (strip_last fs) (len + (l' - stream_size (last fs)))" "len - 2 \<le> len + (l' - stream_size (last fs))"
      by blast
    have "AppendStreamFrames f (streams_of runs) conn [] maxLen = Ok (f', streams_of runs', conn', strip_last fs, len + (l' - stream_size (last fs)))"
      using l n l' False by (simp add: AppendStreamFrames_def strip_last_def)
    then show ?thesis
      using r l'(3,4) by (intro exI [of _ f'] exI [of _ runs'] exI [of _ conn'] exI [of _ fs] exI [of _ "len + (l' - stream_size (last fs))"])
        (auto simp: loop_result_def)
  qed
qed


text \<open>A sample: one stream with three bytes to send.\<close>

definition sample_written :: send_run where
  "sample_written = (send_init 4 sample_fc False)\<lparr>sr_stream := (newSendStreamWithFEC 4 sample_fc False)
       \<lparr>ss_nextFrame := Some (sample_frame\<lparr>sf_Fin := False\<rparr>), ss_sender := [OnHasStreamData 4]\<rparr>, sr_content := [7, 8, 9]\<rparr>"

definition sample_conn :: connectionFlowController where
  "sample_conn = (NewConnectionFlowController 1000 1000 None)\<lparr>fc_sendWindow := 100\<rparr>"

definition sample_framer :: framerI where
  "sample_framer = newFramer\<lparr>fr_activeStreams := {4}, fr_streamQueue := \<lparr>rb_ring = [4], rb_headPos = 0, rb_tailPos = 0, rb_full = True\<rparr>\<rparr>"

lemma sample_written_good: "good_runs [4 \<mapsto> sample_written]"
proof -
  let ?s0 = "newSendStreamWithFEC 4 sample_fc False" and ?r0 = "send_init 4 sample_fc False"
  let ?s1 = "?s0\<lparr>ss_dataForWriting := Some [7, 8, 9], ss_writeOnce := True\<rparr>" and ?s2 = "sr_stream sample_written"
  have "Write_start ?s0 0 [7, 8, 9] = (?s1, None)"
    by (simp add: Write_start_def newSendStreamWithFEC_def deadlinePassed_def)
  moreover have "Write_pass ?s1 0 [7, 8, 9] False = (?s2, True, Ok (Some (3, None)))"
    by (simp add: Write_pass_def sample_written_def newSendStreamWithFEC_def canBufferStreamFrame_def forWriting_def GetStreamFrame_def
        sample_frame_def MaxPacketBufferSize_def callSender_def Write_result_def)
  ultimately have "send_step ?r0 (after_write ?r0 ?s2 [7, 8, 9] True (Some (3, None)))"
    using send_step.begin_write [of ?r0 0 "[7, 8, 9]" ?s1 ?s2 True "Some (3, None)"] by (simp add: send_init_def)
  then have "send_step ?r0 sample_written"
    by (simp add: after_write_def sample_written_def send_init_def)
  then have "good_run 4 sample_written"
    using sample_fc_ok unfolding good_run_def by blast
  then show ?thesis
    by (simp add: good_runs_def)
qed

lemma sample_framer_inv: "framer_inv sample_framer"
  by (simp add: framer_inv_def sample_framer_def newFramer_def RingBuffer_inv_def RingBuffer_list_def)


section \<open>Control frames\<close>

definition no_handlers :: "Frame list \<Rightarrow> ackhandler_Frame list" where
  "no_handlers fs = map (\<lambda>f. (f, NoHandler)) fs"

definition queued :: "framerI \<Rightarrow> Frame multiset" where
  "queued f = mset (fr_controlFrames f) + mset (map FPathResponse (fr_pathResponses f))"

definition control_ok :: "framerI \<Rightarrow> bool" where
  "control_ok f \<longleftrightarrow> (\<forall>c \<in># queued f. Frame_wf c)"

lemma takeControlFrames_law:
  "\<forall>f \<in> set q. Frame_wf f \<Longrightarrow> \<exists>fs rest. q = fs @ rest
     \<and> takeControlFrames maxLen q frames len = Ok (rest, frames @ no_handlers fs, len + sum_list (map frame_size fs))
     \<and> (fs \<noteq> [] \<longrightarrow> len + sum_list (map frame_size fs) \<le> maxLen)
     \<and> (rest = [] \<or> maxLen < len + sum_list (map frame_size fs) + frame_size (hd rest))"
proof (induction q arbitrary: frames len)
  case Nil
  then show ?case
    by (simp add: no_handlers_def)
next
  case (Cons f q)
  then have l: "Frame_Length f = Ok (frame_size f)"
    using Frame_Length_enc [of f] by (simp add: frame_size_def)
  show ?case
  proof (cases "len + frame_size f > maxLen")
    case True
    then show ?thesis
      using l by (intro exI [of _ "[]"] exI [of _ "f # q"]) (simp add: no_handlers_def)
  next
    case False
    obtain fs rest where ih: "q = fs @ rest"
      "takeControlFrames maxLen q (frames @ [(f, NoHandler)]) (len + frame_size f)
        = Ok (rest, (frames @ [(f, NoHandler)]) @ no_handlers fs, len + frame_size f + sum_list (map frame_size fs))"
      "fs \<noteq> [] \<longrightarrow> len + frame_size f + sum_list (map frame_size fs) \<le> maxLen"
      "rest = [] \<or> maxLen < len + frame_size f + sum_list (map frame_size fs) + frame_size (hd rest)"
      using Cons.IH [of "frames @ [(f, NoHandler)]" "len + frame_size f"] Cons.prems by auto
    then show ?thesis
      using l False by (intro exI [of _ "f # fs"] exI [of _ rest]) (auto simp: no_handlers_def add.assoc)
  qed
qed

text \<open>What \<^verbatim>\<open>AppendControlFrames\<close> does: it takes frames that fit, and keeps the others.\<close>

definition control_taken :: "framerI \<Rightarrow> ByteCount \<Rightarrow> framerI \<Rightarrow> Frame list \<Rightarrow> bool" where
  "control_taken f maxLen f' fs \<longleftrightarrow> queued f = mset fs + queued f' \<and> (fs \<noteq> [] \<longrightarrow> sum_list (map frame_size fs) \<le> maxLen)
     \<and> fr_streamQueue f' = fr_streamQueue f \<and> fr_activeStreams f' = fr_activeStreams f"

lemma takePathResponse_law:
  "\<exists>f' fs. takePathResponse f frames maxLen = Ok (f', frames @ no_handlers fs, sum_list (map frame_size fs))
     \<and> control_taken f maxLen f' fs \<and> fr_controlFrames f' = fr_controlFrames f"
proof (cases "fr_pathResponses f")
  case Nil
  then show ?thesis
    by (intro exI [of _ f] exI [of _ "[]"]) (simp add: takePathResponse_def no_handlers_def control_taken_def)
next
  case (Cons r rest)
  have l: "Frame_Length (FPathResponse r) = Ok (frame_size (FPathResponse r))"
    by (simp add: frame_size_def PathResponseFrame_Length_def)
  show ?thesis
  proof (cases "frame_size (FPathResponse r) \<le> maxLen")
    case True
    then show ?thesis
      using Cons l by (intro exI [of _ "f\<lparr>fr_pathResponses := rest\<rparr>"] exI [of _ "[FPathResponse r]"])
        (simp add: takePathResponse_def no_handlers_def control_taken_def queued_def)
  next
    case False
    then show ?thesis
      using Cons l by (intro exI [of _ f] exI [of _ "[]"]) (simp add: takePathResponse_def no_handlers_def control_taken_def)
  qed
qed

lemma AppendControlFrames_law:
  assumes ok: "control_ok f"
  shows "\<exists>f' fs. AppendControlFrames f frames maxLen = Ok (f', frames @ no_handlers fs, sum_list (map frame_size fs)) \<and> control_taken f maxLen f' fs"
proof -
  obtain f1 fs1 where f1: "takePathResponse f frames maxLen = Ok (f1, frames @ no_handlers fs1, sum_list (map frame_size fs1))"
      "control_taken f maxLen f1 fs1" "fr_controlFrames f1 = fr_controlFrames f"
    using takePathResponse_law by blast
  have "\<forall>c \<in> set (rev (fr_controlFrames f1)). Frame_wf c"
    using ok f1(3) by (auto simp: control_ok_def queued_def)
  then obtain fs rest where t: "rev (fr_controlFrames f1) = fs @ rest"
      "takeControlFrames maxLen (rev (fr_controlFrames f1)) (frames @ no_handlers fs1) (sum_list (map frame_size fs1))
        = Ok (rest, (frames @ no_handlers fs1) @ no_handlers fs, sum_list (map frame_size fs1) + sum_list (map frame_size fs))"
      "fs \<noteq> [] \<longrightarrow> sum_list (map frame_size fs1) + sum_list (map frame_size fs) \<le> maxLen"
    using takeControlFrames_law [of "rev (fr_controlFrames f1)" maxLen "frames @ no_handlers fs1" "sum_list (map frame_size fs1)"] by blast
  have "mset (fr_controlFrames f1) = mset fs + mset rest"
    using arg_cong [OF t(1), of mset] by simp
  then have "control_taken f maxLen (f1\<lparr>fr_controlFrames := rev rest\<rparr>) (fs1 @ fs)"
    using f1(2) t(3) by (auto simp: control_taken_def queued_def)
  moreover have "AppendControlFrames f frames maxLen
      = Ok (f1\<lparr>fr_controlFrames := rev rest\<rparr>, frames @ no_handlers (fs1 @ fs), sum_list (map frame_size (fs1 @ fs)))"
    using t(2) f1(1) by (simp add: AppendControlFrames_def no_handlers_def)
  ultimately show ?thesis
    by blast
qed

end
