(* ===== verification/Headers.thy ===== *)
theory Headers
  imports Protocol
begin

text \<open>
  Packet headers (\<^verbatim>\<open>src/internal/wire\<close>: \<^verbatim>\<open>header.go\<close>, \<^verbatim>\<open>extended_header.go\<close>, \<^verbatim>\<open>short_header.go\<close>, and the versions,
  packet types and key phases of \<^verbatim>\<open>src/internal/protocol\<close>): writing, and reading back, with the
  split of coalesced packets.
\<close>

unbundle bit_operations_syntax

section \<open>Versions, packet types, key phases\<close>

type_synonym Version = "32 word"

definition Version1 :: Version where
  "Version1 = 0x1"

definition Version2 :: Version where
  "Version2 = 0x6b3343cf"

definition SupportedVersions :: "Version list" where
  "SupportedVersions = [Version1, Version2]"

fun IsSupportedVersion :: "Version list \<Rightarrow> Version \<Rightarrow> bool" where
  "IsSupportedVersion [] v = False"
| "IsSupportedVersion (t # supported) v = (if t = v then True else IsSupportedVersion supported v)"

definition IsValidVersion :: "Version \<Rightarrow> bool" where
  "IsValidVersion v \<longleftrightarrow> v = Version1 \<or> IsSupportedVersion SupportedVersions v"

text \<open>The inner loop of \<^verbatim>\<open>ChooseSupportedVersion\<close> is the membership test of \<^verbatim>\<open>IsSupportedVersion\<close>.\<close>

fun ChooseSupportedVersion :: "Version list \<Rightarrow> Version list \<Rightarrow> Version \<times> bool" where
  "ChooseSupportedVersion [] theirs = (0, False)"
| "ChooseSupportedVersion (ourVer # ours) theirs =
     (if IsSupportedVersion theirs ourVer then (ourVer, True) else ChooseSupportedVersion ours theirs)"

datatype PacketType = PacketTypeInitial | PacketTypeRetry | PacketTypeHandshake | PacketType0RTT

datatype KeyPhaseBit = KeyPhaseUndefined | KeyPhaseZero | KeyPhaseOne

definition KeyPhase_Bit :: "u64 \<Rightarrow> KeyPhaseBit" where
  "KeyPhase_Bit p = (if p mod 2 = 0 then KeyPhaseZero else KeyPhaseOne)"

section \<open>Numbers in network byte order\<close>

text \<open>The values are below \<open>2 ^ 32\<close>, so the sums of the source do not wrap.\<close>

definition ReadUint16 :: "reader \<Rightarrow> (int \<times> reader) outcome" where
  "ReadUint16 r =
     bindr (ReadByte r) (\<lambda>(b2, r). bindr (ReadByte r) (\<lambda>(b1, r). Ok (be_val [b2, b1], r)))"

definition ReadUint24 :: "reader \<Rightarrow> (int \<times> reader) outcome" where
  "ReadUint24 r =
     bindr (ReadByte r) (\<lambda>(b3, r). bindr (ReadByte r) (\<lambda>(b2, r). bindr (ReadByte r) (\<lambda>(b1, r).
     Ok (be_val [b3, b2, b1], r))))"

definition ReadUint32 :: "reader \<Rightarrow> (int \<times> reader) outcome" where
  "ReadUint32 r =
     bindr (ReadByte r) (\<lambda>(b4, r). bindr (ReadByte r) (\<lambda>(b3, r). bindr (ReadByte r) (\<lambda>(b2, r). bindr (ReadByte r) (\<lambda>(b1, r).
     Ok (be_val [b4, b3, b2, b1], r)))))"

section \<open>Short headers\<close>

definition ErrInvalidReservedBits :: go_error where
  "ErrInvalidReservedBits = ErrorString ''invalid reserved bits''"

definition appendPacketNumber :: "byte list \<Rightarrow> int \<Rightarrow> nat \<Rightarrow> byte list outcome" where
  "appendPacketNumber b pn pnLen =
     (if pnLen = 1 then Ok (b @ [word_of_int pn])
      else if pnLen = 2 then Ok (b @ be_bytes 2 pn)
      else if pnLen = 3 then Ok (b @ be_bytes 3 pn)
      else if pnLen = 4 then Ok (b @ be_bytes 4 pn)
      else Err (ErrorString ''invalid packet number length''))"

text \<open>
  On success the length, the packet number with its length, and the key phase, together with
  the error for reserved bits.
\<close>

definition ParseShortHeader ::
  "byte list \<Rightarrow> nat \<Rightarrow> (int \<times> int \<times> nat \<times> KeyPhaseBit \<times> go_error option) outcome" where
  "ParseShortHeader dat connIDLen =
     (if length dat = 0 then Err EOF
      else if dat ! 0 AND 0x80 > 0 then Err (ErrorString ''not a short header packet'')
      else if dat ! 0 AND 0x40 = 0 then Err (ErrorString ''not a QUIC packet'')
      else
        let pnLen = unat (dat ! 0 AND 0b11) + 1 in
        if length dat < 1 + pnLen + connIDLen then Err EOF
        else
          let pos = 1 + connIDLen;
              pn = be_val (take pnLen (drop pos dat));
              kp = (if dat ! 0 AND 0b100 > 0 then KeyPhaseOne else KeyPhaseZero);
              err = (if dat ! 0 AND 0x18 \<noteq> 0 then Some ErrInvalidReservedBits else None)
          in Ok (int (1 + connIDLen + pnLen), pn, pnLen, kp, err))"

definition AppendShortHeader :: "byte list \<Rightarrow> ConnectionID \<Rightarrow> int \<Rightarrow> nat \<Rightarrow> KeyPhaseBit \<Rightarrow> byte list outcome" where
  "AppendShortHeader b connID pn pnLen kp =
     (let typeByte = 0x40 OR word_of_int (int pnLen - 1);
          typeByte = (if kp = KeyPhaseOne then typeByte OR push_bit 2 1 else typeByte)
      in appendPacketNumber (b @ [typeByte] @ connID) pn pnLen)"

definition ShortHeaderLen :: "ConnectionID \<Rightarrow> nat \<Rightarrow> ByteCount" where
  "ShortHeaderLen dest pnLen = 1 + int (length dest) + int pnLen"

section \<open>Long headers\<close>

definition IsPotentialQUICPacket :: "byte \<Rightarrow> bool" where
  "IsPotentialQUICPacket firstByte \<longleftrightarrow> firstByte AND 0x40 > 0"

definition IsLongHeaderPacket :: "byte \<Rightarrow> bool" where
  "IsLongHeaderPacket firstByte \<longleftrightarrow> firstByte AND 0x80 > 0"

definition protocol_ParseConnectionID :: "byte list \<Rightarrow> ConnectionID outcome" where
  "protocol_ParseConnectionID b = (if length b > MaxConnIDLen then Panic ''invalid conn id length'' else Ok b)"

definition ParseConnectionID :: "byte list \<Rightarrow> nat \<Rightarrow> ConnectionID outcome" where
  "ParseConnectionID dat shortHeaderConnIDLen =
     (if length dat = 0 then Err EOF
      else if \<not> IsLongHeaderPacket (dat ! 0) then
        if length dat < shortHeaderConnIDLen + 1 then Err EOF
        else protocol_ParseConnectionID (take shortHeaderConnIDLen (drop 1 dat))
      else if length dat < 6 then Err EOF
      else
        let destConnIDLen = unat (dat ! 5) in
        if destConnIDLen > MaxConnIDLen then Err (ErrorString ''invalid Connection ID length'')
        else if length dat < 6 + destConnIDLen then Err EOF
        else protocol_ParseConnectionID (take destConnIDLen (drop 6 dat)))"

text \<open>\<^verbatim>\<open>io.ReadFull\<close> where both kinds of end of input become \<^verbatim>\<open>io.EOF\<close>.\<close>

definition ReadFullEOF :: "reader \<Rightarrow> nat \<Rightarrow> (byte list \<times> reader) outcome" where
  "ReadFullEOF r n = (case ReadFull r n of Err UnexpectedEOF \<Rightarrow> Err EOF | res \<Rightarrow> res)"

definition parseArbitraryLenConnectionIDs :: "byte list \<Rightarrow> (byte list \<times> byte list \<times> reader) outcome" where
  "parseArbitraryLenConnectionIDs dat =
     bindr (ReadByte (drop 5 dat)) (\<lambda>(destConnIDLen, r).
     bindr (ReadFullEOF r (unat destConnIDLen)) (\<lambda>(destConnID, r).
     bindr (ReadByte r) (\<lambda>(srcConnIDLen, r).
     bindr (ReadFullEOF r (unat srcConnIDLen)) (\<lambda>(srcConnID, r).
     Ok (destConnID, srcConnID, r)))))"

text \<open>The two results are swapped twice on the way: the destination comes first.\<close>

definition ParseArbitraryLenConnectionIDs :: "byte list \<Rightarrow> (int \<times> byte list \<times> byte list) outcome" where
  "ParseArbitraryLenConnectionIDs dat =
     bindr (parseArbitraryLenConnectionIDs dat) (\<lambda>(src, dest, r).
     Ok (int (length dat) - int (length r), src, dest))"

definition ParseVersion :: "byte list \<Rightarrow> Version outcome" where
  "ParseVersion dat = (if length dat < 5 then Err EOF else Ok (word_of_int (be_val (take 4 (drop 1 dat)))))"

definition IsVersionNegotiationPacket :: "byte list \<Rightarrow> bool" where
  "IsVersionNegotiationPacket b \<longleftrightarrow>
     (if length b < 5 then False
      else IsLongHeaderPacket (b ! 0) \<and> b ! 1 = 0 \<and> b ! 2 = 0 \<and> b ! 3 = 0 \<and> b ! 4 = 0)"

definition Is0RTTPacket :: "byte list \<Rightarrow> bool" where
  "Is0RTTPacket b \<longleftrightarrow>
     (if length b < 5 then False
      else if \<not> IsLongHeaderPacket (b ! 0) then False
      else
        let version = (word_of_int (be_val (take 4 (drop 1 b))) :: Version) in
        if version = Version1 then drop_bit 4 (b ! 0) AND 0b11 = 0b01
        else if version = Version2 then drop_bit 4 (b ! 0) AND 0b11 = 0b10
        else False)"

definition ErrUnsupportedVersion :: go_error where
  "ErrUnsupportedVersion = ErrorString ''unsupported version''"

text \<open>\<^verbatim>\<open>Type\<close> is zero, here \<^const>\<open>None\<close>, until it was read.\<close>

record Header =
  hdr_typeByte :: byte
  hdr_Type :: "PacketType option"
  hdr_Version :: Version
  hdr_SrcConnectionID :: ConnectionID
  hdr_DestConnectionID :: ConnectionID
  hdr_Length :: ByteCount
  hdr_Token :: "byte list"
  hdr_parsedLen :: ByteCount

definition newHeader :: "byte \<Rightarrow> Header" where
  "newHeader typeByte = \<lparr>hdr_typeByte = typeByte, hdr_Type = None, hdr_Version = 0, hdr_SrcConnectionID = [],
     hdr_DestConnectionID = [], hdr_Length = 0, hdr_Token = [], hdr_parsedLen = 0\<rparr>"

text \<open>
  A step of \<^verbatim>\<open>parseLongHeader\<close> that reads: on an error the header is left as it is. What a failed
  read consumed is not modelled; the header is then discarded.
\<close>

definition readh :: "Header \<Rightarrow> reader \<Rightarrow> ('a \<times> reader) outcome \<Rightarrow> ('a \<Rightarrow> reader \<Rightarrow> Header \<times> reader \<times> unit outcome)
    \<Rightarrow> Header \<times> reader \<times> unit outcome" where
  "readh h r m k = (case m of Ok (x, r') \<Rightarrow> k x r' | Err e \<Rightarrow> (h, r, Err e) | Panic p \<Rightarrow> (h, r, Panic p))"

definition packetTypeOf :: "Version \<Rightarrow> byte \<Rightarrow> PacketType" where
  "packetTypeOf v typeByte =
     (let t = drop_bit 4 typeByte AND 0b11 in
      if v = Version2 then
        (if t = 0b00 then PacketTypeRetry else if t = 0b01 then PacketTypeInitial
         else if t = 0b10 then PacketType0RTT else PacketTypeHandshake)
      else
        (if t = 0b00 then PacketTypeInitial else if t = 0b01 then PacketType0RTT
         else if t = 0b10 then PacketTypeHandshake else PacketTypeRetry))"

text \<open>The part of \<^verbatim>\<open>parseLongHeader\<close> after the packet type is known.\<close>

definition parseTypeSpecific :: "Header \<Rightarrow> reader \<Rightarrow> Header \<times> reader \<times> unit outcome" where
  "parseTypeSpecific h r =
     (if hdr_Type h = Some PacketTypeRetry then
        let tokenLen = int (length r) - 16 in
        if tokenLen \<le> 0 then (h, r, Err EOF)
        else readh h r (ReadFull r (nat tokenLen)) (\<lambda>token r. (h\<lparr>hdr_Token := token\<rparr>, drop 16 r, Ok ()))
      else
        let readLength = (\<lambda>h r. readh h r (quicvarint_Read r) (\<lambda>pl r. (h\<lparr>hdr_Length := to_i64 pl\<rparr>, r, Ok ())))
        in if hdr_Type h = Some PacketTypeInitial then
             readh h r (quicvarint_Read r) (\<lambda>tokenLen r.
             if tokenLen > to_u64 (int (length r)) then (h, r, Err EOF)
             else readh h r (ReadFull r (unat tokenLen)) (\<lambda>token r. readLength (h\<lparr>hdr_Token := token\<rparr>) r))
           else readLength h r)"

definition Header_parseLongHeader :: "Header \<Rightarrow> reader \<Rightarrow> Header \<times> reader \<times> unit outcome" where
  "Header_parseLongHeader h r =
     readh h r (ReadUint32 r) (\<lambda>v r.
     let h = h\<lparr>hdr_Version := word_of_int v\<rparr> in
     if hdr_Version h \<noteq> 0 \<and> hdr_typeByte h AND 0x40 = 0 then (h, r, Err (ErrorString ''not a QUIC packet''))
     else
       readh h r (ReadByte r) (\<lambda>destConnIDLen r.
       readh h r (ReadConnectionID r (unat destConnIDLen)) (\<lambda>dest r.
       let h = h\<lparr>hdr_DestConnectionID := dest\<rparr> in
       readh h r (ReadByte r) (\<lambda>srcConnIDLen r.
       readh h r (ReadConnectionID r (unat srcConnIDLen)) (\<lambda>src r.
       let h = h\<lparr>hdr_SrcConnectionID := src\<rparr> in
       if hdr_Version h = 0 then (h, r, Ok ())
       else if \<not> IsSupportedVersion SupportedVersions (hdr_Version h) then (h, r, Err ErrUnsupportedVersion)
       else parseTypeSpecific (h\<lparr>hdr_Type := Some (packetTypeOf (hdr_Version h) (hdr_typeByte h))\<rparr>) r)))))"

definition parseHeader :: "reader \<Rightarrow> Header option \<times> unit outcome" where
  "parseHeader b =
     (case ReadByte b of
        Err e \<Rightarrow> (None, Err e)
      | Panic p \<Rightarrow> (None, Panic p)
      | Ok (typeByte, r) \<Rightarrow>
          let (h, r, err) = Header_parseLongHeader (newHeader typeByte) r
          in (Some (h\<lparr>hdr_parsedLen := int (length b) - int (length r)\<rparr>), err))"

text \<open>The header, which is returned with the error for an unsupported version, the packet and the rest.\<close>

definition ParsePacket :: "byte list \<Rightarrow> Header option \<times> (byte list \<times> byte list) outcome" where
  "ParsePacket dat =
     (if length dat = 0 \<or> \<not> IsLongHeaderPacket (dat ! 0) then (None, Err (ErrorString ''not a long header packet''))
      else case parseHeader dat of
        (hdr, Err e) \<Rightarrow> (if e = ErrUnsupportedVersion then hdr else None, Err e)
      | (hdr, Panic p) \<Rightarrow> (None, Panic p)
      | (None, Ok _) \<Rightarrow> (None, Panic ''invalid memory address or nil pointer dereference'')
      | (Some hdr, Ok _) \<Rightarrow>
          if int (length dat) < hdr_parsedLen hdr + hdr_Length hdr
          then (None, Err (ErrorString ''packet length is smaller than the expected length''))
          else
            let packetLen = nat (hdr_parsedLen hdr + hdr_Length hdr)
            in (Some hdr, Ok (take packetLen dat, drop packetLen dat)))"

record ExtendedHeader =
  eh_Header :: Header
  eh_typeByte :: byte
  eh_KeyPhase :: KeyPhaseBit
  eh_PacketNumberLen :: nat
  eh_PacketNumber :: int
  eh_parsedLen :: ByteCount

definition readPacketNumber :: "ExtendedHeader \<Rightarrow> reader \<Rightarrow> (ExtendedHeader \<times> reader) outcome" where
  "readPacketNumber h r =
     (let pnLen = unat (eh_typeByte h AND 0x3) + 1; h = h\<lparr>eh_PacketNumberLen := pnLen\<rparr> in
      if pnLen = 1 then bindr (ReadByte r) (\<lambda>(n, r). Ok (h\<lparr>eh_PacketNumber := uint n\<rparr>, r))
      else if pnLen = 2 then bindr (ReadUint16 r) (\<lambda>(n, r). Ok (h\<lparr>eh_PacketNumber := n\<rparr>, r))
      else if pnLen = 3 then bindr (ReadUint24 r) (\<lambda>(n, r). Ok (h\<lparr>eh_PacketNumber := n\<rparr>, r))
      else if pnLen = 4 then bindr (ReadUint32 r) (\<lambda>(n, r). Ok (h\<lparr>eh_PacketNumber := n\<rparr>, r))
      else Err (ErrorString ''invalid packet number length''))"

definition ExtendedHeader_parse :: "ExtendedHeader \<Rightarrow> reader \<Rightarrow> (ExtendedHeader \<times> bool) outcome" where
  "ExtendedHeader_parse h b =
     bindr (ReadByte b) (\<lambda>(typeByte, r).
     let h = h\<lparr>eh_typeByte := typeByte\<rparr>;
         seek = hdr_parsedLen (eh_Header h) - 1 in
     if seek < - 1 then Err (ErrorString ''bytes.Reader.Seek: negative position'')
     else
       let r = (if seek = - 1 then b else drop (nat seek) r) in
       bindr (readPacketNumber h r) (\<lambda>(h, r).
       Ok (h\<lparr>eh_parsedLen := int (length b) - int (length r)\<rparr>, eh_typeByte h AND 0xc = 0)))"

text \<open>The extended header and, when the reserved bits are set, the error that comes with it.\<close>

definition ParseExtended :: "Header \<Rightarrow> reader \<Rightarrow> (ExtendedHeader \<times> go_error option) outcome" where
  "ParseExtended h b =
     bindr (ExtendedHeader_parse \<lparr>eh_Header = h, eh_typeByte = 0, eh_KeyPhase = KeyPhaseUndefined, eh_PacketNumberLen = 0,
              eh_PacketNumber = 0, eh_parsedLen = 0\<rparr> b) (\<lambda>(extHdr, reservedBitsValid).
     Ok (extHdr, if reservedBitsValid then None else Some ErrInvalidReservedBits))"

definition packetTypeBits :: "Version \<Rightarrow> PacketType option \<Rightarrow> byte" where
  "packetTypeBits v t =
     (if v = Version2 then
        (case t of Some PacketTypeInitial \<Rightarrow> 0b01 | Some PacketType0RTT \<Rightarrow> 0b10 | Some PacketTypeHandshake \<Rightarrow> 0b11
         | Some PacketTypeRetry \<Rightarrow> 0b00 | None \<Rightarrow> 0)
      else
        (case t of Some PacketTypeInitial \<Rightarrow> 0b00 | Some PacketType0RTT \<Rightarrow> 0b01 | Some PacketTypeHandshake \<Rightarrow> 0b10
         | Some PacketTypeRetry \<Rightarrow> 0b11 | None \<Rightarrow> 0))"

definition ExtendedHeader_Append :: "byte list \<Rightarrow> ExtendedHeader \<Rightarrow> Version \<Rightarrow> byte list outcome" where
  "ExtendedHeader_Append b h v =
     (let hdr = eh_Header h in
      if length (hdr_DestConnectionID hdr) > MaxConnIDLen \<or> length (hdr_SrcConnectionID hdr) > MaxConnIDLen
      then Err (ErrorString ''invalid connection ID length'')
      else
        let firstByte = 0xc0 OR push_bit 4 (packetTypeBits v (hdr_Type hdr));
            firstByte = (if hdr_Type hdr \<noteq> Some PacketTypeRetry
                         then firstByte OR word_of_int (int (eh_PacketNumberLen h) - 1) else firstByte);
            b = b @ [firstByte] @ be_bytes 4 (uint (hdr_Version hdr))
                  @ [of_nat (length (hdr_DestConnectionID hdr))] @ hdr_DestConnectionID hdr
                  @ [of_nat (length (hdr_SrcConnectionID hdr))] @ hdr_SrcConnectionID hdr
        in if hdr_Type hdr = Some PacketTypeRetry then Ok (b @ hdr_Token hdr)
           else
             bindr (if hdr_Type hdr = Some PacketTypeInitial
                    then appb (appv (Ok b) (len64 (hdr_Token hdr))) (hdr_Token hdr)
                    else Ok b) (\<lambda>b.
             bindr (quicvarint_AppendWithLen b (to_u64 (hdr_Length hdr)) 2) (\<lambda>b.
             appendPacketNumber b (eh_PacketNumber h) (eh_PacketNumberLen h))))"

definition ExtendedHeader_GetLength :: "ExtendedHeader \<Rightarrow> ByteCount outcome" where
  "ExtendedHeader_GetLength h =
     (let hdr = eh_Header h;
          len = 1 + 4 + 1 + int (length (hdr_DestConnectionID hdr)) + 1 + int (length (hdr_SrcConnectionID hdr))
                + int (eh_PacketNumberLen h) + 2
      in if hdr_Type hdr = Some PacketTypeInitial
         then addInt (addLen (Ok len) (len64 (hdr_Token hdr))) (int (length (hdr_Token hdr)))
         else Ok len)"

section \<open>Reading back\<close>

lemma appendPacketNumber_law: "pnLen \<in> {1, 2, 3, 4} \<Longrightarrow> appendPacketNumber b pn pnLen = Ok (b @ be_bytes pnLen pn)"
  by (auto simp: appendPacketNumber_def)

lemma pn_mod: "be_val (be_bytes pnLen pn) = pn mod 2 ^ (8 * pnLen)"
  by (simp add: be_val_be_bytes power_mult)

lemma ReadUint_be [simp]:
  "ReadUint16 (be_bytes 2 n @ r) = Ok (be_val (be_bytes 2 n), r)"
  "ReadUint24 (be_bytes 3 n @ r) = Ok (be_val (be_bytes 3 n), r)"
  "ReadUint32 (be_bytes 4 n @ r) = Ok (be_val (be_bytes 4 n), r)"
  by (simp_all add: ReadUint16_def ReadUint24_def ReadUint32_def)

text \<open>The bits of the first byte of a short header.\<close>

lemma short_first_byte:
  fixes kp :: KeyPhaseBit
  assumes "pnLen \<in> {1, 2, 3, 4}"
  defines "t \<equiv> (if kp = KeyPhaseOne then (0x40 OR word_of_int (int pnLen - 1)) OR push_bit 2 1 else 0x40 OR word_of_int (int pnLen - 1)) :: byte"
  shows "\<not> t AND 0x80 > 0" "t AND 0x40 \<noteq> 0" "unat (t AND 0b11) + 1 = pnLen" "t AND 0b100 > 0 \<longleftrightarrow> kp = KeyPhaseOne" "t AND 0x18 = 0"
  using assms(1) unfolding t_def by (cases "kp = KeyPhaseOne"; auto)+

lemma short_header_law:
  assumes "pnLen \<in> {1, 2, 3, 4}"
  obtains e where "AppendShortHeader b connID pn pnLen kp = Ok (b @ e)" "int (length e) = ShortHeaderLen connID pnLen"
    "ParseShortHeader (e @ rest) (length connID) =
       Ok (int (length e), pn mod 2 ^ (8 * pnLen), pnLen, if kp = KeyPhaseOne then KeyPhaseOne else KeyPhaseZero, None)"
proof -
  define t :: byte where "t = (if kp = KeyPhaseOne then (0x40 OR word_of_int (int pnLen - 1)) OR push_bit 2 1 else 0x40 OR word_of_int (int pnLen - 1))"
  note bits = short_first_byte [OF assms, where kp = kp, folded t_def]
  define e where "e = t # connID @ be_bytes pnLen pn"
  have "AppendShortHeader b connID pn pnLen kp = Ok (b @ e)"
    using assms by (simp add: AppendShortHeader_def appendPacketNumber_law e_def t_def)
  moreover have "int (length e) = ShortHeaderLen connID pnLen"
    by (simp add: e_def ShortHeaderLen_def)
  moreover have "ParseShortHeader (e @ rest) (length connID) =
       Ok (int (length e), pn mod 2 ^ (8 * pnLen), pnLen, if kp = KeyPhaseOne then KeyPhaseOne else KeyPhaseZero, None)"
    unfolding ParseShortHeader_def using bits by (simp add: e_def Let_def pn_mod)
  ultimately show ?thesis
    using that by blast
qed

text \<open>
  C37 (pn-decode). The receiver of a short header packet gets the packet number the sender
  used. The sender writes as many bytes of it as it chose from the largest acknowledged one;
  the receiver reads them, with the key phase, from the bytes before the payload, and
  decodes the number against the largest one it received, as long as that is not more than
  half a window ahead.
\<close>

theorem short_header_packet_number:
  assumes pn: "0 \<le> pn" "- 1 \<le> acked" "acked \<le> largest" "acked < pn" "pn - acked < 2 ^ 31"
    and window: "2 * (largest + 1 - pn) < 2 ^ (8 * GetPacketNumberLengthForHeader pn acked)"
    and kp: "kp \<noteq> KeyPhaseUndefined"
    and e: "AppendShortHeader [] connID pn (GetPacketNumberLengthForHeader pn acked) kp = Ok e"
  shows "\<exists>wire pnLen. ParseShortHeader (e @ payload) (length connID) = Ok (int (length e), wire, pnLen, kp, None)
    \<and> int (length e) = ShortHeaderLen connID pnLen \<and> DecodePacketNumber pnLen largest wire = pn"
proof -
  let ?l = "GetPacketNumberLengthForHeader pn acked"
  have "?l \<in> {1, 2, 3, 4}"
    by (simp add: GetPacketNumberLengthForHeader_def Let_def)
  then obtain e' where e': "AppendShortHeader [] connID pn ?l kp = Ok ([] @ e')" "int (length e') = ShortHeaderLen connID ?l"
    "ParseShortHeader (e' @ payload) (length connID) =
       Ok (int (length e'), pn mod 2 ^ (8 * ?l), ?l, if kp = KeyPhaseOne then KeyPhaseOne else KeyPhaseZero, None)"
    using short_header_law [of ?l "[]" connID pn kp payload] by blast
  moreover have "(if kp = KeyPhaseOne then KeyPhaseOne else KeyPhaseZero) = kp"
    using kp by (cases kp) auto
  ultimately show ?thesis
    using e packet_number_decoded [OF pn window] by auto
qed

theorem short_header_packet_number_witness:
  "ParseShortHeader ([0x45, 0xab, 0xcd, 0x5c, 0x02] @ [1, 2, 3]) 2 = Ok (5, 0x5c02, 2, KeyPhaseOne, None)
     \<and> DecodePacketNumber 2 0xabe8bc 0x5c02 = 0xac5c02"
proof -
  have l: "GetPacketNumberLengthForHeader 0xac5c02 0xabe8b3 = 2"
    by code_simp
  have a: "AppendShortHeader [] [0xab, 0xcd] 0xac5c02 2 KeyPhaseOne = Ok [0x45, 0xab, 0xcd, 0x5c, 0x02]"
    by code_simp
  have "ParseShortHeader ([0x45, 0xab, 0xcd, 0x5c, 0x02] @ [1, 2, 3]) 2 = Ok (5, 0x5c02, 2, KeyPhaseOne, None)"
    by code_simp
  then show ?thesis
    using short_header_packet_number [of "0xac5c02" "0xabe8b3" "0xabe8bc" KeyPhaseOne "[0xab, 0xcd]" _ "[1, 2, 3]"] l a
    by (auto simp: numeral_2_eq_2)
qed

section \<open>Long headers\<close>

text \<open>The headers that can be written, apart from those of Retry packets, which have no packet number.\<close>

definition ExtendedHeader_wf :: "ExtendedHeader \<Rightarrow> bool" where
  "ExtendedHeader_wf h \<longleftrightarrow>
     hdr_Version (eh_Header h) \<in> set SupportedVersions
     \<and> hdr_Type (eh_Header h) \<in> {Some PacketTypeInitial, Some PacketTypeHandshake, Some PacketType0RTT}
     \<and> length (hdr_DestConnectionID (eh_Header h)) \<le> MaxConnIDLen \<and> length (hdr_SrcConnectionID (eh_Header h)) \<le> MaxConnIDLen
     \<and> (hdr_Type (eh_Header h) \<noteq> Some PacketTypeInitial \<longrightarrow> hdr_Token (eh_Header h) = [])
     \<and> fits_i (int (length (hdr_Token (eh_Header h)))) \<and> eh_PacketNumberLen h \<in> {1, 2, 3, 4}
     \<and> int (eh_PacketNumberLen h) \<le> hdr_Length (eh_Header h) \<and> hdr_Length (eh_Header h) < 16384"

definition first_byte :: "ExtendedHeader \<Rightarrow> byte" where
  "first_byte h = (0xc0 OR push_bit 4 (packetTypeBits (hdr_Version (eh_Header h)) (hdr_Type (eh_Header h))))
     OR word_of_int (int (eh_PacketNumberLen h) - 1)"

lemma long_first_byte:
  assumes "ExtendedHeader_wf h"
  shows "IsLongHeaderPacket (first_byte h)" "first_byte h AND 0x40 \<noteq> 0" "unat (first_byte h AND 0x3) + 1 = eh_PacketNumberLen h"
    "Some (packetTypeOf (hdr_Version (eh_Header h)) (first_byte h)) = hdr_Type (eh_Header h)" "first_byte h AND 0xc = 0"
proof -
  have v: "hdr_Version (eh_Header h) = Version1 \<or> hdr_Version (eh_Header h) = Version2" and v12: "Version1 \<noteq> Version2"
    using assms by (auto simp: ExtendedHeader_wf_def SupportedVersions_def Version1_def Version2_def)
  have t: "hdr_Type (eh_Header h) \<in> {Some PacketTypeInitial, Some PacketTypeHandshake, Some PacketType0RTT}" "eh_PacketNumberLen h \<in> {1, 2, 3, 4}"
    using assms by (auto simp: ExtendedHeader_wf_def)
  show "IsLongHeaderPacket (first_byte h)" "first_byte h AND 0x40 \<noteq> 0" "unat (first_byte h AND 0x3) + 1 = eh_PacketNumberLen h"
    "Some (packetTypeOf (hdr_Version (eh_Header h)) (first_byte h)) = hdr_Type (eh_Header h)" "first_byte h AND 0xc = 0"
    using v t v12 by (auto simp: first_byte_def packetTypeBits_def packetTypeOf_def IsLongHeaderPacket_def Let_def)
qed

text \<open>What precedes the packet number, with the two bytes of the length field.\<close>

definition token_bytes :: "Header \<Rightarrow> byte list" where
  "token_bytes hdr = (if hdr_Type hdr = Some PacketTypeInitial then varint (len64 (hdr_Token hdr)) @ hdr_Token hdr else [])"

definition header_bytes :: "ExtendedHeader \<Rightarrow> byte list \<Rightarrow> byte list" where
  "header_bytes h lenb = (let hdr = eh_Header h in
     first_byte h # be_bytes 4 (uint (hdr_Version hdr)) @ [of_nat (length (hdr_DestConnectionID hdr))] @ hdr_DestConnectionID hdr
       @ [of_nat (length (hdr_SrcConnectionID hdr))] @ hdr_SrcConnectionID hdr @ token_bytes hdr @ lenb)"

definition length_bytes :: "ExtendedHeader \<Rightarrow> byte list" where
  "length_bytes h = (case quicvarint_AppendWithLen [] (to_u64 (hdr_Length (eh_Header h))) 2 of Ok e \<Rightarrow> e | _ \<Rightarrow> [])"

lemma AppendWithLen_prefix:
  assumes "i \<le> maxVarInt8" "quicvarint_AppendWithLen [] i len = Ok e"
  shows "quicvarint_AppendWithLen b i len = Ok (b @ e)"
  using assms by (auto simp: quicvarint_AppendWithLen_def Let_def split: if_splits)

lemma length_bytes_law:
  assumes "ExtendedHeader_wf h"
  shows "quicvarint_AppendWithLen b (to_u64 (hdr_Length (eh_Header h))) 2 = Ok (b @ length_bytes h)" "length (length_bytes h) = 2"
    "quicvarint_Read (length_bytes h @ r) = Ok (to_u64 (hdr_Length (eh_Header h)), r)"
proof -
  let ?l = "hdr_Length (eh_Header h)"
  have l: "0 \<le> ?l" "?l < 16384"
    using assms by (auto simp: ExtendedHeader_wf_def)
  then have fits: "fits_i ?l"
    by (simp add: fits_i_def)
  then have u: "to_u64 ?l \<le> maxVarInt8" "length (varint (to_u64 ?l)) \<le> 2"
    using fits_u_to_u64 [OF fits] length_varint_bounds(1,2) [OF fits] l by (cases "?l < 64"; auto simp: fits_u_def)+
  have "\<exists>e. quicvarint_AppendWithLen b (to_u64 ?l) 2 = Ok (b @ e) \<and> length e = 2 \<and> quicvarint_Read (e @ r) = Ok (to_u64 ?l, r)" for b r
    using quicvarint_AppendWithLen_Ok [OF u(1), of 2 b r] u(2) by simp
  from this [of b r] this [of "[]" r] show "quicvarint_AppendWithLen b (to_u64 ?l) 2 = Ok (b @ length_bytes h)" "length (length_bytes h) = 2"
    "quicvarint_Read (length_bytes h @ r) = Ok (to_u64 ?l, r)"
    using AppendWithLen_prefix [OF u(1), of 2 _ b] by (auto simp: length_bytes_def)
qed

lemma length_token_bytes:
  "ExtendedHeader_wf h \<Longrightarrow> addInt (addLen (Ok n) (len64 (hdr_Token (eh_Header h)))) (int (length (hdr_Token (eh_Header h))))
     = Ok (n + int (length (varint (len64 (hdr_Token (eh_Header h))))) + int (length (hdr_Token (eh_Header h))))"
  using fits_u_to_u64 [of "int (length (hdr_Token (eh_Header h)))"] by (simp add: ExtendedHeader_wf_def addLen_def addInt_def len64_def fits_u_def)

lemma long_header_append:
  assumes wf: "ExtendedHeader_wf h"
  shows "ExtendedHeader_Append b h (hdr_Version (eh_Header h))
      = Ok (b @ header_bytes h (length_bytes h) @ be_bytes (eh_PacketNumberLen h) (eh_PacketNumber h))"
    "ExtendedHeader_GetLength h = Ok (int (length (header_bytes h (length_bytes h) @ be_bytes (eh_PacketNumberLen h) (eh_PacketNumber h))))"
proof -
  have fu: "fits_u (len64 (hdr_Token (eh_Header h)))"
    using wf fits_u_to_u64 by (simp add: ExtendedHeader_wf_def len64_def)
  have nr: "hdr_Type (eh_Header h) \<noteq> Some PacketTypeRetry" "\<not> length (hdr_DestConnectionID (eh_Header h)) > MaxConnIDLen"
      "\<not> length (hdr_SrcConnectionID (eh_Header h)) > MaxConnIDLen" and pn: "eh_PacketNumberLen h \<in> {1, 2, 3, 4}"
    using wf by (auto simp: ExtendedHeader_wf_def)
  show "ExtendedHeader_Append b h (hdr_Version (eh_Header h))
      = Ok (b @ header_bytes h (length_bytes h) @ be_bytes (eh_PacketNumberLen h) (eh_PacketNumber h))"
    using nr fu length_bytes_law(1) [OF wf] appendPacketNumber_law [OF pn]
    by (simp add: ExtendedHeader_Append_def Let_def header_bytes_def token_bytes_def first_byte_def del: be_bytes_numeral)
  show "ExtendedHeader_GetLength h = Ok (int (length (header_bytes h (length_bytes h) @ be_bytes (eh_PacketNumberLen h) (eh_PacketNumber h))))"
    using length_token_bytes [OF wf] length_bytes_law(2) [OF wf]
    by (simp add: ExtendedHeader_GetLength_def Let_def header_bytes_def token_bytes_def)
qed

text \<open>The header a receiver gets.\<close>

definition received_header :: "ExtendedHeader \<Rightarrow> Header" where
  "received_header h = (eh_Header h)\<lparr>hdr_typeByte := first_byte h, hdr_parsedLen := int (length (header_bytes h (length_bytes h)))\<rparr>"

lemma readh_Ok [simp]: "readh h r (Ok (x, r')) k = k x r'"
  by (simp add: readh_def)

lemma parseTypeSpecific_law:
  assumes wf: "ExtendedHeader_wf h" and h0: "hdr_Type h0 = hdr_Type (eh_Header h)" "hdr_Token h0 = []"
    and r: "fits_i (int (length (token_bytes (eh_Header h) @ length_bytes h @ r)))"
  shows "parseTypeSpecific h0 (token_bytes (eh_Header h) @ length_bytes h @ r)
    = (h0\<lparr>hdr_Token := hdr_Token (eh_Header h), hdr_Length := hdr_Length (eh_Header h)\<rparr>, r, Ok ())"
proof -
  let ?t = "hdr_Token (eh_Header h)"
  have nr: "hdr_Type (eh_Header h) \<noteq> Some PacketTypeRetry" "fits_i (int (length ?t))" "fits_i (hdr_Length (eh_Header h))"
      "hdr_Type (eh_Header h) \<noteq> Some PacketTypeInitial \<Longrightarrow> ?t = []"
    using wf by (auto simp: ExtendedHeader_wf_def fits_i_def)
  have t: "quicvarint_Read (varint (len64 ?t) @ x) = Ok (len64 ?t, x)" "unat (len64 ?t) = length ?t" for x
    using nr(2) fits_u_to_u64 [OF nr(2)] by (simp_all add: len64_def fits_u_def unat_eq_nat_uint fits_i_uint)
  show ?thesis
  proof (cases "hdr_Type (eh_Header h) = Some PacketTypeInitial")
    case True
    then have "fits_i (int (length (?t @ length_bytes h @ r)))"
      using r by (simp add: token_bytes_def fits_i_def)
    then have "\<not> len64 ?t > to_u64 (int (length (?t @ length_bytes h @ r)))"
      using nr(2) by (simp add: len64_def word_less_def fits_i_uint)
    then show ?thesis
      using True nr h0 t length_bytes_law(3) [OF wf, of r] by (simp add: parseTypeSpecific_def Let_def token_bytes_def)
  next
    case False
    then show ?thesis
      using nr h0 length_bytes_law(3) [OF wf, of r] by (simp add: parseTypeSpecific_def Let_def token_bytes_def)
  qed
qed

lemma unat_conn_id_len: "length (c :: byte list) \<le> MaxConnIDLen \<Longrightarrow> unat (of_nat (length c) :: byte) = length c"
  by (simp add: MaxConnIDLen_def unat_of_nat)

lemma supported_versions:
  assumes "v \<in> set SupportedVersions"
  shows "v \<noteq> 0" "IsSupportedVersion SupportedVersions v"
  using assms by (auto simp: SupportedVersions_def Version1_def Version2_def)

lemma parseHeader_law:
  assumes wf: "ExtendedHeader_wf h" and len: "fits_i (int (length (header_bytes h (length_bytes h) @ r)))"
  shows "parseHeader (header_bytes h (length_bytes h) @ r) = (Some (received_header h), Ok ())"
proof -
  let ?hdr = "eh_Header h" and ?v = "hdr_Version (eh_Header h)"
  have c: "length (hdr_DestConnectionID ?hdr) \<le> MaxConnIDLen" "length (hdr_SrcConnectionID ?hdr) \<le> MaxConnIDLen" "?v \<in> set SupportedVersions"
    using wf by (auto simp: ExtendedHeader_wf_def)
  have v: "(word_of_int (be_val (be_bytes 4 (uint ?v))) :: Version) = ?v"
    using uint_bounded [of ?v] by (simp del: be_bytes_numeral)
  note bits = long_first_byte [OF wf]
  have r: "fits_i (int (length (token_bytes ?hdr @ length_bytes h @ r)))"
    using len by (simp add: header_bytes_def Let_def fits_i_def)
  define h0 where "h0 = (newHeader (first_byte h))\<lparr>hdr_Version := ?v, hdr_DestConnectionID := hdr_DestConnectionID ?hdr,
      hdr_SrcConnectionID := hdr_SrcConnectionID ?hdr, hdr_Type := hdr_Type ?hdr\<rparr>"
  have ts: "parseTypeSpecific h0 (token_bytes ?hdr @ length_bytes h @ r)
      = (h0\<lparr>hdr_Token := hdr_Token ?hdr, hdr_Length := hdr_Length ?hdr\<rparr>, r, Ok ())"
    by (rule parseTypeSpecific_law [OF wf _ _ r]) (simp_all add: h0_def newHeader_def)
  obtain t where t: "header_bytes h (length_bytes h) = first_byte h # t"
    by (simp add: header_bytes_def Let_def)
  then have "Header_parseLongHeader (newHeader (first_byte h)) (t @ r)
      = (h0\<lparr>hdr_Token := hdr_Token ?hdr, hdr_Length := hdr_Length ?hdr\<rparr>, r, Ok ())"
    using ts bits(2,4) supported_versions [OF c(3)]
    by (auto simp add: Header_parseLongHeader_def header_bytes_def Let_def v unat_conn_id_len c h0_def newHeader_def simp del: be_bytes_numeral)
  moreover have "h0\<lparr>hdr_Token := hdr_Token ?hdr, hdr_Length := hdr_Length ?hdr, hdr_parsedLen := int (length (header_bytes h (length_bytes h)))\<rparr>
      = received_header h"
    by (rule Header.equality) (simp_all add: h0_def newHeader_def received_header_def)
  ultimately show ?thesis
    unfolding t by (simp add: parseHeader_def)
qed

lemma ParsePacket_law:
  assumes wf: "ExtendedHeader_wf h" and p: "int (length p) = hdr_Length (eh_Header h)"
    and len: "fits_i (int (length (header_bytes h (length_bytes h) @ p @ rest)))"
  shows "ParsePacket (header_bytes h (length_bytes h) @ p @ rest) = (Some (received_header h), Ok (header_bytes h (length_bytes h) @ p, rest))"
proof -
  let ?b = "header_bytes h (length_bytes h)"
  have f: "(?b @ p @ rest) ! 0 = first_byte h" "?b \<noteq> []"
    by (simp_all add: header_bytes_def Let_def)
  have n: "nat (int (length ?b) + int (length p)) = length (?b @ p)"
    by simp
  have "take (length (?b @ p)) (?b @ p @ rest) = ?b @ p" "drop (length (?b @ p)) (?b @ p @ rest) = rest"
    by simp_all
  then show ?thesis
    using parseHeader_law [OF wf len] f long_first_byte(1) [OF wf] n
    by (simp add: ParsePacket_def received_header_def Let_def flip: p)
qed

lemma readPacketNumber_law:
  assumes "unat (eh_typeByte h0 AND 0x3) + 1 = pnLen" "pnLen \<in> {1, 2, 3, 4}"
  shows "readPacketNumber h0 (be_bytes pnLen pn @ r) = Ok (h0\<lparr>eh_PacketNumberLen := pnLen, eh_PacketNumber := pn mod 2 ^ (8 * pnLen)\<rparr>, r)"
proof -
  have "uint (word_of_int pn :: byte) = pn mod 256"
    by (simp add: uint_word_of_int)
  then show ?thesis
    using assms(2) pn_mod [of pnLen pn] unfolding readPacketNumber_def assms(1) Let_def
    by (auto simp del: be_bytes_numeral)
qed

lemma ParseExtended_law:
  assumes wf: "ExtendedHeader_wf h"
  shows "ParseExtended (received_header h) (header_bytes h (length_bytes h) @ be_bytes (eh_PacketNumberLen h) (eh_PacketNumber h) @ r)
    = Ok (\<lparr>eh_Header = received_header h, eh_typeByte = first_byte h, eh_KeyPhase = KeyPhaseUndefined,
           eh_PacketNumberLen = eh_PacketNumberLen h, eh_PacketNumber = eh_PacketNumber h mod 2 ^ (8 * eh_PacketNumberLen h),
           eh_parsedLen = int (length (header_bytes h (length_bytes h))) + int (eh_PacketNumberLen h)\<rparr>, None)"
proof -
  obtain t where t: "header_bytes h (length_bytes h) = first_byte h # t"
    by (simp add: header_bytes_def Let_def)
  then have seek: "nat (hdr_parsedLen (received_header h) - 1) = length t" "hdr_parsedLen (received_header h) = 1 + int (length t)"
    by (simp_all add: received_header_def)
  have pn: "eh_PacketNumberLen h \<in> {1, 2, 3, 4}"
    using wf by (simp add: ExtendedHeader_wf_def)
  have "unat (first_byte h AND 0x3) + 1 = eh_PacketNumberLen h" "first_byte h AND 0xc = 0"
    using long_first_byte [OF wf] by blast+
  then show ?thesis
    using readPacketNumber_law [OF _ pn] seek by (simp add: ParseExtended_def ExtendedHeader_parse_def t Let_def)
qed

text \<open>
  C9 (header-roundtrip). Long headers are read back: \<^verbatim>\<open>GetLength\<close> is the number of bytes \<^verbatim>\<open>Append\<close> writes;
  from a datagram with several packets \<^verbatim>\<open>ParsePacket\<close> cuts off the first one by its length field and
  returns the rest; and the header has all fields that were written, the packet number
  truncated to its length.
\<close>

theorem long_header_roundtrip:
  assumes wf: "ExtendedHeader_wf h" and payload: "int (length payload) = hdr_Length (eh_Header h) - int (eh_PacketNumberLen h)"
    and e: "ExtendedHeader_Append [] h (hdr_Version (eh_Header h)) = Ok e" and len: "fits_i (int (length (e @ payload @ rest)))"
  shows "ExtendedHeader_GetLength h = Ok (int (length e))
    \<and> (\<exists>hdr ext. ParsePacket (e @ payload @ rest) = (Some hdr, Ok (e @ payload, rest)) \<and> ParseExtended hdr (e @ payload) = Ok (ext, None)
        \<and> eh_Header ext = hdr \<and> hdr_Type hdr = hdr_Type (eh_Header h) \<and> hdr_Version hdr = hdr_Version (eh_Header h)
        \<and> hdr_DestConnectionID hdr = hdr_DestConnectionID (eh_Header h) \<and> hdr_SrcConnectionID hdr = hdr_SrcConnectionID (eh_Header h)
        \<and> hdr_Token hdr = hdr_Token (eh_Header h) \<and> hdr_Length hdr = hdr_Length (eh_Header h)
        \<and> eh_PacketNumberLen ext = eh_PacketNumberLen h \<and> eh_PacketNumber ext = eh_PacketNumber h mod 2 ^ (8 * eh_PacketNumberLen h)
        \<and> eh_parsedLen ext = int (length e))"
proof -
  let ?b = "header_bytes h (length_bytes h)" and ?pn = "be_bytes (eh_PacketNumberLen h) (eh_PacketNumber h)"
  have e': "e = ?b @ ?pn"
    using e long_header_append(1) [OF wf, of "[]"] by simp
  have p: "int (length (?pn @ payload)) = hdr_Length (eh_Header h)"
    using payload by simp
  have "ParsePacket (e @ payload @ rest) = (Some (received_header h), Ok (e @ payload, rest))"
    using ParsePacket_law [OF wf p, of rest] len by (simp add: e')
  moreover note ParseExtended_law [OF wf, of payload]
  moreover have "ExtendedHeader_GetLength h = Ok (int (length e))"
    using long_header_append(2) [OF wf] by (simp add: e')
  ultimately show ?thesis
    by (simp add: e' received_header_def)
qed

theorem long_header_roundtrip_witness:
  "\<exists>hdr ext. ParsePacket ([0xc1, 0, 0, 0, 1, 2, 0xab, 0xcd, 0, 1, 0xff, 0x40, 5, 0x12, 0x34] @ [1, 2, 3] @ [9, 9]) = (Some hdr, Ok ([0xc1, 0, 0, 0, 1, 2, 0xab, 0xcd, 0, 1, 0xff, 0x40, 5, 0x12, 0x34] @ [1, 2, 3], [9, 9]))
     \<and> ParseExtended hdr ([0xc1, 0, 0, 0, 1, 2, 0xab, 0xcd, 0, 1, 0xff, 0x40, 5, 0x12, 0x34] @ [1, 2, 3]) = Ok (ext, None)
     \<and> hdr_Token hdr = [0xff] \<and> eh_PacketNumber ext = 0x1234"
proof -
  define hdr where "hdr = \<lparr>hdr_typeByte = 0, hdr_Type = Some PacketTypeInitial, hdr_Version = Version1, hdr_SrcConnectionID = [],
    hdr_DestConnectionID = [0xab, 0xcd], hdr_Length = 5, hdr_Token = [0xff], hdr_parsedLen = 0\<rparr>"
  define h where "h = \<lparr>eh_Header = hdr, eh_typeByte = 0, eh_KeyPhase = KeyPhaseUndefined, eh_PacketNumberLen = 2, eh_PacketNumber = 0x1234, eh_parsedLen = 0\<rparr>"
  have "ExtendedHeader_Append [] h (hdr_Version (eh_Header h)) = Ok [0xc1, 0, 0, 0, 1, 2, 0xab, 0xcd, 0, 1, 0xff, 0x40, 5, 0x12, 0x34]"
    unfolding h_def hdr_def by code_simp
  moreover have "ExtendedHeader_wf h"
    by (simp add: h_def hdr_def ExtendedHeader_wf_def SupportedVersions_def MaxConnIDLen_def fits_i_def)
  ultimately show ?thesis
    using long_header_roundtrip [of h "[1, 2, 3]" _ "[9, 9]"] by (auto simp: h_def hdr_def fits_i_def)
qed

end
