(* ===== verification/ECNTracker.thy ===== *)
theory ECNTracker
  imports ReceivedPackets Protocol
begin

text \<open>
  Validation of explicit congestion notification (\<^verbatim>\<open>internal/ackhandler/ecn.go\<close>): the tracker
  with all its operations, a step relation for a path on which it is used, and the proof that
  the tracker reconstructs how each packet was marked and draws the right conclusions. The
  calls of the tracer and the logger are left out.
\<close>

section \<open>The tracker\<close>

datatype ecnState = ecnStateInitial | ecnStateTesting | ecnStateUnknown | ecnStateCapable | ecnStateFailed

definition numECNTestingPackets :: int where
  "numECNTestingPackets = 10"

record ecnTracker =
  ecn_state :: ecnState
  ecn_numSentTesting :: byte
  ecn_numLostTesting :: byte
  ecn_firstTestingPacket :: PacketNumber
  ecn_lastTestingPacket :: PacketNumber
  ecn_firstCapablePacket :: PacketNumber
  ecn_numSentECT0 :: int
  ecn_numSentECT1 :: int
  ecn_numAckedECT0 :: int
  ecn_numAckedECT1 :: int
  ecn_numAckedECNCE :: int

definition newECNTracker :: ecnTracker where
  "newECNTracker = \<lparr>ecn_state = ecnStateInitial, ecn_numSentTesting = 0, ecn_numLostTesting = 0,
     ecn_firstTestingPacket = InvalidPacketNumber, ecn_lastTestingPacket = InvalidPacketNumber,
     ecn_firstCapablePacket = InvalidPacketNumber, ecn_numSentECT0 = 0, ecn_numSentECT1 = 0,
     ecn_numAckedECT0 = 0, ecn_numAckedECT1 = 0, ecn_numAckedECNCE = 0\<rparr>"

text \<open>The part of \<^verbatim>\<open>SentPacket\<close> after the marks are counted.\<close>

definition ecn_countTesting :: "ecnTracker \<Rightarrow> PacketNumber \<Rightarrow> ecnTracker" where
  "ecn_countTesting e pn =
     (let e = (if ecn_state e = ecnStateCapable \<and> ecn_firstCapablePacket e = InvalidPacketNumber
               then e\<lparr>ecn_firstCapablePacket := pn\<rparr> else e)
      in if ecn_state e \<noteq> ecnStateTesting then e
         else
           let e = e\<lparr>ecn_numSentTesting := ecn_numSentTesting e + 1\<rparr>;
               e = (if ecn_firstTestingPacket e = InvalidPacketNumber then e\<lparr>ecn_firstTestingPacket := pn\<rparr> else e)
           in if ecn_numSentECT0 e + ecn_numSentECT1 e \<ge> numECNTestingPackets
              then e\<lparr>ecn_state := ecnStateUnknown, ecn_lastTestingPacket := pn\<rparr> else e)"

definition ecn_SentPacket :: "ecnTracker \<Rightarrow> PacketNumber \<Rightarrow> ECN \<Rightarrow> ecnTracker outcome" where
  "ecn_SentPacket e pn ecn =
     (case ecn of
        ECNNon \<Rightarrow> Ok e
      | ECT0 \<Rightarrow> Ok (ecn_countTesting (e\<lparr>ecn_numSentECT0 := ecn_numSentECT0 e + 1\<rparr>) pn)
      | ECT1 \<Rightarrow> Ok (ecn_countTesting (e\<lparr>ecn_numSentECT1 := ecn_numSentECT1 e + 1\<rparr>) pn)
      | ECNUnsupported \<Rightarrow>
          if ecn_state e \<noteq> ecnStateFailed then Panic ''didn't expect ECN to be unsupported''
          else Ok (ecn_countTesting e pn)
      | ECNCE \<Rightarrow> Panic ''sent packet with unexpected ECN marking'')"

definition ecn_Mode :: "ecnTracker \<Rightarrow> ecnTracker \<times> ECN" where
  "ecn_Mode e =
     (let e = (if ecn_state e = ecnStateInitial then e\<lparr>ecn_state := ecnStateTesting\<rparr> else e)
      in (e, case ecn_state e of
               ecnStateInitial \<Rightarrow> ECNNon
             | ecnStateTesting \<Rightarrow> ECT0
             | ecnStateCapable \<Rightarrow> ECT0
             | ecnStateUnknown \<Rightarrow> ECNNon
             | ecnStateFailed \<Rightarrow> ECNNon))"

definition failIfMangled :: "ecnTracker \<Rightarrow> ecnTracker" where
  "failIfMangled e =
     (let numAckedECNCE = ecn_numAckedECNCE e + uint (ecn_numLostTesting e)
      in if ecn_numSentECT0 e + ecn_numSentECT1 e > numAckedECNCE then e else e\<lparr>ecn_state := ecnStateFailed\<rparr>)"

definition ecnMarking :: "ecnTracker \<Rightarrow> PacketNumber \<Rightarrow> ECN" where
  "ecnMarking e pn =
     (if pn < ecn_firstTestingPacket e \<or> ecn_firstTestingPacket e = InvalidPacketNumber then ECNNon
      else if pn < ecn_lastTestingPacket e \<or> ecn_lastTestingPacket e = InvalidPacketNumber then ECT0
      else if pn < ecn_firstCapablePacket e \<or> ecn_firstCapablePacket e = InvalidPacketNumber then ECNNon
      else ECT0)"

definition isTestingPacket :: "ecnTracker \<Rightarrow> PacketNumber \<Rightarrow> bool" where
  "isTestingPacket e pn \<longleftrightarrow>
     (if ecn_firstTestingPacket e = InvalidPacketNumber then False
      else pn \<ge> ecn_firstTestingPacket e
        \<and> (pn \<le> ecn_lastTestingPacket e \<or> ecn_lastTestingPacket e = InvalidPacketNumber))"

definition ecn_LostPacket :: "ecnTracker \<Rightarrow> PacketNumber \<Rightarrow> ecnTracker" where
  "ecn_LostPacket e pn =
     (if ecn_state e \<noteq> ecnStateTesting \<and> ecn_state e \<noteq> ecnStateUnknown then e
      else if \<not> isTestingPacket e pn then e
      else
        let e = e\<lparr>ecn_numLostTesting := ecn_numLostTesting e + 1\<rparr>
        in if ecn_state e \<noteq> ecnStateUnknown then e
           else if ecn_numLostTesting e \<ge> ecn_numSentTesting e then e\<lparr>ecn_state := ecnStateFailed\<rparr>
           else failIfMangled e)"

text \<open>The number of packets of a list for which the tracker computes a marking.\<close>

definition countMarked :: "ecnTracker \<Rightarrow> ECN \<Rightarrow> PacketNumber list \<Rightarrow> int" where
  "countMarked e ecn packets = int (length (filter (\<lambda>pn. ecnMarking e pn = ecn) packets))"

text \<open>The part of \<^verbatim>\<open>HandleNewlyAcked\<close> after the counters are accepted and stored.\<close>

definition ecn_confirm :: "ecnTracker \<Rightarrow> PacketNumber list \<Rightarrow> int \<Rightarrow> int \<Rightarrow> int \<Rightarrow> ecnTracker \<times> bool" where
  "ecn_confirm e packets newECT0 newECT1 newECNCE =
     (let e = (if ecn_state e = ecnStateUnknown then failIfMangled e else e)
      in if ecn_state e = ecnStateFailed then (e, False)
         else
           let e = (if (ecn_state e = ecnStateTesting \<or> ecn_state e = ecnStateUnknown)
                       \<and> list_ex (isTestingPacket e) packets \<and> (newECT0 > 0 \<or> newECT1 > 0)
                    then e\<lparr>ecn_state := ecnStateCapable\<rparr> else e)
           in (e, ecn_state e = ecnStateCapable \<and> newECNCE > 0))"

definition HandleNewlyAcked :: "ecnTracker \<Rightarrow> PacketNumber list \<Rightarrow> int \<Rightarrow> int \<Rightarrow> int \<Rightarrow> ecnTracker \<times> bool" where
  "HandleNewlyAcked e packets ect0 ect1 ecnce =
     (let fail = (e\<lparr>ecn_state := ecnStateFailed\<rparr>, False) in
      if ecn_state e = ecnStateFailed then (e, False)
      else if ect0 > ecn_numSentECT0 e \<or> ect1 > ecn_numSentECT1 e then fail
      else
        let ackedECT0 = countMarked e ECT0 packets; ackedECT1 = countMarked e ECT1 packets in
        if (ackedECT0 > 0 \<or> ackedECT1 > 0) \<and> ect0 = 0 \<and> ect1 = 0 \<and> ecnce = 0 then fail
        else
          let newECT0 = ect0 - ecn_numAckedECT0 e; newECT1 = ect1 - ecn_numAckedECT1 e;
              newECNCE = ecnce - ecn_numAckedECNCE e in
          if newECT0 < 0 \<or> newECT1 < 0 \<or> newECNCE < 0 then fail
          else if newECT0 + newECNCE < ackedECT0 then fail
          else if newECT1 + newECNCE < ackedECT1 then fail
          else ecn_confirm (e\<lparr>ecn_numAckedECT0 := ect0, ecn_numAckedECT1 := ect1, ecn_numAckedECNCE := ecnce\<rparr>)
                 packets newECT0 newECT1 newECNCE)"

section \<open>A path\<close>

text \<open>
  A run of the tracker: packets are sent with increasing numbers and the marking that \<^verbatim>\<open>Mode\<close>
  asks for, and are lost or acknowledged, the latter with any counters of the peer. The packets
  sent with their markings and the packets lost are kept.
\<close>

record ecn_run =
  er_tracker :: ecnTracker
  er_sent :: "(PacketNumber \<times> ECN) list"
  er_lost :: "PacketNumber list"

definition ecn_init :: ecn_run where
  "ecn_init = \<lparr>er_tracker = newECNTracker, er_sent = [], er_lost = []\<rparr>"

inductive ecn_step :: "ecn_run \<Rightarrow> ecn_run \<Rightarrow> bool" where
  send: "0 \<le> pn \<Longrightarrow> \<forall>q \<in> set (er_sent r). fst q < pn \<Longrightarrow> ecn_Mode (er_tracker r) = (e, m) \<Longrightarrow> ecn_SentPacket e pn m = Ok e'
    \<Longrightarrow> ecn_step r (r\<lparr>er_tracker := e', er_sent := er_sent r @ [(pn, m)]\<rparr>)"
| lose: "pn \<in> fst ` set (er_sent r) \<Longrightarrow> pn \<notin> set (er_lost r)
    \<Longrightarrow> ecn_step r (r\<lparr>er_tracker := ecn_LostPacket (er_tracker r) pn, er_lost := pn # er_lost r\<rparr>)"
| ack: "set packets \<subseteq> fst ` set (er_sent r) \<Longrightarrow> 0 \<le> ect0 \<Longrightarrow> 0 \<le> ect1 \<Longrightarrow> 0 \<le> ecnce
    \<Longrightarrow> HandleNewlyAcked (er_tracker r) packets ect0 ect1 ecnce = (e, congested)
    \<Longrightarrow> ecn_step r (r\<lparr>er_tracker := e\<rparr>)"

text \<open>
  The shape of what was sent: first marked testing packets, then unmarked ones while the outcome
  is unknown, then marked ones again.
\<close>

definition marked_as :: "ECN \<Rightarrow> (PacketNumber \<times> ECN) list \<Rightarrow> bool" where
  "marked_as m s \<longleftrightarrow> (\<forall>q \<in> set s. snd q = m)"

definition first_pn :: "(PacketNumber \<times> ECN) list \<Rightarrow> PacketNumber" where
  "first_pn s = (if s = [] then InvalidPacketNumber else fst (hd s))"

definition count_lost :: "ecn_run \<Rightarrow> (PacketNumber \<times> ECN) list \<Rightarrow> nat" where
  "count_lost r A = length (filter (\<lambda>pn. pn \<in> fst ` set A) (er_lost r))"

definition ecn_layout :: "ecnTracker \<Rightarrow> (PacketNumber \<times> ECN) list \<Rightarrow> (PacketNumber \<times> ECN) list \<Rightarrow> (PacketNumber \<times> ECN) list \<Rightarrow> bool" where
  "ecn_layout e A N C \<longleftrightarrow> marked_as ECT0 A \<and> marked_as ECNNon N \<and> marked_as ECT0 C
     \<and> ecn_firstTestingPacket e = first_pn A
     \<and> (if ecn_lastTestingPacket e = InvalidPacketNumber then N = [] \<and> C = []
        else A \<noteq> [] \<and> ecn_lastTestingPacket e = fst (last A) \<and> ecn_firstCapablePacket e = first_pn C)"

definition ecn_phase :: "ecnTracker \<Rightarrow> nat \<Rightarrow> (PacketNumber \<times> ECN) list \<Rightarrow> (PacketNumber \<times> ECN) list \<Rightarrow> bool" where
  "ecn_phase e lost A C \<longleftrightarrow>
     (case ecn_state e of
        ecnStateInitial \<Rightarrow> A = [] \<and> ecn_lastTestingPacket e = InvalidPacketNumber
          \<and> ecn_firstCapablePacket e = InvalidPacketNumber \<and> ecn_numSentTesting e = 0 \<and> ecn_numLostTesting e = 0
      | ecnStateTesting \<Rightarrow> length A < 10 \<and> ecn_lastTestingPacket e = InvalidPacketNumber
          \<and> ecn_firstCapablePacket e = InvalidPacketNumber
          \<and> unat (ecn_numSentTesting e) = length A \<and> unat (ecn_numLostTesting e) = lost
      | ecnStateUnknown \<Rightarrow> length A = 10 \<and> ecn_lastTestingPacket e \<noteq> InvalidPacketNumber \<and> C = []
          \<and> unat (ecn_numSentTesting e) = 10 \<and> unat (ecn_numLostTesting e) = lost
      | ecnStateCapable \<Rightarrow> A \<noteq> []
      | ecnStateFailed \<Rightarrow> False)"

definition ecn_inv :: "ecn_run \<Rightarrow> bool" where
  "ecn_inv r \<longleftrightarrow>
     (let e = er_tracker r in
      sorted_wrt (<) (map fst (er_sent r)) \<and> (\<forall>q \<in> set (er_sent r). 0 \<le> fst q)
      \<and> distinct (er_lost r) \<and> set (er_lost r) \<subseteq> fst ` set (er_sent r)
      \<and> ecn_numSentECT0 e = int (length (filter (\<lambda>q. snd q = ECT0) (er_sent r)))
      \<and> ecn_numSentECT1 e = 0
      \<and> 0 \<le> ecn_numAckedECT0 e \<and> 0 \<le> ecn_numAckedECNCE e \<and> ecn_numAckedECT1 e = 0
      \<and> (ecn_state e \<noteq> ecnStateFailed
           \<longrightarrow> (\<exists>A N C. er_sent r = A @ N @ C \<and> ecn_layout e A N C \<and> ecn_phase e (count_lost r A) A C)))"

lemma ecn_init_inv: "ecn_inv ecn_init"
  by (simp add: ecn_inv_def ecn_init_def newECNTracker_def ecn_layout_def ecn_phase_def marked_as_def first_pn_def count_lost_def)

lemma count_lost_le:
  assumes "distinct (er_lost r)"
  shows "count_lost r A \<le> length A"
proof -
  have "count_lost r A = card (set (filter (\<lambda>pn. pn \<in> fst ` set A) (er_lost r)))"
    using distinct_card [OF distinct_filter [OF assms]] by (simp only: count_lost_def)
  also have "\<dots> \<le> card (fst ` set A)"
    by (rule card_mono) auto
  also have "\<dots> \<le> length A"
    by (meson card_image_le card_length le_trans finite_set)
  finally show ?thesis .
qed

text \<open>The tracker reconstructs the marking of a packet, except for the last testing packet.\<close>

lemma ecnMarking_law:
  assumes layout: "ecn_layout e A N C" and sorted: "sorted_wrt (<) (map fst (A @ N @ C))" and pos: "\<forall>q \<in> set (A @ N @ C). 0 \<le> fst q"
    and q: "(pn, m) \<in> set (A @ N @ C)"
  shows "ecnMarking e pn = (if pn = ecn_lastTestingPacket e then ECNNon else m)"
proof -
  have ord: "\<forall>a \<in> set A. \<forall>n \<in> set N. fst a < fst n" "\<forall>a \<in> set A. \<forall>n \<in> set C. fst a < fst n"
    "\<forall>a \<in> set N. \<forall>n \<in> set C. fst a < fst n"
    using sorted by (auto simp: sorted_wrt_append)
  have hd_le: "\<forall>a \<in> set xs. fst (hd xs) \<le> fst a" if "sorted_wrt (<) (map fst xs)" for xs :: "(PacketNumber \<times> ECN) list"
    using that by (cases xs) (auto simp: less_imp_le)
  have hdA: "\<forall>a \<in> set A. fst (hd A) \<le> fst a" and hdC: "\<forall>a \<in> set C. fst (hd C) \<le> fst a"
    using hd_le [of A] hd_le [of C] sorted by (auto simp: sorted_wrt_append)
  have lastA: "fst a < fst (last A)" if a: "a \<in> set A" "fst a \<noteq> fst (last A)" for a
  proof -
    obtain B l where "A = B @ [l]"
      using a by (cases A rule: rev_cases) auto
    then show ?thesis
      using a sorted by (auto simp: sorted_wrt_append)
  qed
  have marks: "marked_as ECT0 A" "marked_as ECNNon N" "marked_as ECT0 C"
    using layout by (simp_all add: ecn_layout_def)
  consider (A) "(pn, m) \<in> set A" | (N) "(pn, m) \<in> set N" | (C) "(pn, m) \<in> set C"
    using q by auto
  then show ?thesis
  proof cases
    case A
    then have "A \<noteq> []"
      by auto
    then have "0 \<le> fst (hd A)"
      using pos by (simp add: ball_Un)
    moreover have "ecn_firstTestingPacket e = fst (hd A)" "fst (hd A) \<le> pn" "m = ECT0"
      using A \<open>A \<noteq> []\<close> layout hdA marks by (auto simp: ecn_layout_def first_pn_def marked_as_def)
    moreover have "pn < ecn_lastTestingPacket e"
      if "ecn_lastTestingPacket e \<noteq> InvalidPacketNumber" "pn \<noteq> ecn_lastTestingPacket e"
      using lastA [OF A] that layout by (auto simp: ecn_layout_def)
    moreover have "pn < fst (hd C)" if "C \<noteq> []"
      using A that ord(2) [rule_format, of "(pn, m)" "hd C"] by simp
    moreover have "ecn_firstCapablePacket e = first_pn C" if "ecn_lastTestingPacket e \<noteq> InvalidPacketNumber"
      using that layout by (simp add: ecn_layout_def)
    ultimately show ?thesis
      by (auto simp: ecnMarking_def first_pn_def InvalidPacketNumber_def)
  next
    case N
    then have l: "ecn_lastTestingPacket e \<noteq> InvalidPacketNumber" "A \<noteq> []"
      "ecn_lastTestingPacket e = fst (last A)" "ecn_firstCapablePacket e = first_pn C" "m = ECNNon"
      using layout marks by (auto simp: ecn_layout_def marked_as_def split: if_splits)
    moreover have "fst (last A) < pn"
      using N l(2) ord(1) [rule_format, of "last A" "(pn, m)"] by simp
    moreover have "pn < fst (hd C)" if "C \<noteq> []"
      using N that ord(3) [rule_format, of "(pn, m)" "hd C"] by simp
    ultimately show ?thesis
      by (auto simp: ecnMarking_def first_pn_def)
  next
    case C
    then have l: "ecn_lastTestingPacket e \<noteq> InvalidPacketNumber" "A \<noteq> []" "ecn_firstTestingPacket e = fst (hd A)"
      "ecn_lastTestingPacket e = fst (last A)" "ecn_firstCapablePacket e = fst (hd C)" "m = ECT0"
      using layout marks by (auto simp: ecn_layout_def marked_as_def first_pn_def split: if_splits)
    moreover have "fst (last A) < pn" "fst (hd A) < pn" "fst (hd C) \<le> pn"
      using C l(2) hdC ord(2) [rule_format, of "last A" "(pn, m)"] ord(2) [rule_format, of "hd A" "(pn, m)"] by auto
    moreover have "C \<noteq> []"
      using C by auto
    then have "0 \<le> fst (hd A)" "0 \<le> fst (hd C)"
      using l(2) pos by (simp_all add: ball_Un)
    ultimately show ?thesis
      by (simp add: ecnMarking_def InvalidPacketNumber_def)
  qed
qed


lemma count_lost_snoc:
  assumes "set (er_lost r) \<subseteq> fst ` set (er_sent r)" "\<forall>q \<in> set (er_sent r). fst q < pn"
  shows "count_lost (r\<lparr>er_tracker := e, er_sent := s\<rparr>) (A @ [(pn, m)]) = count_lost r A"
proof -
  have "pn \<notin> set (er_lost r)"
    using assms by auto
  then have "filter (\<lambda>p. p \<in> fst ` set (A @ [(pn, m)])) (er_lost r) = filter (\<lambda>p. p \<in> fst ` set A) (er_lost r)"
    by (intro filter_cong) auto
  then show ?thesis
    by (simp add: count_lost_def)
qed

lemma count_lost_same [simp]: "count_lost (r\<lparr>er_tracker := e, er_sent := s\<rparr>) A = count_lost r A" "count_lost (r\<lparr>er_tracker := e\<rparr>) A = count_lost r A"
  by (simp_all add: count_lost_def)

lemma unat_inc_byte: "unat (b :: byte) = n \<Longrightarrow> n < 255 \<Longrightarrow> unat (b + 1) = Suc n"
  by (simp add: unat_word_ariths)

lemma ecn_send_shape:
  assumes layout: "ecn_layout e A N C" and phase: "ecn_phase e lost A C" and pn: "0 \<le> pn" and pos: "\<forall>q \<in> set (A @ N @ C). 0 \<le> fst q"
    and mode: "ecn_Mode e = (e1, m)" and sent: "ecn_SentPacket e1 pn m = Ok e'"
    and count: "ecn_numSentECT0 e = int (length (filter (\<lambda>q. snd q = ECT0) (A @ N @ C)))" "ecn_numSentECT1 e = 0"
    and lost: "ecn_state e = ecnStateInitial \<Longrightarrow> lost = 0"
  shows "\<exists>A' N' C'. (A @ N @ C) @ [(pn, m)] = A' @ N' @ C' \<and> (A' = A \<or> A' = A @ [(pn, m)]) \<and> ecn_layout e' A' N' C'
    \<and> ecn_phase e' lost A' C'"
proof (cases "ecn_state e")
  case ecnStateInitial
  then have "A = []" "N = []" "C = []" "ecn_numSentECT0 e = 0"
    using layout phase count by (simp_all add: ecn_layout_def ecn_phase_def)
  then show ?thesis
    using ecnStateInitial layout phase mode sent count pn lost
    by (intro exI [of _ "[(pn, m)]"] exI [of _ "[]"])
      (auto simp: ecn_Mode_def ecn_SentPacket_def ecn_countTesting_def Let_def ecn_layout_def ecn_phase_def marked_as_def first_pn_def
        numECNTestingPackets_def InvalidPacketNumber_def)
next
  case ecnStateTesting
  then have e: "N = []" "C = []" "length A < 10" "unat (ecn_numSentTesting e) = length A" "ecn_lastTestingPacket e = InvalidPacketNumber"
    "filter (\<lambda>q. snd q = ECT0) A = A"
    using layout phase by (auto simp: ecn_layout_def ecn_phase_def marked_as_def)
  have "unat (ecn_numSentTesting e + 1) = Suc (length A)"
    using e by (intro unat_inc_byte) auto
  moreover have f: "ecn_firstTestingPacket e = InvalidPacketNumber \<longleftrightarrow> A = []" "ecn_firstTestingPacket e = first_pn A"
    using layout pos by (cases A; auto simp: ecn_layout_def first_pn_def InvalidPacketNumber_def)+
  have m: "m = ECT0" "e' = ecn_countTesting (e\<lparr>ecn_numSentECT0 := int (length A) + 1\<rparr>) pn"
    using ecnStateTesting e mode sent count by (auto simp: ecn_Mode_def ecn_SentPacket_def)
  ultimately have "ecn_layout e' (A @ [(pn, m)]) [] []" "ecn_phase e' lost (A @ [(pn, m)]) []"
    unfolding m using ecnStateTesting e layout phase count f pn
    by (auto simp: ecn_countTesting_def Let_def ecn_layout_def ecn_phase_def marked_as_def first_pn_def
        numECNTestingPackets_def InvalidPacketNumber_def)
  then show ?thesis
    using e by (intro exI [of _ "A @ [(pn, m)]"] exI [of _ "[]"]) simp
next
  case ecnStateUnknown
  then show ?thesis
    using layout phase mode sent
    by (intro exI [of _ A] exI [of _ "N @ [(pn, m)]"] exI [of _ "[]"])
      (auto simp: ecn_Mode_def ecn_SentPacket_def ecn_layout_def ecn_phase_def marked_as_def)
next
  case ecnStateCapable
  then have m: "m = ECT0" "A \<noteq> []" "e' = e\<lparr>ecn_numSentECT0 := ecn_numSentECT0 e + 1,
      ecn_firstCapablePacket := if ecn_firstCapablePacket e = InvalidPacketNumber then pn else ecn_firstCapablePacket e\<rparr>"
    using mode sent phase by (auto simp: ecn_Mode_def ecn_SentPacket_def ecn_countTesting_def ecn_phase_def)
  show ?thesis
  proof (cases "ecn_lastTestingPacket e = InvalidPacketNumber")
    case True
    then show ?thesis
      unfolding m(3) using ecnStateCapable layout m(1,2)
      by (intro exI [of _ "A @ [(pn, m)]"] exI [of _ "[]"]) (simp add: ecn_layout_def ecn_phase_def marked_as_def first_pn_def)
  next
    case False
    then have "ecn_firstCapablePacket e = InvalidPacketNumber \<longleftrightarrow> C = []"
      using layout pos by (cases C) (auto simp: ecn_layout_def first_pn_def InvalidPacketNumber_def)
    then show ?thesis
      unfolding m(3) using False ecnStateCapable layout m(1,2)
      by (intro exI [of _ A] exI [of _ N] exI [of _ "C @ [(pn, m)]"]) (auto simp: ecn_layout_def ecn_phase_def marked_as_def first_pn_def)
  qed
next
  case ecnStateFailed
  then show ?thesis
    using phase by (simp add: ecn_phase_def)
qed


lemma isTestingPacket_law:
  assumes layout: "ecn_layout e A N C" and sorted: "sorted_wrt (<) (map fst (A @ N @ C))" and pos: "\<forall>q \<in> set (A @ N @ C). 0 \<le> fst q"
    and q: "pn \<in> fst ` set (A @ N @ C)"
  shows "isTestingPacket e pn \<longleftrightarrow> pn \<in> fst ` set A"
proof (cases "A = []")
  case True
  then show ?thesis
    using layout by (auto simp: isTestingPacket_def ecn_layout_def first_pn_def)
next
  case False
  then obtain a B l where A: "A = a # B" "last A = l" "l \<in> set A"
    by (cases A) auto
  then have f: "ecn_firstTestingPacket e = fst a" "ecn_firstTestingPacket e \<noteq> InvalidPacketNumber" "\<forall>x \<in> set A. fst a \<le> fst x"
    using layout pos sorted by (auto simp: ecn_layout_def first_pn_def InvalidPacketNumber_def sorted_wrt_append less_imp_le)
  have l: "\<forall>x \<in> set A. fst x \<le> fst l" "\<forall>x \<in> set (N @ C). fst l < fst x"
  proof -
    obtain D where "A = D @ [l]"
      using A False by (metis append_butlast_last_id)
    then show "\<forall>x \<in> set A. fst x \<le> fst l" "\<forall>x \<in> set (N @ C). fst l < fst x"
      using sorted by (auto simp: sorted_wrt_append less_imp_le)
  qed
  show ?thesis
  proof (cases "ecn_lastTestingPacket e = InvalidPacketNumber")
    case True
    then show ?thesis
      using layout f q by (auto simp: isTestingPacket_def ecn_layout_def)
  next
    case False
    then have "ecn_lastTestingPacket e = fst l"
      using layout A by (simp add: ecn_layout_def)
    then have t: "isTestingPacket e pn \<longleftrightarrow> fst a \<le> pn \<and> pn \<le> fst l"
      using f False by (auto simp: isTestingPacket_def)
    obtain x where x: "pn = fst x" "x \<in> set (A @ N @ C)"
      using q by blast
    show ?thesis
    proof (cases "x \<in> set A")
      case True
      then show ?thesis
        using t [unfolded x(1)] x(1) f(3) l(1) by simp
    next
      case False
      then have "fst l < fst x"
        using x(2) l(2) by auto
      then have "fst x \<notin> fst ` set A"
        using l(1) by fastforce
      then show ?thesis
        using t [unfolded x(1)] x(1) \<open>fst l < fst x\<close> by auto
    qed
  qed
qed

lemma count_lost_Cons:
  "count_lost (r\<lparr>er_tracker := e, er_lost := pn # er_lost r\<rparr>) A = (if pn \<in> fst ` set A then Suc (count_lost r A) else count_lost r A)"
  by (simp add: count_lost_def)

lemma failIfMangled_cases: "failIfMangled e = e \<or> ecn_state (failIfMangled e) = ecnStateFailed"
  by (simp add: failIfMangled_def)

lemma failIfMangled_fields [simp]:
  "ecn_numSentECT0 (failIfMangled e) = ecn_numSentECT0 e" "ecn_numSentECT1 (failIfMangled e) = ecn_numSentECT1 e"
  "ecn_numAckedECT0 (failIfMangled e) = ecn_numAckedECT0 e" "ecn_numAckedECT1 (failIfMangled e) = ecn_numAckedECT1 e"
  "ecn_numAckedECNCE (failIfMangled e) = ecn_numAckedECNCE e"
  by (simp_all add: failIfMangled_def Let_def)

lemma ecn_LostPacket_fields [simp]:
  "ecn_numSentECT0 (ecn_LostPacket e pn) = ecn_numSentECT0 e" "ecn_numSentECT1 (ecn_LostPacket e pn) = ecn_numSentECT1 e"
  "ecn_numAckedECT0 (ecn_LostPacket e pn) = ecn_numAckedECT0 e" "ecn_numAckedECT1 (ecn_LostPacket e pn) = ecn_numAckedECT1 e"
  "ecn_numAckedECNCE (ecn_LostPacket e pn) = ecn_numAckedECNCE e"
  by (simp_all add: ecn_LostPacket_def Let_def)

lemma ecn_lose_shape:
  assumes layout: "ecn_layout e A N C" and phase: "ecn_phase e lost A C" and test: "isTestingPacket e pn \<longleftrightarrow> pn \<in> fst ` set A"
    and lost: "lost < 255" and "ecn_state (ecn_LostPacket e pn) \<noteq> ecnStateFailed"
  shows "ecn_layout (ecn_LostPacket e pn) A N C \<and> ecn_phase (ecn_LostPacket e pn) (if pn \<in> fst ` set A then Suc lost else lost) A C"
proof (cases "ecn_state e = ecnStateTesting \<or> ecn_state e = ecnStateUnknown")
  case False
  then have "ecn_LostPacket e pn = e"
    by (simp add: ecn_LostPacket_def)
  then show ?thesis
    using layout phase False assms(5) by (simp add: ecn_phase_def split: ecnState.splits)
next
  case True
  show ?thesis
  proof (cases "pn \<in> fst ` set A")
    case False
    then have "ecn_LostPacket e pn = e"
      using test by (simp add: ecn_LostPacket_def)
    then show ?thesis
      using layout phase False by simp
  next
    case inA: True
    define e' where "e' = e\<lparr>ecn_numLostTesting := ecn_numLostTesting e + 1\<rparr>"
    have e': "ecn_LostPacket e pn = e'"
      using True inA test assms(5) failIfMangled_cases [of e'] by (auto simp: ecn_LostPacket_def Let_def e'_def split: if_splits)
    have "unat (ecn_numLostTesting e + 1) = Suc lost"
      using True phase lost by (intro unat_inc_byte) (auto simp: ecn_phase_def)
    then show ?thesis
      unfolding e' using True inA layout phase by (auto simp: e'_def ecn_layout_def ecn_phase_def)
  qed
qed

text \<open>What an acknowledgement does to the tracker unless validation fails.\<close>

lemma HandleNewlyAcked_law:
  assumes "HandleNewlyAcked e packets ect0 ect1 ecnce = (e', congested)" "ecn_state e' \<noteq> ecnStateFailed"
  shows "e' = e\<lparr>ecn_numAckedECT0 := ect0, ecn_numAckedECT1 := ect1, ecn_numAckedECNCE := ecnce, ecn_state := ecn_state e'\<rparr>"
    and "ecn_state e' = ecn_state e \<or> ecn_state e' = ecnStateCapable \<and> ecn_state e \<in> {ecnStateTesting, ecnStateUnknown}
           \<and> list_ex (isTestingPacket e) packets \<and> (ecn_numAckedECT0 e < ect0 \<or> ecn_numAckedECT1 e < ect1)"
    and "ect0 \<le> ecn_numSentECT0 e" "ect1 \<le> ecn_numSentECT1 e"
    and "congested \<longleftrightarrow> ecn_state e' = ecnStateCapable \<and> ecn_numAckedECNCE e < ecnce"
proof -
  let ?e = "e\<lparr>ecn_numAckedECT0 := ect0, ecn_numAckedECT1 := ect1, ecn_numAckedECNCE := ecnce\<rparr>"
  have c: "ecn_confirm ?e packets (ect0 - ecn_numAckedECT0 e) (ect1 - ecn_numAckedECT1 e) (ecnce - ecn_numAckedECNCE e) = (e', congested)"
      "ect0 \<le> ecn_numSentECT0 e" "ect1 \<le> ecn_numSentECT1 e"
    using assms by (auto simp: HandleNewlyAcked_def Let_def split: if_splits)
  have t: "isTestingPacket ?e = isTestingPacket e"
    by (auto simp: isTestingPacket_def fun_eq_iff)
  show "e' = e\<lparr>ecn_numAckedECT0 := ect0, ecn_numAckedECT1 := ect1, ecn_numAckedECNCE := ecnce, ecn_state := ecn_state e'\<rparr>"
    "ecn_state e' = ecn_state e \<or> ecn_state e' = ecnStateCapable \<and> ecn_state e \<in> {ecnStateTesting, ecnStateUnknown}
           \<and> list_ex (isTestingPacket e) packets \<and> (ecn_numAckedECT0 e < ect0 \<or> ecn_numAckedECT1 e < ect1)"
    "congested \<longleftrightarrow> ecn_state e' = ecnStateCapable \<and> ecn_numAckedECNCE e < ecnce"
    using c(1) assms(2) failIfMangled_cases [of ?e] by (auto simp: ecn_confirm_def Let_def t split: if_splits)
qed (use assms in \<open>auto simp: HandleNewlyAcked_def Let_def split: if_splits\<close>)


lemma ecn_layout_state [simp]: "ecn_layout (e\<lparr>ecn_numAckedECT0 := a, ecn_numAckedECT1 := b, ecn_numAckedECNCE := c, ecn_state := st\<rparr>) A N C = ecn_layout e A N C"
  by (simp add: ecn_layout_def)

lemma ecn_ack_shape:
  assumes layout: "ecn_layout e A N C" and phase: "ecn_phase e lost A C" and packets: "set packets \<subseteq> fst ` set (A @ N @ C)"
    and ack: "HandleNewlyAcked e packets ect0 ect1 ecnce = (e', congested)" "ecn_state e' \<noteq> ecnStateFailed"
  shows "ecn_layout e' A N C \<and> ecn_phase e' lost A C"
proof -
  note law = HandleNewlyAcked_law [OF ack]
  have "A \<noteq> []" if "ecn_state e' \<noteq> ecn_state e"
    using law(2) that layout packets by (auto simp: ecn_layout_def list_ex_iff isTestingPacket_def first_pn_def)
  then have "ecn_phase e' lost A C"
    using law(2) phase by (subst law(1)) (auto simp: ecn_phase_def split: ecnState.splits)
  then show ?thesis
    using layout by (subst (1) law(1)) simp
qed

lemma ecn_Mode_fields:
  assumes "ecn_Mode e = (e', m)"
  shows "ecn_numSentECT0 e' = ecn_numSentECT0 e" "ecn_numSentECT1 e' = ecn_numSentECT1 e" "ecn_numAckedECT0 e' = ecn_numAckedECT0 e"
    "ecn_numAckedECT1 e' = ecn_numAckedECT1 e" "ecn_numAckedECNCE e' = ecn_numAckedECNCE e" "m = ECT0 \<or> m = ECNNon"
    "ecn_state e' = ecnStateFailed \<longleftrightarrow> ecn_state e = ecnStateFailed" "ecn_state e = ecnStateFailed \<Longrightarrow> m = ECNNon"
  using assms by (auto simp: ecn_Mode_def Let_def split: if_splits ecnState.splits)

lemma ecn_countTesting_fields [simp]:
  "ecn_numSentECT0 (ecn_countTesting e pn) = ecn_numSentECT0 e" "ecn_numSentECT1 (ecn_countTesting e pn) = ecn_numSentECT1 e"
  "ecn_numAckedECT0 (ecn_countTesting e pn) = ecn_numAckedECT0 e" "ecn_numAckedECT1 (ecn_countTesting e pn) = ecn_numAckedECT1 e"
  "ecn_numAckedECNCE (ecn_countTesting e pn) = ecn_numAckedECNCE e"
  "ecn_state (ecn_countTesting e pn) = ecnStateFailed \<longleftrightarrow> ecn_state e = ecnStateFailed"
  by (simp_all add: ecn_countTesting_def Let_def)

lemma ecn_confirm_fields:
  "ecn_numSentECT0 (fst (ecn_confirm e ps a b c)) = ecn_numSentECT0 e" "ecn_numSentECT1 (fst (ecn_confirm e ps a b c)) = ecn_numSentECT1 e"
  "ecn_numAckedECT0 (fst (ecn_confirm e ps a b c)) = ecn_numAckedECT0 e" "ecn_numAckedECT1 (fst (ecn_confirm e ps a b c)) = ecn_numAckedECT1 e"
  "ecn_numAckedECNCE (fst (ecn_confirm e ps a b c)) = ecn_numAckedECNCE e"
  by (simp_all add: ecn_confirm_def Let_def)

lemma HandleNewlyAcked_fields:
  assumes "HandleNewlyAcked e packets ect0 ect1 ecnce = (e', congested)"
  shows "ecn_numSentECT0 e' = ecn_numSentECT0 e" "ecn_numSentECT1 e' = ecn_numSentECT1 e"
    "ecn_numAckedECT0 e' \<in> {ecn_numAckedECT0 e, ect0}" "ecn_numAckedECNCE e' \<in> {ecn_numAckedECNCE e, ecnce}"
    "ecn_numAckedECT1 e' = ecn_numAckedECT1 e \<or> ecn_numAckedECT1 e' = ect1 \<and> ect1 \<le> ecn_numSentECT1 e"
proof -
  have e': "e' = fst (HandleNewlyAcked e packets ect0 ect1 ecnce)"
    using assms by simp
  show "ecn_numSentECT0 e' = ecn_numSentECT0 e" "ecn_numSentECT1 e' = ecn_numSentECT1 e"
    "ecn_numAckedECT0 e' \<in> {ecn_numAckedECT0 e, ect0}" "ecn_numAckedECNCE e' \<in> {ecn_numAckedECNCE e, ecnce}"
    "ecn_numAckedECT1 e' = ecn_numAckedECT1 e \<or> ecn_numAckedECT1 e' = ect1 \<and> ect1 \<le> ecn_numSentECT1 e"
    unfolding e' HandleNewlyAcked_def Let_def by (simp_all add: ecn_confirm_fields)
qed

lemma ecn_step_inv:
  assumes "ecn_step r r'" "ecn_inv r"
  shows "ecn_inv r'"
  using assms
proof cases
  case (send pn e m e')
  note m = ecn_Mode_fields [OF send(4)]
  have f: "ecn_state e' = ecnStateFailed \<longleftrightarrow> ecn_state (er_tracker r) = ecnStateFailed"
      "ecn_numSentECT0 e' = ecn_numSentECT0 (er_tracker r) + (if m = ECT0 then 1 else 0)" "ecn_numSentECT1 e' = ecn_numSentECT1 (er_tracker r)"
      "ecn_numAckedECT0 e' = ecn_numAckedECT0 (er_tracker r)" "ecn_numAckedECT1 e' = ecn_numAckedECT1 (er_tracker r)"
      "ecn_numAckedECNCE e' = ecn_numAckedECNCE (er_tracker r)"
    using send(5) m by (auto simp: ecn_SentPacket_def)
  have "\<exists>A N C. er_sent r @ [(pn, m)] = A @ N @ C \<and> ecn_layout e' A N C \<and> ecn_phase e' (count_lost r' A) A C"
    if nf: "ecn_state e' \<noteq> ecnStateFailed"
  proof -
    obtain A N C where s: "er_sent r = A @ N @ C" "ecn_layout (er_tracker r) A N C" "ecn_phase (er_tracker r) (count_lost r A) A C"
      using assms(2) nf f(1) by (auto simp: ecn_inv_def Let_def)
    have "count_lost r A = 0" if "ecn_state (er_tracker r) = ecnStateInitial"
      using s(3) that by (simp add: ecn_phase_def count_lost_def)
    moreover have "\<forall>q \<in> set (A @ N @ C). 0 \<le> fst q" "ecn_numSentECT1 (er_tracker r) = 0"
        "ecn_numSentECT0 (er_tracker r) = int (length (filter (\<lambda>q. snd q = ECT0) (A @ N @ C)))"
      using assms(2) s(1) by (simp_all add: ecn_inv_def Let_def)
    ultimately obtain A' N' C' where "er_sent r @ [(pn, m)] = A' @ N' @ C'" "A' = A \<or> A' = A @ [(pn, m)]" "ecn_layout e' A' N' C'"
        "ecn_phase e' (count_lost r A) A' C'"
      using ecn_send_shape [OF s(2,3) send(2) _ send(4,5)] unfolding s(1) by metis
    moreover from this(2) have "count_lost r' A' = count_lost r A"
      using count_lost_snoc [of r pn] assms(2) send(1,3) by (auto simp: ecn_inv_def Let_def)
    ultimately show ?thesis
      by metis
  qed
  then show ?thesis
    using assms(2) send(2,3) m(6) unfolding ecn_inv_def Let_def send(1)
    by (auto simp: f sorted_wrt_append)
next
  case (lose pn)
  have "\<exists>A N C. er_sent r = A @ N @ C \<and> ecn_layout (er_tracker r') A N C \<and> ecn_phase (er_tracker r') (count_lost r' A) A C"
    if nf: "ecn_state (ecn_LostPacket (er_tracker r) pn) \<noteq> ecnStateFailed"
  proof -
    have "ecn_state (er_tracker r) \<noteq> ecnStateFailed"
      using nf by (auto simp: ecn_LostPacket_def)
    then obtain A N C where s: "er_sent r = A @ N @ C" "ecn_layout (er_tracker r) A N C" "ecn_phase (er_tracker r) (count_lost r A) A C"
      using assms(2) by (auto simp: ecn_inv_def Let_def)
    have t: "isTestingPacket (er_tracker r) pn \<longleftrightarrow> pn \<in> fst ` set A"
      using assms(2) lose(2) by (intro isTestingPacket_law [OF s(2)]) (simp_all add: ecn_inv_def Let_def s(1))
    show ?thesis
    proof (cases "ecn_state (er_tracker r) = ecnStateTesting \<or> ecn_state (er_tracker r) = ecnStateUnknown")
      case True
      then have "count_lost r A < 255"
        using s(3) count_lost_le [of r A] assms(2) by (auto simp: ecn_phase_def ecn_inv_def Let_def)
      from ecn_lose_shape [OF s(2,3) t this nf] show ?thesis
        using s(1) lose(1) by (intro exI [of _ A] exI [of _ N] exI [of _ C]) (simp add: count_lost_Cons)
    next
      case False
      then have "ecn_LostPacket (er_tracker r) pn = er_tracker r"
        by (simp add: ecn_LostPacket_def)
      then show ?thesis
        using s False lose(1) by (intro exI [of _ A] exI [of _ N] exI [of _ C]) (auto simp: ecn_phase_def split: ecnState.splits)
    qed
  qed
  then show ?thesis
    using assms(2) lose(2,3) unfolding ecn_inv_def Let_def lose(1) by simp
next
  case (ack packets ect0 ect1 ecnce e congested)
  have "ecn_inv r'" if "ecn_state e = ecnStateFailed"
  proof -
    show ?thesis
      using assms(2) ack(3-5) HandleNewlyAcked_fields [OF ack(6)] that unfolding ecn_inv_def Let_def ack(1) by auto
  qed
  moreover have "ecn_inv r'" if nf: "ecn_state e \<noteq> ecnStateFailed"
  proof -
    have "ecn_state (er_tracker r) \<noteq> ecnStateFailed"
      using nf HandleNewlyAcked_law(2) [OF ack(6) nf] by auto
    then obtain A N C where s: "er_sent r = A @ N @ C" "ecn_layout (er_tracker r) A N C" "ecn_phase (er_tracker r) (count_lost r A) A C"
      using assms(2) by (auto simp: ecn_inv_def Let_def)
    have "ecn_layout e A N C \<and> ecn_phase e (count_lost r A) A C"
      using ack(2) by (intro ecn_ack_shape [OF s(2,3) _ ack(6) nf]) (simp add: s(1))
    moreover have "ecn_numSentECT0 e = ecn_numSentECT0 (er_tracker r)" "ecn_numSentECT1 e = ecn_numSentECT1 (er_tracker r)"
        "ecn_numAckedECT0 e = ect0" "ecn_numAckedECT1 e = ect1" "ecn_numAckedECNCE e = ecnce"
      by (subst HandleNewlyAcked_law(1) [OF ack(6) nf], simp)+
    ultimately show ?thesis
      using s(1) assms(2) ack(3-5) HandleNewlyAcked_law(4) [OF ack(6) nf] unfolding ecn_inv_def Let_def ack(1) by auto
  qed
  ultimately show ?thesis
    by blast
qed


lemma ecn_reach_inv: "ecn_step\<^sup>*\<^sup>* ecn_init r \<Longrightarrow> ecn_inv r"
  by (induction rule: rtranclp_induct) (auto intro: ecn_init_inv ecn_step_inv)

lemma ecn_reach_marking:
  assumes "ecn_inv r" "ecn_state (er_tracker r) \<noteq> ecnStateFailed" "(pn, m) \<in> set (er_sent r)"
  shows "ecnMarking (er_tracker r) pn = (if pn = ecn_lastTestingPacket (er_tracker r) then ECNNon else m)"
proof -
  obtain A N C where "er_sent r = A @ N @ C" "ecn_layout (er_tracker r) A N C"
    using assms(1,2) by (auto simp: ecn_inv_def Let_def)
  then show ?thesis
    using assms ecnMarking_law [of "er_tracker r" A N C pn m] by (simp add: ecn_inv_def Let_def)
qed

lemma countMarked_le:
  assumes "ecn_inv r" "ecn_state (er_tracker r) \<noteq> ecnStateFailed" "set packets \<subseteq> fst ` set (er_sent r)"
  shows "countMarked (er_tracker r) ECT0 packets \<le> int (length (filter (\<lambda>pn. (pn, ECT0) \<in> set (er_sent r)) packets))"
    and "countMarked (er_tracker r) ECT1 packets = 0"
proof -
  have "length (filter (\<lambda>pn. ecnMarking (er_tracker r) pn = ECT0) packets) \<le> length (filter (\<lambda>pn. (pn, ECT0) \<in> set (er_sent r)) packets)"
    using assms(3)
  proof (induction packets)
    case (Cons pn packets)
    then obtain m where "(pn, m) \<in> set (er_sent r)"
      by auto
    then show ?case
      using Cons ecn_reach_marking [OF assms(1,2), of pn m] by (auto split: if_splits)
  qed simp
  then show "countMarked (er_tracker r) ECT0 packets \<le> int (length (filter (\<lambda>pn. (pn, ECT0) \<in> set (er_sent r)) packets))"
    by (simp add: countMarked_def)
  show "countMarked (er_tracker r) ECT1 packets = 0"
    by (auto simp: countMarked_def ecnMarking_def)
qed

text \<open>
  C11 (ecn-validation). Validation of ECN on a path that does not interfere. As long as validation
  has not failed, the tracker knows the marking of every packet it was used for, except that it
  takes the last testing packet for unmarked. An acknowledgement with correct counters never makes
  validation fail: they count at least the newly acknowledged marked packets, do not decrease, do
  not exceed what was sent, and not all testing packets are lost or reported as congested. The
  path is taken as capable when a testing packet is acknowledged and the counters report a mark
  that arrived unchanged, and congestion is reported exactly for new congestion marks on a capable
  path.
\<close>

theorem ecn_validation:
  assumes reach: "ecn_step\<^sup>*\<^sup>* ecn_init r" and nf: "ecn_state (er_tracker r) \<noteq> ecnStateFailed"
    and packets: "set packets \<subseteq> fst ` set (er_sent r)"
    and marks: "int (length (filter (\<lambda>pn. (pn, ECT0) \<in> set (er_sent r)) packets))
      \<le> (ect0 - ecn_numAckedECT0 (er_tracker r)) + (ecnce - ecn_numAckedECNCE (er_tracker r))"
    and counters: "ecn_numAckedECT0 (er_tracker r) \<le> ect0" "ecn_numAckedECNCE (er_tracker r) \<le> ecnce"
      "ect0 \<le> int (length (filter (\<lambda>q. snd q = ECT0) (er_sent r)))"
    and alive: "ecn_state (er_tracker r) = ecnStateUnknown \<Longrightarrow> ecnce + int (count_lost r (take 10 (er_sent r))) < 10"
    and ack: "HandleNewlyAcked (er_tracker r) packets ect0 0 ecnce = (e, congested)"
  shows "ecn_state e \<noteq> ecnStateFailed
    \<and> (ecn_state (er_tracker r) \<in> {ecnStateTesting, ecnStateUnknown} \<and> list_ex (isTestingPacket (er_tracker r)) packets
         \<and> ecn_numAckedECT0 (er_tracker r) < ect0 \<longrightarrow> ecn_state e = ecnStateCapable)
    \<and> (congested \<longleftrightarrow> ecn_state e = ecnStateCapable \<and> ecn_numAckedECNCE (er_tracker r) < ecnce)
    \<and> (\<forall>(pn, m) \<in> set (er_sent r). ecnMarking (er_tracker r) pn = (if pn = ecn_lastTestingPacket (er_tracker r) then ECNNon else m))"
proof -
  let ?e = "er_tracker r"
  let ?f = "?e\<lparr>ecn_numAckedECT0 := ect0, ecn_numAckedECT1 := 0, ecn_numAckedECNCE := ecnce\<rparr>"
  have inv: "ecn_inv r"
    by (rule ecn_reach_inv [OF reach])
  then have fields: "ecn_numSentECT0 ?e = int (length (filter (\<lambda>q. snd q = ECT0) (er_sent r)))" "ecn_numSentECT1 ?e = 0"
    "ecn_numAckedECT1 ?e = 0" "0 \<le> ecn_numAckedECT0 ?e" "0 \<le> ecn_numAckedECNCE ?e"
    by (simp_all add: ecn_inv_def Let_def)
  note count = countMarked_le [OF inv nf packets]
  have "\<not> (0 < countMarked ?e ECT0 packets \<and> ect0 = 0 \<and> ecnce = 0)"
    using fields(4,5) count(1) marks by linarith
  then have h: "HandleNewlyAcked ?e packets ect0 0 ecnce = ecn_confirm ?f packets (ect0 - ecn_numAckedECT0 ?e) 0 (ecnce - ecn_numAckedECNCE ?e)"
    using nf fields count marks counters unfolding HandleNewlyAcked_def Let_def by auto
  have "failIfMangled ?f = ?f" if "ecn_state ?e = ecnStateUnknown"
  proof -
    obtain A N C where A: "er_sent r = A @ N @ C" "ecn_layout ?e A N C" "ecn_phase ?e (count_lost r A) A C"
      using inv nf by (auto simp: ecn_inv_def Let_def)
    then have "length A = 10" "filter (\<lambda>q. snd q = ECT0) (A @ N @ C) = A" "unat (ecn_numLostTesting ?e) = count_lost r A"
      using that by (auto simp: ecn_phase_def ecn_layout_def marked_as_def filter_empty_conv)
    then show ?thesis
      using alive [OF that] A(1) fields(1,2) by (simp add: failIfMangled_def uint_nat)
  qed
  then have "(if ecn_state ?f = ecnStateUnknown then failIfMangled ?f else ?f) = ?f"
    by simp
  then have "ecn_confirm ?f packets (ect0 - ecn_numAckedECT0 ?e) 0 (ecnce - ecn_numAckedECNCE ?e)
      = (let e = (if (ecn_state ?f = ecnStateTesting \<or> ecn_state ?f = ecnStateUnknown) \<and> list_ex (isTestingPacket ?f) packets
               \<and> 0 < ect0 - ecn_numAckedECT0 ?e then ?f\<lparr>ecn_state := ecnStateCapable\<rparr> else ?f)
         in (e, ecn_state e = ecnStateCapable \<and> 0 < ecnce - ecn_numAckedECNCE ?e))"
    using nf by (simp only: ecn_confirm_def Let_def) simp
  then have e: "e = (if ecn_state ?e \<in> {ecnStateTesting, ecnStateUnknown} \<and> list_ex (isTestingPacket ?f) packets
      \<and> ecn_numAckedECT0 ?e < ect0 then ?f\<lparr>ecn_state := ecnStateCapable\<rparr> else ?f)"
    using ack h by (simp add: Let_def)
  have t: "isTestingPacket ?f = isTestingPacket ?e"
    by (auto simp: isTestingPacket_def fun_eq_iff)
  have nf': "ecn_state e \<noteq> ecnStateFailed"
    using nf e by auto
  show ?thesis
    using nf' e HandleNewlyAcked_law(5) [OF ack nf'] ecn_reach_marking [OF inv nf] by (auto simp: t)
qed

definition sample_path :: ecn_run where
  "sample_path = \<lparr>er_tracker = newECNTracker\<lparr>ecn_state := ecnStateTesting, ecn_numSentTesting := 1, ecn_firstTestingPacket := 0,
     ecn_numSentECT0 := 1\<rparr>, er_sent = [(0, ECT0)], er_lost = []\<rparr>"

theorem ecn_validation_witness:
  "ecn_step\<^sup>*\<^sup>* ecn_init sample_path \<and> HandleNewlyAcked (er_tracker sample_path) [0] 1 0 0
     = ((er_tracker sample_path)\<lparr>ecn_state := ecnStateCapable, ecn_numAckedECT0 := 1\<rparr>, False)
   \<and> ecn_state (fst (HandleNewlyAcked (er_tracker sample_path) [0] 1 0 0)) = ecnStateCapable"
proof -
  have "ecn_step ecn_init sample_path"
    using ecn_step.send [of 0 ecn_init "newECNTracker\<lparr>ecn_state := ecnStateTesting\<rparr>" ECT0 "er_tracker sample_path"]
    by (simp add: ecn_init_def sample_path_def newECNTracker_def ecn_Mode_def ecn_SentPacket_def ecn_countTesting_def InvalidPacketNumber_def
        numECNTestingPackets_def)
  then have r: "ecn_step\<^sup>*\<^sup>* ecn_init sample_path"
    by simp
  have h: "HandleNewlyAcked (er_tracker sample_path) [0] 1 0 0
     = ((er_tracker sample_path)\<lparr>ecn_state := ecnStateCapable, ecn_numAckedECT0 := 1\<rparr>, False)"
    by (simp add: HandleNewlyAcked_def ecn_confirm_def sample_path_def newECNTracker_def countMarked_def ecnMarking_def isTestingPacket_def
        InvalidPacketNumber_def)
  have "ecn_state (fst (HandleNewlyAcked (er_tracker sample_path) [0] 1 0 0)) = ecnStateCapable"
    using ecn_validation [OF r _ _ _ _ _ _ _ h] unfolding h
    by (simp add: sample_path_def newECNTracker_def isTestingPacket_def InvalidPacketNumber_def)
  with r h show ?thesis
    by blast
qed

end
