(* ===== verification/RTTStats.thy ===== *)
theory RTTStats
  imports GoFloat AckFrame
begin

text \<open>
  Round-trip times (\<^verbatim>\<open>internal/utils/rtt_stats.go\<close>) and the model of \<^verbatim>\<open>time.Time\<close> that loss
  detection and congestion control use: a time is the number of nanoseconds since the zero
  time, and a duration a number of nanoseconds. \<^verbatim>\<open>float32\<close> arithmetic rounds after each
  operation.
\<close>

section \<open>Times\<close>

type_synonym Time = int
type_synonym Duration = int

definition IsZero :: "Time \<Rightarrow> bool" where
  "IsZero t \<longleftrightarrow> t = 0"

text \<open>\<^verbatim>\<open>Time.Sub\<close> saturates at the limits of \<^verbatim>\<open>int64\<close>.\<close>

definition Time_Sub :: "Time \<Rightarrow> Time \<Rightarrow> Duration" where
  "Time_Sub t u = max (- (2 ^ 63)) (min (2 ^ 63 - 1) (t - u))"

text \<open>A \<^verbatim>\<open>time.Duration\<close> result that may overflow wraps around.\<close>

definition wrap_i64 :: "int \<Rightarrow> int" where
  "wrap_i64 x = to_i64 (to_u64 x)"

lemma wrap_i64_id [simp]: "- (2 ^ 63) \<le> x \<Longrightarrow> x < 2 ^ 63 \<Longrightarrow> wrap_i64 x = x"
  by (simp add: wrap_i64_def)

lemma wrap_i64_bounds: "- (2 ^ 63) \<le> wrap_i64 x" "wrap_i64 x < 2 ^ 63"
  using sint_greater_eq [of "to_u64 x"] sint_less [of "to_u64 x"] by (simp_all add: wrap_i64_def to_i64_def)

definition TimerGranularity :: Duration where
  "TimerGranularity = 1000000"

section \<open>Round-trip statistics\<close>

record RTTStats =
  rtt_hasMeasurement :: bool
  rtt_minRTT :: Duration
  rtt_latestRTT :: Duration
  rtt_smoothedRTT :: Duration
  rtt_meanDeviation :: Duration
  rtt_maxAckDelay :: Duration

definition defaultInitialRTT :: Duration where
  "defaultInitialRTT = 100000000"

definition NewRTTStats :: RTTStats where
  "NewRTTStats = \<lparr>rtt_hasMeasurement = False, rtt_minRTT = 0, rtt_latestRTT = 0, rtt_smoothedRTT = 0, rtt_meanDeviation = 0,
     rtt_maxAckDelay = 0\<rparr>"

definition PTO :: "RTTStats \<Rightarrow> bool \<Rightarrow> Duration" where
  "PTO r includeMaxAckDelay =
     (if rtt_smoothedRTT r = 0 then 2 * defaultInitialRTT
      else
        let pto = rtt_smoothedRTT r + max (4 * rtt_meanDeviation r) TimerGranularity
        in if includeMaxAckDelay then pto + rtt_maxAckDelay r else pto)"

text \<open>Microseconds as \<^verbatim>\<open>float32\<close>, and the weighted mean of two of them, again in nanoseconds.\<close>

definition micros :: "Duration \<Rightarrow> rat" where
  "micros d = float32 (of_int (go_div d 1000))"

definition weighted :: "rat \<Rightarrow> Duration \<Rightarrow> rat \<Rightarrow> Duration \<Rightarrow> Duration" where
  "weighted a x b y = float_to_int (float32 (float32 (a * micros x) + float32 (b * micros y))) * 1000"

definition UpdateRTT :: "RTTStats \<Rightarrow> Duration \<Rightarrow> Duration \<Rightarrow> RTTStats" where
  "UpdateRTT r sendDelta ackDelay =
     (if sendDelta = InfDuration \<or> sendDelta \<le> 0 then r
      else
        let r = (if rtt_minRTT r = 0 \<or> rtt_minRTT r > sendDelta then r\<lparr>rtt_minRTT := sendDelta\<rparr> else r);
            sample = (if sendDelta - rtt_minRTT r \<ge> ackDelay then sendDelta - ackDelay else sendDelta);
            r = r\<lparr>rtt_latestRTT := sample\<rparr>
        in if \<not> rtt_hasMeasurement r
           then r\<lparr>rtt_hasMeasurement := True, rtt_smoothedRTT := sample, rtt_meanDeviation := go_div sample 2\<rparr>
           else
             let r = r\<lparr>rtt_meanDeviation := weighted (3 / 4) (rtt_meanDeviation r) (1 / 4) \<bar>rtt_smoothedRTT r - sample\<bar>\<rparr>
             in r\<lparr>rtt_smoothedRTT := weighted (7 / 8) (rtt_smoothedRTT r) (1 / 8) sample\<rparr>)"

definition SetMaxAckDelay :: "RTTStats \<Rightarrow> Duration \<Rightarrow> RTTStats" where
  "SetMaxAckDelay r mad = r\<lparr>rtt_maxAckDelay := mad\<rparr>"

definition SetInitialRTT :: "RTTStats \<Rightarrow> Duration \<Rightarrow> RTTStats" where
  "SetInitialRTT r t = (if rtt_hasMeasurement r then r else r\<lparr>rtt_smoothedRTT := t, rtt_latestRTT := t\<rparr>)"

definition rtt_OnConnectionMigration :: "RTTStats \<Rightarrow> RTTStats" where
  "rtt_OnConnectionMigration r = r\<lparr>rtt_latestRTT := 0, rtt_minRTT := 0, rtt_smoothedRTT := 0, rtt_meanDeviation := 0\<rparr>"

definition ExpireSmoothedMetrics :: "RTTStats \<Rightarrow> RTTStats" where
  "ExpireSmoothedMetrics r =
     (let r = r\<lparr>rtt_meanDeviation := max (rtt_meanDeviation r) \<bar>rtt_smoothedRTT r - rtt_latestRTT r\<bar>\<rparr>
      in r\<lparr>rtt_smoothedRTT := max (rtt_smoothedRTT r) (rtt_latestRTT r)\<rparr>)"

end
