(* ===== verification/Congestion.thy ===== *)
theory Congestion
  imports RTTStats Protocol
begin

text \<open>
  Congestion control (\<^verbatim>\<open>internal/congestion\<close>): hybrid slow start, the pacer and the sender. The
  sender is used with Reno only (\<^verbatim>\<open>newSentPacketHandler\<close> passes \<^verbatim>\<open>true\<close>), so its cubic
  part, which is then never read, is left out, and so are the tracer and the clock. The
  round-trip statistics, which the sender shares with the packet handler, are an argument.
  The maximum datagram size is positive, which the invariant below states: no division by it
  fails.
\<close>

section \<open>Hybrid slow start\<close>

record HybridSlowStart =
  hs_endPacketNumber :: PacketNumber
  hs_lastSentPacketNumber :: PacketNumber
  hs_started :: bool
  hs_currentMinRTT :: Duration
  hs_rttSampleCount :: "32 word"
  hs_hystartFound :: bool

definition newHybridSlowStart :: HybridSlowStart where
  "newHybridSlowStart = \<lparr>hs_endPacketNumber = 0, hs_lastSentPacketNumber = 0, hs_started = False, hs_currentMinRTT = 0,
     hs_rttSampleCount = 0, hs_hystartFound = False\<rparr>"

definition hybridStartLowWindow :: ByteCount where
  "hybridStartLowWindow = 16"

definition hybridStartMinSamples :: "32 word" where
  "hybridStartMinSamples = 8"

definition StartReceiveRound :: "HybridSlowStart \<Rightarrow> PacketNumber \<Rightarrow> HybridSlowStart" where
  "StartReceiveRound s lastSent = s\<lparr>hs_endPacketNumber := lastSent, hs_currentMinRTT := 0, hs_rttSampleCount := 0, hs_started := True\<rparr>"

definition IsEndOfRound :: "HybridSlowStart \<Rightarrow> PacketNumber \<Rightarrow> bool" where
  "IsEndOfRound s ack \<longleftrightarrow> hs_endPacketNumber s < ack"

definition minRTTincreaseThreshold :: "Duration \<Rightarrow> Duration" where
  "minRTTincreaseThreshold minRTT = max (min (go_div minRTT 1000 div 2 ^ 3) 16000) 4000 * 1000"

definition ShouldExitSlowStart :: "HybridSlowStart \<Rightarrow> Duration \<Rightarrow> Duration \<Rightarrow> ByteCount \<Rightarrow> HybridSlowStart \<times> bool" where
  "ShouldExitSlowStart s latestRTT minRTT congestionWindow =
     (let s = (if \<not> hs_started s then StartReceiveRound s (hs_lastSentPacketNumber s) else s)
      in if hs_hystartFound s then (s, True)
         else
           let s = s\<lparr>hs_rttSampleCount := hs_rttSampleCount s + 1\<rparr>;
               s = (if hs_rttSampleCount s \<le> hybridStartMinSamples \<and> (hs_currentMinRTT s = 0 \<or> hs_currentMinRTT s > latestRTT)
                    then s\<lparr>hs_currentMinRTT := latestRTT\<rparr> else s);
               s = (if hs_rttSampleCount s = hybridStartMinSamples \<and> hs_currentMinRTT s > minRTT + minRTTincreaseThreshold minRTT
                    then s\<lparr>hs_hystartFound := True\<rparr> else s)
           in (s, congestionWindow \<ge> hybridStartLowWindow \<and> hs_hystartFound s))"

definition hybrid_OnPacketSent :: "HybridSlowStart \<Rightarrow> PacketNumber \<Rightarrow> HybridSlowStart" where
  "hybrid_OnPacketSent s packetNumber = s\<lparr>hs_lastSentPacketNumber := packetNumber\<rparr>"

definition hybrid_OnPacketAcked :: "HybridSlowStart \<Rightarrow> PacketNumber \<Rightarrow> HybridSlowStart" where
  "hybrid_OnPacketAcked s ackedPacketNumber = (if IsEndOfRound s ackedPacketNumber then s\<lparr>hs_started := False\<rparr> else s)"

definition hybrid_Restart :: "HybridSlowStart \<Rightarrow> HybridSlowStart" where
  "hybrid_Restart s = s\<lparr>hs_started := False, hs_hystartFound := False\<rparr>"

section \<open>Pacing\<close>

text \<open>Bandwidths are in bits per second. The pacer's \<^verbatim>\<open>adjustedBandwidth\<close> closure is an argument.\<close>

definition infBandwidth :: u64 where
  "infBandwidth = - 1"

definition BandwidthFromDelta :: "ByteCount \<Rightarrow> Duration \<Rightarrow> u64" where
  "BandwidthFromDelta bytes dur = to_u64 bytes * 1000000000 div to_u64 dur * 8"

definition adjustedBandwidth :: "u64 \<Rightarrow> u64" where
  "adjustedBandwidth bandwidth = bandwidth div 8 * 5 div 4"

definition initialMaxDatagramSize :: ByteCount where
  "initialMaxDatagramSize = 1252"

definition maxBurstSizePackets :: int where
  "maxBurstSizePackets = 10"

definition MinPacingDelay :: Duration where
  "MinPacingDelay = 1000000"

record pacer =
  pc_budgetAtLastSent :: ByteCount
  pc_maxDatagramSize :: ByteCount
  pc_lastSentTime :: Time

definition maxBurstSize :: "pacer \<Rightarrow> u64 \<Rightarrow> ByteCount" where
  "maxBurstSize p bw =
     max (go_div (to_i64 (to_u64 (MinPacingDelay + TimerGranularity) * bw)) 1000000000) (maxBurstSizePackets * pc_maxDatagramSize p)"

definition newPacer :: "u64 \<Rightarrow> pacer" where
  "newPacer bw =
     (let p = \<lparr>pc_budgetAtLastSent = 0, pc_maxDatagramSize = initialMaxDatagramSize, pc_lastSentTime = 0\<rparr>
      in p\<lparr>pc_budgetAtLastSent := maxBurstSize p bw\<rparr>)"

definition Budget :: "pacer \<Rightarrow> u64 \<Rightarrow> Time \<Rightarrow> ByteCount" where
  "Budget p bw now =
     (if IsZero (pc_lastSentTime p) then maxBurstSize p bw
      else
        let budget = wrap_i64 (pc_budgetAtLastSent p
                       + go_div (wrap_i64 (to_i64 bw * Time_Sub now (pc_lastSentTime p))) 1000000000);
            budget = (if budget < 0 then MaxByteCount else budget)
        in min (maxBurstSize p bw) budget)"

definition pacer_SentPacket :: "pacer \<Rightarrow> u64 \<Rightarrow> Time \<Rightarrow> ByteCount \<Rightarrow> pacer" where
  "pacer_SentPacket p bw sendTime bytes =
     (let budget = Budget p bw sendTime
      in p\<lparr>pc_budgetAtLastSent := if bytes \<ge> budget then 0 else budget - bytes, pc_lastSentTime := sendTime\<rparr>)"

definition pacer_TimeUntilSend :: "pacer \<Rightarrow> u64 \<Rightarrow> Time outcome" where
  "pacer_TimeUntilSend p bw =
     (if pc_budgetAtLastSent p \<ge> pc_maxDatagramSize p then Ok 0
      else if bw = 0 then Panic ''integer divide by zero''
      else
        let diff = 1000000000 * to_u64 (pc_maxDatagramSize p - pc_budgetAtLastSent p);
            d = diff div bw;
            d = (if diff mod bw > 0 then d + 1 else d)
        in Ok (pc_lastSentTime p + max MinPacingDelay (to_i64 d)))"

section \<open>The sender\<close>

record cubicSender =
  cs_hybridSlowStart :: HybridSlowStart
  cs_pacer :: pacer
  cs_largestSentPacketNumber :: PacketNumber
  cs_largestAckedPacketNumber :: PacketNumber
  cs_largestSentAtLastCutback :: PacketNumber
  cs_lastCutbackExitedSlowstart :: bool
  cs_congestionWindow :: ByteCount
  cs_slowStartThreshold :: ByteCount
  cs_numAckedPackets :: u64
  cs_initialCongestionWindow :: ByteCount
  cs_initialMaxCongestionWindow :: ByteCount
  cs_maxDatagramSize :: ByteCount

definition maxBurstPackets :: int where
  "maxBurstPackets = 3"

definition renoBeta :: rat where
  "renoBeta = float64 (7 / 10)"

definition minCongestionWindowPackets :: int where
  "minCongestionWindowPackets = 2"

definition initialCongestionWindow :: int where
  "initialCongestionWindow = 32"

definition MaxCongestionWindowPackets :: int where
  "MaxCongestionWindowPackets = 10000"

definition bandwidthEstimate :: "ByteCount \<Rightarrow> RTTStats \<Rightarrow> u64" where
  "bandwidthEstimate congestionWindow rtt =
     (let srtt = rtt_smoothedRTT rtt in if srtt = 0 then infBandwidth else BandwidthFromDelta congestionWindow srtt)"

definition NewCubicSender :: "RTTStats \<Rightarrow> ByteCount \<Rightarrow> cubicSender" where
  "NewCubicSender rtt mds =
     \<lparr>cs_hybridSlowStart = newHybridSlowStart,
      cs_pacer = newPacer (adjustedBandwidth (bandwidthEstimate (initialCongestionWindow * mds) rtt)),
      cs_largestSentPacketNumber = InvalidPacketNumber, cs_largestAckedPacketNumber = InvalidPacketNumber,
      cs_largestSentAtLastCutback = InvalidPacketNumber, cs_lastCutbackExitedSlowstart = False,
      cs_congestionWindow = initialCongestionWindow * mds, cs_slowStartThreshold = MaxByteCount, cs_numAckedPackets = 0,
      cs_initialCongestionWindow = initialCongestionWindow * mds,
      cs_initialMaxCongestionWindow = MaxCongestionWindowPackets * mds, cs_maxDatagramSize = mds\<rparr>"

definition BandwidthEstimate :: "cubicSender \<Rightarrow> RTTStats \<Rightarrow> u64" where
  "BandwidthEstimate c rtt = bandwidthEstimate (cs_congestionWindow c) rtt"

definition pacerBandwidth :: "cubicSender \<Rightarrow> RTTStats \<Rightarrow> u64" where
  "pacerBandwidth c rtt = adjustedBandwidth (BandwidthEstimate c rtt)"

definition cubic_TimeUntilSend :: "cubicSender \<Rightarrow> RTTStats \<Rightarrow> Time outcome" where
  "cubic_TimeUntilSend c rtt = pacer_TimeUntilSend (cs_pacer c) (pacerBandwidth c rtt)"

definition HasPacingBudget :: "cubicSender \<Rightarrow> RTTStats \<Rightarrow> Time \<Rightarrow> bool" where
  "HasPacingBudget c rtt now \<longleftrightarrow> Budget (cs_pacer c) (pacerBandwidth c rtt) now \<ge> cs_maxDatagramSize c"

definition maxCongestionWindow :: "cubicSender \<Rightarrow> ByteCount" where
  "maxCongestionWindow c = cs_maxDatagramSize c * MaxCongestionWindowPackets"

definition minCongestionWindow :: "cubicSender \<Rightarrow> ByteCount" where
  "minCongestionWindow c = cs_maxDatagramSize c * minCongestionWindowPackets"

definition cubic_OnPacketSent :: "cubicSender \<Rightarrow> RTTStats \<Rightarrow> Time \<Rightarrow> PacketNumber \<Rightarrow> ByteCount \<Rightarrow> bool \<Rightarrow> cubicSender" where
  "cubic_OnPacketSent c rtt sentTime packetNumber bytes isRetransmittable =
     (let c = c\<lparr>cs_pacer := pacer_SentPacket (cs_pacer c) (pacerBandwidth c rtt) sentTime bytes\<rparr>
      in if \<not> isRetransmittable then c
         else c\<lparr>cs_largestSentPacketNumber := packetNumber,
                cs_hybridSlowStart := hybrid_OnPacketSent (cs_hybridSlowStart c) packetNumber\<rparr>)"

definition CanSend :: "cubicSender \<Rightarrow> ByteCount \<Rightarrow> bool" where
  "CanSend c bytesInFlight \<longleftrightarrow> bytesInFlight < cs_congestionWindow c"

definition InRecovery :: "cubicSender \<Rightarrow> bool" where
  "InRecovery c \<longleftrightarrow> cs_largestAckedPacketNumber c \<noteq> InvalidPacketNumber
     \<and> cs_largestAckedPacketNumber c \<le> cs_largestSentAtLastCutback c"

definition InSlowStart :: "cubicSender \<Rightarrow> bool" where
  "InSlowStart c \<longleftrightarrow> cs_congestionWindow c < cs_slowStartThreshold c"

definition MaybeExitSlowStart :: "cubicSender \<Rightarrow> RTTStats \<Rightarrow> cubicSender" where
  "MaybeExitSlowStart c rtt =
     (if InSlowStart c then
        let (hs, exit) = ShouldExitSlowStart (cs_hybridSlowStart c) (rtt_latestRTT rtt) (rtt_minRTT rtt)
                           (go_div (cs_congestionWindow c) (cs_maxDatagramSize c));
            c = c\<lparr>cs_hybridSlowStart := hs\<rparr>
        in if exit then c\<lparr>cs_slowStartThreshold := cs_congestionWindow c\<rparr> else c
      else c)"

definition isCwndLimited :: "cubicSender \<Rightarrow> ByteCount \<Rightarrow> bool" where
  "isCwndLimited c bytesInFlight \<longleftrightarrow>
     (let congestionWindow = cs_congestionWindow c in
      if bytesInFlight \<ge> congestionWindow then True
      else
        let availableBytes = congestionWindow - bytesInFlight;
            slowStartLimited = InSlowStart c \<and> bytesInFlight > go_div congestionWindow 2
        in slowStartLimited \<or> availableBytes \<le> maxBurstPackets * cs_maxDatagramSize c)"

definition maybeIncreaseCwnd :: "cubicSender \<Rightarrow> ByteCount \<Rightarrow> cubicSender" where
  "maybeIncreaseCwnd c priorInFlight =
     (if \<not> isCwndLimited c priorInFlight then c
      else if cs_congestionWindow c \<ge> maxCongestionWindow c then c
      else if InSlowStart c then c\<lparr>cs_congestionWindow := cs_congestionWindow c + cs_maxDatagramSize c\<rparr>
      else
        let c = c\<lparr>cs_numAckedPackets := cs_numAckedPackets c + 1\<rparr>
        in if cs_numAckedPackets c \<ge> to_u64 (go_div (cs_congestionWindow c) (cs_maxDatagramSize c))
           then c\<lparr>cs_congestionWindow := cs_congestionWindow c + cs_maxDatagramSize c, cs_numAckedPackets := 0\<rparr>
           else c)"

definition cubic_OnPacketAcked :: "cubicSender \<Rightarrow> PacketNumber \<Rightarrow> ByteCount \<Rightarrow> cubicSender" where
  "cubic_OnPacketAcked c ackedPacketNumber priorInFlight =
     (let c = c\<lparr>cs_largestAckedPacketNumber := max ackedPacketNumber (cs_largestAckedPacketNumber c)\<rparr>
      in if InRecovery c then c
         else
           let c = maybeIncreaseCwnd c priorInFlight
           in if InSlowStart c then c\<lparr>cs_hybridSlowStart := hybrid_OnPacketAcked (cs_hybridSlowStart c) ackedPacketNumber\<rparr>
              else c)"

definition OnCongestionEvent :: "cubicSender \<Rightarrow> PacketNumber \<Rightarrow> cubicSender" where
  "OnCongestionEvent c packetNumber =
     (if packetNumber \<le> cs_largestSentAtLastCutback c then c
      else
        let c = c\<lparr>cs_lastCutbackExitedSlowstart := InSlowStart c\<rparr>;
            c = c\<lparr>cs_congestionWindow := float_to_int (float64 (float64 (of_int (cs_congestionWindow c)) * renoBeta))\<rparr>;
            c = (if cs_congestionWindow c < minCongestionWindow c then c\<lparr>cs_congestionWindow := minCongestionWindow c\<rparr> else c)
        in c\<lparr>cs_slowStartThreshold := cs_congestionWindow c, cs_largestSentAtLastCutback := cs_largestSentPacketNumber c,
             cs_numAckedPackets := 0\<rparr>)"

definition OnRetransmissionTimeout :: "cubicSender \<Rightarrow> bool \<Rightarrow> cubicSender" where
  "OnRetransmissionTimeout c packetsRetransmitted =
     (let c = c\<lparr>cs_largestSentAtLastCutback := InvalidPacketNumber\<rparr>
      in if \<not> packetsRetransmitted then c
         else c\<lparr>cs_hybridSlowStart := hybrid_Restart (cs_hybridSlowStart c),
                cs_slowStartThreshold := go_div (cs_congestionWindow c) 2, cs_congestionWindow := minCongestionWindow c\<rparr>)"

definition cubic_OnConnectionMigration :: "cubicSender \<Rightarrow> cubicSender" where
  "cubic_OnConnectionMigration c =
     c\<lparr>cs_hybridSlowStart := hybrid_Restart (cs_hybridSlowStart c), cs_largestSentPacketNumber := InvalidPacketNumber,
       cs_largestAckedPacketNumber := InvalidPacketNumber, cs_largestSentAtLastCutback := InvalidPacketNumber,
       cs_lastCutbackExitedSlowstart := False, cs_numAckedPackets := 0,
       cs_congestionWindow := cs_initialCongestionWindow c, cs_slowStartThreshold := cs_initialMaxCongestionWindow c\<rparr>"

definition cubic_SetMaxDatagramSize :: "cubicSender \<Rightarrow> ByteCount \<Rightarrow> cubicSender outcome" where
  "cubic_SetMaxDatagramSize c s =
     (if s < cs_maxDatagramSize c then Panic ''congestion BUG: decreased max datagram size''
      else
        let cwndIsMinCwnd = (cs_congestionWindow c = minCongestionWindow c);
            c = c\<lparr>cs_maxDatagramSize := s\<rparr>;
            c = (if cwndIsMinCwnd then c\<lparr>cs_congestionWindow := minCongestionWindow c\<rparr> else c)
        in Ok (c\<lparr>cs_pacer := (cs_pacer c)\<lparr>pc_maxDatagramSize := s\<rparr>\<rparr>))"

section \<open>Bounds on the congestion window\<close>

lemma round_even_bounds: "x - 1 / 2 \<le> of_int (round_even x)" "of_int (round_even x) \<le> x + 1 / 2"
proof -
  define n where "n = \<lfloor>x\<rfloor>"
  have "of_int n \<le> x" "x < of_int n + 1"
    unfolding n_def by linarith+
  then show "x - 1 / 2 \<le> of_int (round_even x)" "of_int (round_even x) \<le> x + 1 / 2"
    unfolding round_even_def Let_def n_def [symmetric] by (auto simp: field_simps)
qed

lemma fl_bounds:
  assumes "0 < x"
  shows "x - x * 2 powi (- p) \<le> fl p x" "fl p x \<le> x + x * 2 powi (- p)"
proof -
  define u where "u = (2 :: rat) powi (floor_log2 x - p + 1)"
  have u: "0 < u" "u / 2 \<le> x * 2 powi (- p)"
  proof -
    show "0 < u"
      by (simp add: u_def)
    have "u = 2 * (2 powi (floor_log2 x) * 2 powi (- p))"
      by (simp add: u_def power_int_add power_int_diff power_int_minus field_simps)
    also have "2 powi (floor_log2 x) * 2 powi (- p) \<le> x * 2 powi (- p)"
      using floor_log2_le [OF assms] by (intro mult_right_mono) simp_all
    finally show "u / 2 \<le> x * 2 powi (- p)"
      by simp
  qed
  have fl: "fl p x = of_int (round_even (x / u)) * u"
    using assms by (simp add: fl_def u_def Let_def)
  have "(x / u - 1 / 2) * u \<le> fl p x" "fl p x \<le> (x / u + 1 / 2) * u"
    unfolding fl using u(1) round_even_bounds [of "x / u"] by (intro mult_right_mono; simp)+
  moreover have "(x / u - 1 / 2) * u = x - u / 2" "(x / u + 1 / 2) * u = x + u / 2"
    using u(1) by (simp_all add: left_diff_distrib distrib_right)
  ultimately show "x - x * 2 powi (- p) \<le> fl p x" "fl p x \<le> x + x * 2 powi (- p)"
    using u(2) by linarith+
qed

lemma float64_bounds:
  assumes "0 < x"
  shows "x - x / 2 ^ 53 \<le> float64 x" "float64 x \<le> x + x / 2 ^ 53"
proof -
  have "x * 2 powi (- 53) = x / 2 ^ 53"
    by (simp add: power_int_minus field_simps)
  then show "x - x / 2 ^ 53 \<le> float64 x" "float64 x \<le> x + x / 2 ^ 53"
    using fl_bounds [OF assms, of 53] by (simp_all only: float64_def)
qed

text \<open>The multiplicative decrease keeps about seven tenths of the window.\<close>

lemma reno_decrease:
  assumes "0 \<le> w" "w < 2 ^ 40"
  defines "v \<equiv> float_to_int (float64 (float64 (of_int w) * renoBeta))"
  shows "0 \<le> v" "v \<le> w" "10 * v \<le> 7 * w + 10" "7 * w - 20 \<le> 10 * v"
proof -
  have r: "7 / 10 - 1 / 2 ^ 53 \<le> renoBeta" "renoBeta \<le> 7 / 10 + 1 / 2 ^ 53"
    using float64_bounds [of "7 / 10"] by (simp_all add: renoBeta_def)
  consider "w = 0" | "0 < w" using assms(1) by linarith
  then have "0 \<le> v \<and> v \<le> w \<and> 10 * v \<le> 7 * w + 10 \<and> 7 * w - 20 \<le> 10 * v"
  proof cases
    case 1
    then show ?thesis
      by (simp add: v_def float64_def fl_def float_to_int_def)
  next
    case 2
    define y where "y = of_int w * renoBeta"
    have e: "float64 (of_int w) = of_int w"
      using assms(1,2) by (intro float64_of_int) simp
    have w: "(0 :: rat) < of_int w" "(of_int w :: rat) \<le> 2 ^ 40"
      using 2 assms(2) by (simp_all add: of_int_le_numeral_power_cancel_iff)
    have "of_int w * (7 / 10 - 1 / 2 ^ 53) \<le> y" "y \<le> of_int w * (7 / 10 + 1 / 2 ^ 53)"
      using r w(1) by (simp_all only: y_def mult_left_mono less_imp_le)
    moreover have "of_int w * (1 / 2 ^ 53) \<le> 2 ^ 40 * (1 / 2 ^ 53 :: rat)"
      using w by (intro mult_right_mono) simp_all
    then have "of_int w * (1 / 2 ^ 53) \<le> (1 / 8192 :: rat)"
      by simp
    ultimately have y: "7 / 10 * of_int w - 1 / 1000 \<le> y" "y \<le> 7 / 10 * of_int w + 1 / 1000"
      unfolding right_diff_distrib distrib_left by linarith+
    have y0: "0 < y" "y \<le> 2 ^ 40"
      using y w 2 r(1) by (simp_all add: y_def zero_less_mult_iff)
    have "y / 2 ^ 53 \<le> 2 ^ 40 / 2 ^ 53"
      using y0(2) by (rule divide_right_mono) simp
    then have e2: "y / 2 ^ 53 \<le> 1 / 8192"
      by simp
    have "7 / 10 * of_int w - 1 / 100 \<le> float64 y" "float64 y \<le> 7 / 10 * of_int w + 1 / 100" "0 \<le> float64 y"
      using float64_bounds [OF y0(1)] y e2 w(1) 2 by linarith+
    moreover have "v = \<lfloor>float64 y\<rfloor>"
      using \<open>0 \<le> float64 y\<close> by (simp add: v_def e y_def float_to_int_def)
    ultimately show ?thesis
      using w by (simp add: floor_le_iff le_floor_iff) linarith
  qed
  then show "0 \<le> v" "v \<le> w" "10 * v \<le> 7 * w + 10" "7 * w - 20 \<le> 10 * v"
    by simp_all
qed


text \<open>The operations of the sender in any order, with the largest datagram that a UDP packet carries.\<close>

inductive cubic_step :: "cubicSender \<Rightarrow> cubicSender \<Rightarrow> bool" where
  sent: "cubic_step c (cubic_OnPacketSent c rtt t pn bytes isRetransmittable)"
| acked: "cubic_step c (cubic_OnPacketAcked c pn priorInFlight)"
| congestion: "cubic_step c (OnCongestionEvent c pn)"
| slow_start: "cubic_step c (MaybeExitSlowStart c rtt)"
| timeout: "cubic_step c (OnRetransmissionTimeout c packetsRetransmitted)"
| migration: "cubic_step c (cubic_OnConnectionMigration c)"
| datagram_size: "s \<le> 65535 \<Longrightarrow> cubic_SetMaxDatagramSize c s = Ok c' \<Longrightarrow> cubic_step c c'"

definition cwnd_inv :: "ByteCount \<Rightarrow> cubicSender \<Rightarrow> bool" where
  "cwnd_inv size0 c \<longleftrightarrow> cs_initialCongestionWindow c = 32 * size0 \<and> size0 \<le> cs_maxDatagramSize c \<and> cs_maxDatagramSize c \<le> 65535
     \<and> 2 * size0 \<le> cs_congestionWindow c \<and> cs_congestionWindow c < 10001 * cs_maxDatagramSize c"

lemmas cwnd_defs = maxCongestionWindow_def minCongestionWindow_def minCongestionWindowPackets_def MaxCongestionWindowPackets_def
  initialCongestionWindow_def

lemma maybeIncreaseCwnd_fields [simp]:
  "cs_maxDatagramSize (maybeIncreaseCwnd c n) = cs_maxDatagramSize c"
  "cs_initialCongestionWindow (maybeIncreaseCwnd c n) = cs_initialCongestionWindow c"
  by (simp_all add: maybeIncreaseCwnd_def Let_def)

lemma maybeIncreaseCwnd_law:
  "cs_congestionWindow (maybeIncreaseCwnd c n) = cs_congestionWindow c
   \<or> cs_congestionWindow (maybeIncreaseCwnd c n) = cs_congestionWindow c + cs_maxDatagramSize c
     \<and> cs_congestionWindow c < maxCongestionWindow c"
  by (simp add: maybeIncreaseCwnd_def Let_def)

lemma OnPacketAcked_law:
  shows "cs_maxDatagramSize (cubic_OnPacketAcked c pn n) = cs_maxDatagramSize c"
    "cs_initialCongestionWindow (cubic_OnPacketAcked c pn n) = cs_initialCongestionWindow c"
    "cs_congestionWindow (cubic_OnPacketAcked c pn n) = cs_congestionWindow c
     \<or> cs_congestionWindow (cubic_OnPacketAcked c pn n) = cs_congestionWindow c + cs_maxDatagramSize c
       \<and> cs_congestionWindow c < maxCongestionWindow c"
  using maybeIncreaseCwnd_law [of "c\<lparr>cs_largestAckedPacketNumber := max pn (cs_largestAckedPacketNumber c)\<rparr>" n]
  by (simp_all add: cubic_OnPacketAcked_def Let_def maxCongestionWindow_def)

lemma OnCongestionEvent_law:
  assumes "0 \<le> cs_congestionWindow c" "cs_congestionWindow c < 2 ^ 40"
  shows "cs_maxDatagramSize (OnCongestionEvent c pn) = cs_maxDatagramSize c"
    "cs_initialCongestionWindow (OnCongestionEvent c pn) = cs_initialCongestionWindow c"
    "OnCongestionEvent c pn = c \<or>
     (let w = cs_congestionWindow (OnCongestionEvent c pn)
      in w = minCongestionWindow c \<and> 7 * cs_congestionWindow c - 20 \<le> 10 * w
         \<or> w \<ge> minCongestionWindow c \<and> w \<le> cs_congestionWindow c \<and> 10 * w \<le> 7 * cs_congestionWindow c + 10
           \<and> 7 * cs_congestionWindow c - 20 \<le> 10 * w)"
  using reno_decrease [OF assms] by (auto simp: OnCongestionEvent_def Let_def minCongestionWindow_def)

lemma cubic_step_inv:
  assumes "cubic_step c c'" "cwnd_inv size0 c" "0 < size0"
  shows "cwnd_inv size0 c'"
  using assms(1)
proof cases
  case (acked pn n)
  then show ?thesis
    using assms(2,3) OnPacketAcked_law [of c pn n] by (auto simp: cwnd_inv_def cwnd_defs)
next
  case (congestion pn)
  have "0 \<le> cs_congestionWindow c" "cs_congestionWindow c < 2 ^ 40"
    using assms(2,3) by (simp_all add: cwnd_inv_def)
  from OnCongestionEvent_law [OF this, of pn] show ?thesis
    using assms(2,3) congestion by (auto simp: cwnd_inv_def cwnd_defs Let_def)
next
  case (datagram_size s)
  then show ?thesis
    using assms(2,3) by (auto simp: cubic_SetMaxDatagramSize_def Let_def cwnd_inv_def cwnd_defs split: if_splits)
qed (use assms(2,3) in \<open>auto simp: cwnd_inv_def cwnd_defs cubic_OnPacketSent_def MaybeExitSlowStart_def OnRetransmissionTimeout_def
      cubic_OnConnectionMigration_def Let_def split: prod.splits\<close>)

lemma cubic_reach_inv:
  assumes "cubic_step\<^sup>*\<^sup>* (NewCubicSender rtt size0) c" "0 < size0" "size0 \<le> 65535"
  shows "cwnd_inv size0 c"
  using assms(1)
proof induction
  case base
  then show ?case
    using assms(2,3) by (simp add: cwnd_inv_def NewCubicSender_def initialCongestionWindow_def)
next
  case (step c c')
  then show ?case
    using cubic_step_inv assms(2) by blast
qed

text \<open>
  C10 (cwnd-bounds). The congestion window stays between two initial datagrams and one datagram
  above the maximum. An acknowledgement adds at most one datagram, and nothing during recovery; a
  loss is counted once per round trip: a packet sent before the last reduction changes nothing,
  any other one leaves seven tenths of the window, up to rounding, or the minimum of two
  datagrams, and starts a recovery period.
\<close>

theorem congestion_window_bounds:
  assumes reach: "cubic_step\<^sup>*\<^sup>* (NewCubicSender rtt size0) c" and size0: "0 < size0" "size0 \<le> 65535"
  shows "2 * size0 \<le> cs_congestionWindow c \<and> cs_congestionWindow c < 10001 * cs_maxDatagramSize c
    \<and> cs_congestionWindow c \<le> cs_congestionWindow (cubic_OnPacketAcked c pn n)
    \<and> cs_congestionWindow (cubic_OnPacketAcked c pn n) \<le> cs_congestionWindow c + cs_maxDatagramSize c
    \<and> (InRecovery (cubic_OnPacketAcked c pn n) \<longrightarrow> cs_congestionWindow (cubic_OnPacketAcked c pn n) = cs_congestionWindow c)
    \<and> (if pn \<le> cs_largestSentAtLastCutback c then OnCongestionEvent c pn = c
       else 10 * cs_congestionWindow (OnCongestionEvent c pn) \<le> max (7 * cs_congestionWindow c + 10) (20 * cs_maxDatagramSize c)
         \<and> max (7 * cs_congestionWindow c - 20) (20 * cs_maxDatagramSize c) \<le> 10 * cs_congestionWindow (OnCongestionEvent c pn)
         \<and> cs_largestSentAtLastCutback (OnCongestionEvent c pn) = cs_largestSentPacketNumber c)"
proof -
  have inv: "cwnd_inv size0 c"
    by (rule cubic_reach_inv [OF assms])
  then have w: "0 \<le> cs_congestionWindow c" "cs_congestionWindow c < 2 ^ 40" "0 < cs_maxDatagramSize c"
    using size0 by (simp_all add: cwnd_inv_def)
  have rec: "cs_congestionWindow (cubic_OnPacketAcked c pn n) = cs_congestionWindow c" if "InRecovery (cubic_OnPacketAcked c pn n)"
  proof -
    have "InRecovery (c\<lparr>cs_largestAckedPacketNumber := max pn (cs_largestAckedPacketNumber c)\<rparr>)"
      using that by (auto simp: cubic_OnPacketAcked_def Let_def InRecovery_def maybeIncreaseCwnd_def split: if_splits)
    then show ?thesis
      by (simp add: cubic_OnPacketAcked_def)
  qed
  show ?thesis
    using inv OnPacketAcked_law(3) [of c pn n] rec reno_decrease [OF w(1,2)] w(3)
    by (auto simp: cwnd_inv_def OnCongestionEvent_def Let_def minCongestionWindow_def minCongestionWindowPackets_def)
qed

theorem congestion_window_bounds_witness:
  "2 * 1252 \<le> cs_congestionWindow (OnCongestionEvent (NewCubicSender NewRTTStats 1252) 7)
   \<and> cs_congestionWindow (cubic_OnPacketAcked (OnCongestionEvent (NewCubicSender NewRTTStats 1252) 7) 9 100000) \<le> 40064 + 1252"
proof -
  let ?c = "OnCongestionEvent (NewCubicSender NewRTTStats 1252) 7"
  have r: "cubic_step\<^sup>*\<^sup>* (NewCubicSender NewRTTStats 1252) ?c"
    using cubic_step.congestion by (rule r_into_rtranclp)
  have "cs_maxDatagramSize ?c = 1252" "cs_congestionWindow ?c \<le> 40064"
    using reno_decrease [of 40064]
    by (simp_all add: OnCongestionEvent_def NewCubicSender_def Let_def initialCongestionWindow_def minCongestionWindow_def
        minCongestionWindowPackets_def)
  then show ?thesis
    using congestion_window_bounds [OF r, of 9 100000] by auto
qed

section \<open>Progress of the pacer\<close>

lemma uint_scaled: "0 \<le> n \<Longrightarrow> n \<le> 65535 \<Longrightarrow> uint (1000000000 * to_u64 n :: u64) = 1000000000 * n"
  by (simp add: uint_word_ariths)

lemma ceil_div: "0 < b \<Longrightarrow> a \<le> b * (if a mod b > 0 then a div b + 1 else a div b)" for a b :: int
proof -
  assume "0 < b"
  then have "a mod b < b" "0 \<le> a mod b"
    by simp_all
  moreover have "b * (a div b) + a mod b = a"
    by simp
  ultimately have "a \<le> b * (a div b) + b" "\<not> 0 < a mod b \<Longrightarrow> a \<le> b * (a div b)"
    by linarith+
  then show ?thesis
    by (simp add: distrib_left)
qed

text \<open>
  C12 (pacer-progress). The pacer asks the sender to wait neither for too short nor forever: it
  names a time unless the bandwidth estimate is zero, and once that time has come, the budget
  allows a datagram of full size, as long as the product of bandwidth and time fits an
  \<^verbatim>\<open>int64\<close>.
\<close>

theorem pacer_budget_after_wait:
  assumes "0 < bw" and budget: "0 \<le> pc_budgetAtLastSent p" "pc_budgetAtLastSent p < pc_maxDatagramSize p" "pc_maxDatagramSize p \<le> 65535"
    and last: "0 < pc_lastSentTime p" and bw: "uint bw < 2 ^ 62" "uint bw * (now - pc_lastSentTime p) < 2 ^ 62" "now - pc_lastSentTime p < 2 ^ 63"
  shows "\<exists>t. pacer_TimeUntilSend p bw = Ok t \<and> pc_lastSentTime p + MinPacingDelay \<le> t \<and> (t \<le> now \<longrightarrow> pc_maxDatagramSize p \<le> Budget p bw now)"
proof -
  define m where "m = pc_maxDatagramSize p - pc_budgetAtLastSent p"
  define diff where "diff = 1000000000 * to_u64 m"
  define d where "d = (if diff mod bw > 0 then diff div bw + 1 else diff div bw)"
  have m: "0 < m" "m \<le> 65535"
    using budget by (simp_all add: m_def)
  have diff: "uint diff = 1000000000 * m"
    using m by (simp add: diff_def uint_scaled)
  have bw0: "0 < uint bw"
    using assms(1) by (simp add: word_less_def)
  have le: "uint diff div uint bw \<le> uint diff"
    using zdiv_mono2 [of "uint diff" 1 "uint bw"] bw0 by simp
  then have "(uint diff div uint bw + 1) mod 2 ^ 64 = uint diff div uint bw + 1"
    using diff m bw0 by (intro mod_pos_pos_trivial) (simp_all add: pos_imp_zdiv_nonneg_iff)
  then have d: "uint d = (if uint diff mod uint bw > 0 then uint diff div uint bw + 1 else uint diff div uint bw)"
    using diff m by (auto simp: d_def word_less_def uint_div uint_mod uint_word_ariths)
  then have d_le: "uint d \<le> 1000000000 * m + 1" "uint diff \<le> uint bw * uint d"
    using ceil_div [OF bw0, of "uint diff"] le diff by auto
  have t: "pacer_TimeUntilSend p bw = Ok (pc_lastSentTime p + max MinPacingDelay (uint d))"
    using budget(2) assms(1) d_le(1) m(2) unfolding pacer_TimeUntilSend_def Let_def m_def [symmetric] diff_def [symmetric] d_def [symmetric]
    by (simp add: to_i64_uint)
  have "pc_maxDatagramSize p \<le> Budget p bw now" if "pc_lastSentTime p + max MinPacingDelay (uint d) \<le> now"
  proof -
    define e where "e = now - pc_lastSentTime p"
    have e: "uint d \<le> e" "0 \<le> e" "e < 2 ^ 63"
      using that bw(3) uint_ge_0 [of d] by (simp_all add: e_def max_def MinPacingDelay_def split: if_splits)
    have "uint bw * uint d \<le> uint bw * e"
      using e bw0 by (intro mult_left_mono) simp_all
    then have "1000000000 * m \<le> uint bw * e"
      using d_le(2) diff by linarith
    then have "m \<le> uint bw * e div 1000000000"
      using zdiv_mono1 [of "1000000000 * m" "uint bw * e" 1000000000] by simp
    moreover have "uint bw * e div 1000000000 < 2 ^ 62"
      using bw(2) e(2) bw0 by (simp add: e_def int_div_less)
    moreover have "pc_maxDatagramSize p \<le> maxBurstSize p bw"
      using budget by (simp add: maxBurstSize_def maxBurstSizePackets_def)
    ultimately show ?thesis
      using last bw(1,2) bw0 e budget
      by (simp add: Budget_def IsZero_def Time_Sub_def e_def [symmetric] to_i64_uint m_def)
  qed
  with t show ?thesis
    by auto
qed

theorem pacer_budget_after_wait_witness:
  "\<exists>t. pacer_TimeUntilSend \<lparr>pc_budgetAtLastSent = 200, pc_maxDatagramSize = 1252, pc_lastSentTime = 1000\<rparr> 300000 = Ok t
     \<and> (t \<le> 5000000 \<longrightarrow> 1252 \<le> Budget \<lparr>pc_budgetAtLastSent = 200, pc_maxDatagramSize = 1252, pc_lastSentTime = 1000\<rparr> 300000 5000000)"
  using pacer_budget_after_wait [of 300000 "\<lparr>pc_budgetAtLastSent = 200, pc_maxDatagramSize = 1252, pc_lastSentTime = 1000\<rparr>" 5000000]
  by auto

end
