(* ===== verification/SentHistory.thy ===== *)
theory SentHistory
  imports ECNTracker Congestion Framer
begin

text \<open>
  The history of sent packets (\<^verbatim>\<open>internal/ackhandler/sent_packet_history.go\<close> and
  \<^verbatim>\<open>packet.go\<close>) and the generators of packet numbers (\<^verbatim>\<open>packet_number_generator.go\<close>). A history
  is a list with one entry per packet number; \<^verbatim>\<open>nil\<close> entries are \<^const>\<open>None\<close>. The functions that
  are passed to \<^verbatim>\<open>Iterate\<close> run over the entries that are present at its start.
\<close>

section \<open>Packets\<close>

type_synonym ackhandler_StreamFrame = "StreamFrame \<times> frameHandler"

record packet =
  p_SendTime :: Time
  p_PacketNumber :: PacketNumber
  p_StreamFrames :: "ackhandler_StreamFrame list"
  p_Frames :: "ackhandler_Frame list"
  p_LargestAcked :: PacketNumber
  p_Length :: ByteCount
  p_EncryptionLevel :: EncryptionLevel
  p_IsPathMTUProbePacket :: bool
  p_includedInBytesInFlight :: bool
  p_declaredLost :: bool
  p_skippedPacket :: bool

definition outstanding :: "packet \<Rightarrow> bool" where
  "outstanding p \<longleftrightarrow> \<not> p_declaredLost p \<and> \<not> p_skippedPacket p \<and> \<not> p_IsPathMTUProbePacket p"

text \<open>A packet with the zero values, as \<^verbatim>\<open>getPacket\<close> returns it.\<close>

definition getPacket :: packet where
  "getPacket = \<lparr>p_SendTime = 0, p_PacketNumber = 0, p_StreamFrames = [], p_Frames = [], p_LargestAcked = 0, p_Length = 0,
     p_EncryptionLevel = EncryptionInitial, p_IsPathMTUProbePacket = False, p_includedInBytesInFlight = False,
     p_declaredLost = False, p_skippedPacket = False\<rparr>"

section \<open>The history\<close>

record sentPacketHistory =
  sh_packets :: "packet option list"
  sh_numOutstanding :: int
  sh_highestPacketNumber :: PacketNumber

definition newSentPacketHistory :: sentPacketHistory where
  "newSentPacketHistory = \<lparr>sh_packets = [], sh_numOutstanding = 0, sh_highestPacketNumber = InvalidPacketNumber\<rparr>"

definition checkSequentialPacketNumberUse :: "sentPacketHistory \<Rightarrow> PacketNumber \<Rightarrow> unit outcome" where
  "checkSequentialPacketNumberUse h pn =
     (if sh_highestPacketNumber h \<noteq> InvalidPacketNumber \<and> pn \<noteq> sh_highestPacketNumber h + 1
      then Panic ''non-sequential packet number use'' else Ok ())"

definition SkippedPacket :: "sentPacketHistory \<Rightarrow> PacketNumber \<Rightarrow> sentPacketHistory outcome" where
  "SkippedPacket h pn =
     bindr (checkSequentialPacketNumberUse h pn) (\<lambda>_.
     Ok (h\<lparr>sh_highestPacketNumber := pn,
          sh_packets := sh_packets h @ [Some (getPacket\<lparr>p_PacketNumber := pn, p_skippedPacket := True\<rparr>)]\<rparr>))"

definition SentNonAckElicitingPacket :: "sentPacketHistory \<Rightarrow> PacketNumber \<Rightarrow> sentPacketHistory outcome" where
  "SentNonAckElicitingPacket h pn =
     bindr (checkSequentialPacketNumberUse h pn) (\<lambda>_.
     let h = h\<lparr>sh_highestPacketNumber := pn\<rparr>
     in Ok (if length (sh_packets h) > 0 then h\<lparr>sh_packets := sh_packets h @ [None]\<rparr> else h))"

definition SentAckElicitingPacket :: "sentPacketHistory \<Rightarrow> packet \<Rightarrow> sentPacketHistory outcome" where
  "SentAckElicitingPacket h p =
     bindr (checkSequentialPacketNumberUse h (p_PacketNumber p)) (\<lambda>_.
     let h = h\<lparr>sh_highestPacketNumber := p_PacketNumber p, sh_packets := sh_packets h @ [Some p]\<rparr>
     in Ok (if outstanding p then h\<lparr>sh_numOutstanding := sh_numOutstanding h + 1\<rparr> else h))"

text \<open>The packets that \<^verbatim>\<open>Iterate\<close> visits, in order.\<close>

definition Iterate :: "sentPacketHistory \<Rightarrow> packet list" where
  "Iterate h = List.map_filter id (sh_packets h)"

definition HasOutstandingPackets :: "sentPacketHistory \<Rightarrow> bool" where
  "HasOutstandingPackets h \<longleftrightarrow> sh_numOutstanding h > 0"

definition FirstOutstanding :: "sentPacketHistory \<Rightarrow> packet option" where
  "FirstOutstanding h = (if \<not> HasOutstandingPackets h then None else find outstanding (Iterate h))"

definition history_Len :: "sentPacketHistory \<Rightarrow> int" where
  "history_Len h = int (length (sh_packets h))"

text \<open>The first packet is dereferenced: it must not be \<^verbatim>\<open>nil\<close>.\<close>

definition getIndex :: "sentPacketHistory \<Rightarrow> PacketNumber \<Rightarrow> nat option outcome" where
  "getIndex h p =
     (case sh_packets h of
        [] \<Rightarrow> Ok None
      | None # _ \<Rightarrow> Panic ''invalid memory address or nil pointer dereference''
      | Some q # _ \<Rightarrow>
          let first = p_PacketNumber q in
          if p < first then Ok None
          else
            let index = p - first
            in if index > int (length (sh_packets h)) - 1 then Ok None else Ok (Some (nat index)))"

definition cleanupStart :: "sentPacketHistory \<Rightarrow> sentPacketHistory" where
  "cleanupStart h = h\<lparr>sh_packets := dropWhile (\<lambda>p. p = None) (sh_packets h)\<rparr>"

text \<open>The loop of \<^verbatim>\<open>Remove\<close> over the skipped packets directly before an index.\<close>

fun cleanupSkipped :: "packet option list \<Rightarrow> nat \<Rightarrow> packet option list \<times> nat" where
  "cleanupSkipped ps 0 = (ps, 0)"
| "cleanupSkipped ps (Suc idx) =
     (case ps ! idx of
        None \<Rightarrow> (ps, idx)
      | Some p \<Rightarrow> if \<not> p_skippedPacket p then (ps, idx) else cleanupSkipped (ps[idx := None]) idx)"

text \<open>Taking a packet out of the history, which \<^verbatim>\<open>Remove\<close> and \<^verbatim>\<open>DeclareLost\<close> have in common.\<close>

definition takeOut :: "sentPacketHistory \<Rightarrow> nat \<Rightarrow> sentPacketHistory outcome" where
  "takeOut h idx =
     (case sh_packets h ! idx of
        None \<Rightarrow> Panic ''invalid memory address or nil pointer dereference''
      | Some p \<Rightarrow>
          let h = (if outstanding p then h\<lparr>sh_numOutstanding := sh_numOutstanding h - 1\<rparr> else h)
          in if sh_numOutstanding h < 0 \<and> outstanding p then Panic ''negative number of outstanding packets''
             else Ok (h\<lparr>sh_packets := (sh_packets h)[idx := None]\<rparr>))"

definition history_Remove :: "sentPacketHistory \<Rightarrow> PacketNumber \<Rightarrow> sentPacketHistory outcome" where
  "history_Remove h pn =
     bindr (getIndex h pn) (\<lambda>r.
     case r of
       None \<Rightarrow> Err (ErrorString ''packet not found in sent packet history'')
     | Some idx \<Rightarrow>
         bindr (takeOut h idx) (\<lambda>h.
         let (ps, idx) = cleanupSkipped (sh_packets h) idx;
             h = h\<lparr>sh_packets := ps\<rparr>;
             h = (if idx = 0 then cleanupStart h else h)
         in if length (sh_packets h) > 0 \<and> sh_packets h ! 0 = None then Panic ''remove failed'' else Ok h))"

definition LowestPacketNumber :: "sentPacketHistory \<Rightarrow> PacketNumber outcome" where
  "LowestPacketNumber h =
     (case sh_packets h of
        [] \<Rightarrow> Ok InvalidPacketNumber
      | None # _ \<Rightarrow> Panic ''invalid memory address or nil pointer dereference''
      | Some p # _ \<Rightarrow> Ok (p_PacketNumber p))"

definition DeclareLost :: "sentPacketHistory \<Rightarrow> PacketNumber \<Rightarrow> sentPacketHistory outcome" where
  "DeclareLost h pn =
     bindr (getIndex h pn) (\<lambda>r.
     case r of
       None \<Rightarrow> Ok h
     | Some idx \<Rightarrow> bindr (takeOut h idx) (\<lambda>h. Ok (if idx = 0 then cleanupStart h else h)))"

section \<open>Packet numbers\<close>

text \<open>
  The random numbers of \<^verbatim>\<open>utils.Rand\<close> are the four-byte values that \<^verbatim>\<open>crypto/rand\<close> returns one
  after the other. \<^verbatim>\<open>Int31n\<close> is only called with powers of two, for which it masks.
\<close>

record Rand =
  rand_values :: "nat \<Rightarrow> 32 word"
  rand_reads :: nat

definition Int31 :: "Rand \<Rightarrow> Rand \<times> int" where
  "Int31 r = (r\<lparr>rand_reads := rand_reads r + 1\<rparr>, uint (rand_values r (rand_reads r) AND NOT 0x80000000))"

definition Int31n :: "Rand \<Rightarrow> int \<Rightarrow> Rand \<times> int" where
  "Int31n r n = (let (r, v) = Int31 r in (r, v AND (n - 1)))"

record skippingPacketNumberGenerator =
  spg_period :: PacketNumber
  spg_maxPeriod :: PacketNumber
  spg_next :: PacketNumber
  spg_nextToSkip :: PacketNumber
  spg_rng :: Rand

definition generateNewSkip :: "skippingPacketNumberGenerator \<Rightarrow> skippingPacketNumberGenerator" where
  "generateNewSkip p =
     (let (rng, n) = Int31n (spg_rng p) (2 * spg_period p)
      in p\<lparr>spg_rng := rng, spg_nextToSkip := spg_next p + 3 + n, spg_period := min (2 * spg_period p) (spg_maxPeriod p)\<rparr>)"

text \<open>The two implementations of the interface \<^verbatim>\<open>packetNumberGenerator\<close>.\<close>

datatype packetNumberGenerator =
    sequentialPacketNumberGenerator PacketNumber
  | SkippingPacketNumberGenerator skippingPacketNumberGenerator

definition newSequentialPacketNumberGenerator :: "PacketNumber \<Rightarrow> packetNumberGenerator" where
  "newSequentialPacketNumberGenerator initial = sequentialPacketNumberGenerator initial"

definition newSkippingPacketNumberGenerator :: "Rand \<Rightarrow> PacketNumber \<Rightarrow> PacketNumber \<Rightarrow> PacketNumber \<Rightarrow> packetNumberGenerator" where
  "newSkippingPacketNumberGenerator rng initial initialPeriod maxPeriod =
     SkippingPacketNumberGenerator (generateNewSkip \<lparr>spg_period = initialPeriod, spg_maxPeriod = maxPeriod, spg_next = initial,
       spg_nextToSkip = 0, spg_rng = rng\<rparr>)"

definition generator_Peek :: "packetNumberGenerator \<Rightarrow> PacketNumber" where
  "generator_Peek g =
     (case g of
        sequentialPacketNumberGenerator n \<Rightarrow> n
      | SkippingPacketNumberGenerator p \<Rightarrow> if spg_next p = spg_nextToSkip p then spg_next p + 1 else spg_next p)"

definition generator_Pop :: "packetNumberGenerator \<Rightarrow> packetNumberGenerator \<times> bool \<times> PacketNumber" where
  "generator_Pop g =
     (case g of
        sequentialPacketNumberGenerator n \<Rightarrow> (sequentialPacketNumberGenerator (n + 1), False, n)
      | SkippingPacketNumberGenerator p \<Rightarrow>
          if spg_next p = spg_nextToSkip p
          then (SkippingPacketNumberGenerator (generateNewSkip (p\<lparr>spg_next := spg_next p + 2\<rparr>)), True, spg_next p + 1)
          else (SkippingPacketNumberGenerator (p\<lparr>spg_next := spg_next p + 1\<rparr>), False, spg_next p))"

section \<open>The history as a list of packets\<close>

text \<open>The entries are numbered consecutively from \<open>f\<close>.\<close>

fun numbered :: "PacketNumber \<Rightarrow> packet option list \<Rightarrow> bool" where
  "numbered f [] \<longleftrightarrow> True"
| "numbered f (x # xs) \<longleftrightarrow> (case x of None \<Rightarrow> True | Some p \<Rightarrow> p_PacketNumber p = f) \<and> numbered (f + 1) xs"

definition somes :: "packet option list \<Rightarrow> packet list" where
  "somes xs = List.map_filter id xs"

lemma somes_simps [simp]:
  "somes [] = []" "somes (None # xs) = somes xs" "somes (Some p # xs) = p # somes xs" "somes (xs @ ys) = somes xs @ somes ys"
  by (induction xs) (auto simp: somes_def map_filter_simps split: option.splits)

lemma numbered_append [simp]: "numbered f (xs @ ys) \<longleftrightarrow> numbered f xs \<and> numbered (f + int (length xs)) ys"
  by (induction xs arbitrary: f) (auto simp: algebra_simps)

lemma numbered_bounds: "numbered f xs \<Longrightarrow> p \<in> set (somes xs) \<Longrightarrow> f \<le> p_PacketNumber p \<and> p_PacketNumber p < f + int (length xs)"
  by (induction xs arbitrary: f) (fastforce split: option.splits)+

lemma numbered_sorted: "numbered f xs \<Longrightarrow> sorted_wrt (<) (map p_PacketNumber (somes xs))"
proof (induction xs arbitrary: f)
  case (Cons x xs)
  then show ?case
    using numbered_bounds [of "f + 1" xs] by (cases x) fastforce+
qed simp

lemma numbered_at:
  assumes "numbered f xs" "p \<in> set (somes xs)"
  obtains a b where "xs = a @ Some p # b" "int (length a) = p_PacketNumber p - f"
proof -
  have "\<exists>a b. xs = a @ Some p # b \<and> int (length a) = p_PacketNumber p - f"
    using assms
  proof (induction xs arbitrary: f)
    case (Cons x xs)
    show ?case
    proof (cases "x = Some p")
      case True
      then show ?thesis
        using Cons.prems by (intro exI [of _ "[]"] exI [of _ xs]) simp
    next
      case False
      then have "p \<in> set (somes xs)"
        using Cons.prems by (cases x) auto
      then obtain a b where "xs = a @ Some p # b" "int (length a) = p_PacketNumber p - (f + 1)"
        using Cons.IH [of "f + 1"] Cons.prems(1) by auto
      then show ?thesis
        by (intro exI [of _ "x # a"] exI [of _ b]) simp
    qed
  qed simp
  then show thesis
    using that by blast
qed

lemma numbered_upd: "numbered f xs \<Longrightarrow> numbered f (xs[i := None])"
  by (induction xs arbitrary: f i) (auto split: nat.splits)

lemma filter_other_pn:
  assumes "numbered f (a @ Some p # b)"
  shows "filter (\<lambda>q. p_PacketNumber q \<noteq> p_PacketNumber p) (somes (a @ Some p # b)) = somes a @ somes b"
proof -
  have n: "numbered f a" "p_PacketNumber p = f + int (length a)" "numbered (f + int (length a) + 1) b"
    using assms by simp_all
  have "filter (\<lambda>q. p_PacketNumber q \<noteq> p_PacketNumber p) (somes a) = somes a"
       "filter (\<lambda>q. p_PacketNumber q \<noteq> p_PacketNumber p) (somes b) = somes b"
    using numbered_bounds [OF n(1)] numbered_bounds [OF n(3)] n(2) by (fastforce simp: filter_id_conv)+
  then show ?thesis
    by simp
qed

lemma somes_dropWhile [simp]: "somes (dropWhile (\<lambda>p. p = None) xs) = somes xs"
  by (induction xs) auto

lemma numbered_dropWhile: "numbered f xs \<Longrightarrow> numbered (f + int (length xs) - int (length (dropWhile (\<lambda>p. p = None) xs))) (dropWhile (\<lambda>p. p = None) xs)"
proof (induction xs arbitrary: f)
  case (Cons x xs)
  then show ?case
    using Cons.IH [of "f + 1"] by (cases x) (auto simp: algebra_simps)
qed simp

definition hist_inv :: "sentPacketHistory \<Rightarrow> bool" where
  "hist_inv h \<longleftrightarrow>
     (sh_packets h \<noteq> [] \<longrightarrow> hd (sh_packets h) \<noteq> None \<and> 0 \<le> sh_highestPacketNumber h)
     \<and> numbered (sh_highestPacketNumber h - int (length (sh_packets h)) + 1) (sh_packets h)
     \<and> sh_numOutstanding h = int (length (filter outstanding (Iterate h))) \<and> - 1 \<le> sh_highestPacketNumber h"

definition live :: "sentPacketHistory \<Rightarrow> packet list" where
  "live h = filter (\<lambda>p. \<not> p_skippedPacket p) (Iterate h)"

lemma Iterate_somes: "Iterate h = somes (sh_packets h)"
  by (simp add: Iterate_def somes_def)

lemma newHistory_hist_inv: "hist_inv newSentPacketHistory"
  by (simp add: hist_inv_def newSentPacketHistory_def Iterate_somes InvalidPacketNumber_def)

lemma hist_inv_sorted: "hist_inv h \<Longrightarrow> sorted_wrt (<) (map p_PacketNumber (Iterate h))"
  using numbered_sorted by (auto simp: hist_inv_def Iterate_somes)

lemma Iterate_le_highest: "hist_inv h \<Longrightarrow> p \<in> set (Iterate h) \<Longrightarrow> p_PacketNumber p \<le> sh_highestPacketNumber h"
  using numbered_bounds [of "sh_highestPacketNumber h - int (length (sh_packets h)) + 1" "sh_packets h" p]
  by (simp add: hist_inv_def Iterate_somes)

text \<open>A packet number may be used next.\<close>

definition next_pn :: "sentPacketHistory \<Rightarrow> PacketNumber \<Rightarrow> bool" where
  "next_pn h pn \<longleftrightarrow> 0 \<le> pn \<and> (sh_highestPacketNumber h = InvalidPacketNumber \<or> pn = sh_highestPacketNumber h + 1)"

lemma next_pn_check: "next_pn h pn \<Longrightarrow> checkSequentialPacketNumberUse h pn = Ok ()"
  by (auto simp: next_pn_def checkSequentialPacketNumberUse_def)

lemma hist_inv_append:
  assumes "hist_inv h" "next_pn h pn" "x = None \<longrightarrow> sh_packets h \<noteq> []" "\<forall>p. x = Some p \<longrightarrow> p_PacketNumber p = pn"
  shows "hist_inv (h\<lparr>sh_packets := sh_packets h @ [x], sh_highestPacketNumber := pn,
    sh_numOutstanding := sh_numOutstanding h + (case x of Some p \<Rightarrow> if outstanding p then 1 else 0 | None \<Rightarrow> 0)\<rparr>)"
proof (cases "sh_packets h = []")
  case True
  then show ?thesis
    using assms by (cases x) (auto simp: hist_inv_def next_pn_def Iterate_somes)
next
  case False
  then have "pn = sh_highestPacketNumber h + 1"
    using assms(1,2) by (auto simp: hist_inv_def next_pn_def InvalidPacketNumber_def)
  then show ?thesis
    using assms False by (cases x) (auto simp: hist_inv_def next_pn_def Iterate_somes)
qed

lemma SkippedPacket_law:
  assumes "hist_inv h" "next_pn h pn"
  obtains h' where "SkippedPacket h pn = Ok h'" "hist_inv h'" "live h' = live h" "sh_highestPacketNumber h' = pn"
    "Iterate h' = Iterate h @ [getPacket\<lparr>p_PacketNumber := pn, p_skippedPacket := True\<rparr>]"
    "sh_numOutstanding h' = sh_numOutstanding h"
proof -
  have "SkippedPacket h pn = Ok (h\<lparr>sh_packets := sh_packets h @ [Some (getPacket\<lparr>p_PacketNumber := pn, p_skippedPacket := True\<rparr>)],
      sh_highestPacketNumber := pn, sh_numOutstanding := sh_numOutstanding h + 0\<rparr>)" (is "_ = Ok ?h")
    using next_pn_check [OF assms(2)] by (simp add: SkippedPacket_def)
  moreover have "hist_inv ?h"
    using hist_inv_append [OF assms, of "Some (getPacket\<lparr>p_PacketNumber := pn, p_skippedPacket := True\<rparr>)"]
    by (simp add: outstanding_def)
  ultimately show thesis
    by (rule that) (simp_all add: live_def Iterate_somes)
qed

lemma SentNonAckEliciting_law:
  assumes "hist_inv h" "next_pn h pn"
  obtains h' where "SentNonAckElicitingPacket h pn = Ok h'" "hist_inv h'" "Iterate h' = Iterate h" "sh_highestPacketNumber h' = pn"
    "sh_numOutstanding h' = sh_numOutstanding h"
proof (cases "sh_packets h = []")
  case True
  then have "SentNonAckElicitingPacket h pn = Ok (h\<lparr>sh_highestPacketNumber := pn\<rparr>)" "hist_inv (h\<lparr>sh_highestPacketNumber := pn\<rparr>)"
    using next_pn_check [OF assms(2)] assms by (simp_all add: SentNonAckElicitingPacket_def hist_inv_def Iterate_somes next_pn_def)
  then show thesis
    by (rule that) (simp_all add: Iterate_somes True)
next
  case False
  then have "SentNonAckElicitingPacket h pn = Ok (h\<lparr>sh_packets := sh_packets h @ [None], sh_highestPacketNumber := pn,
      sh_numOutstanding := sh_numOutstanding h + 0\<rparr>)" (is "_ = Ok ?h")
    using next_pn_check [OF assms(2)] by (simp add: SentNonAckElicitingPacket_def)
  moreover have "hist_inv ?h"
    using hist_inv_append [OF assms, of None] False by simp
  ultimately show thesis
    by (rule that) (simp_all add: Iterate_somes)
qed

lemma SentAckEliciting_law:
  assumes "hist_inv h" "next_pn h (p_PacketNumber p)"
  obtains h' where "SentAckElicitingPacket h p = Ok h'" "hist_inv h'" "Iterate h' = Iterate h @ [p]"
    "sh_highestPacketNumber h' = p_PacketNumber p"
proof -
  have "SentAckElicitingPacket h p = Ok (h\<lparr>sh_packets := sh_packets h @ [Some p], sh_highestPacketNumber := p_PacketNumber p,
      sh_numOutstanding := sh_numOutstanding h + (if outstanding p then 1 else 0)\<rparr>)" (is "_ = Ok ?h")
    using next_pn_check [OF assms(2)] by (simp add: SentAckElicitingPacket_def)
  moreover have "hist_inv ?h"
    using hist_inv_append [OF assms, of "Some p"] by simp
  ultimately show thesis
    by (rule that) (simp_all add: Iterate_somes)
qed

section \<open>Taking packets out\<close>

lemma hist_at:
  assumes "hist_inv h" "p \<in> set (Iterate h)"
  obtains a b where "sh_packets h = a @ Some p # b" "getIndex h (p_PacketNumber p) = Ok (Some (length a))"
proof -
  let ?f = "sh_highestPacketNumber h - int (length (sh_packets h)) + 1"
  have n: "numbered ?f (sh_packets h)"
    using assms(1) by (simp add: hist_inv_def)
  from numbered_at [OF n] assms(2) obtain a b where ab: "sh_packets h = a @ Some p # b" "int (length a) = p_PacketNumber p - ?f"
    by (auto simp: Iterate_somes)
  have "sh_packets h \<noteq> []" "hd (sh_packets h) \<noteq> None"
    using assms(1) ab(1) by (simp_all add: hist_inv_def)
  then obtain q r where q: "sh_packets h = Some q # r"
    by (cases "sh_packets h") auto
  then have "p_PacketNumber q = ?f"
    using n by simp
  then have "p_PacketNumber p - p_PacketNumber q = int (length a)"
    using ab(2) by simp
  moreover have "length a < Suc (length r)"
    using arg_cong [OF trans [OF ab(1) [symmetric] q], of length] by simp
  ultimately have "getIndex h (p_PacketNumber p) = Ok (Some (length a))"
    by (simp add: getIndex_def q)
  with ab(1) show thesis
    by (rule that)
qed

lemma takeOut_law:
  assumes "hist_inv h" "sh_packets h = a @ Some p # b"
  shows "takeOut h (length a) = Ok (h\<lparr>sh_packets := a @ None # b,
    sh_numOutstanding := int (length (filter outstanding (somes (a @ None # b))))\<rparr>)"
proof -
  have "sh_numOutstanding h = int (length (filter outstanding (somes (a @ Some p # b))))"
    using assms by (simp add: hist_inv_def Iterate_somes)
  then show ?thesis
    using assms(2) by (auto simp: takeOut_def)
qed

lemma hist_inv_cleanup:
  assumes "numbered (sh_highestPacketNumber h - int (length ps) + 1) ps" "- 1 \<le> sh_highestPacketNumber h"
    "ps \<noteq> [] \<longrightarrow> 0 \<le> sh_highestPacketNumber h" "sh_numOutstanding h = int (length (filter outstanding (somes ps)))"
  shows "hist_inv (h\<lparr>sh_packets := dropWhile (\<lambda>p. p = None) ps\<rparr>)"
proof -
  have "numbered (sh_highestPacketNumber h - int (length (dropWhile (\<lambda>p. p = None) ps)) + 1) (dropWhile (\<lambda>p. p = None) ps)"
    using numbered_dropWhile [OF assms(1)] by (simp add: algebra_simps)
  moreover have "hd (dropWhile (\<lambda>p. p = None) ps) \<noteq> None" "ps \<noteq> []" if "dropWhile (\<lambda>p. p = None) ps \<noteq> []"
    using hd_dropWhile [OF that] that by auto
  ultimately show ?thesis
    using assms(2-4) by (auto simp: hist_inv_def Iterate_somes)
qed

lemma DeclareLost_law:
  assumes "hist_inv h" "p \<in> set (Iterate h)"
  obtains h' where "DeclareLost h (p_PacketNumber p) = Ok h'" "hist_inv h'"
    "Iterate h' = filter (\<lambda>q. p_PacketNumber q \<noteq> p_PacketNumber p) (Iterate h)" "sh_highestPacketNumber h' = sh_highestPacketNumber h"
proof -
  obtain a b where ab: "sh_packets h = a @ Some p # b" "getIndex h (p_PacketNumber p) = Ok (Some (length a))"
    by (rule hist_at [OF assms])
  define k where "k = h\<lparr>sh_packets := a @ None # b, sh_numOutstanding := int (length (filter outstanding (somes (a @ None # b))))\<rparr>"
  have n: "numbered (sh_highestPacketNumber h - int (length (a @ None # b)) + 1) (a @ None # b)" "0 \<le> sh_highestPacketNumber h"
    using assms(1) by (auto simp: hist_inv_def ab(1))
  have k: "sh_packets k = a @ None # b" "sh_highestPacketNumber k = sh_highestPacketNumber h" "Iterate k = somes (a @ None # b)"
    by (simp_all add: k_def Iterate_somes)
  have it: "somes (a @ None # b) = filter (\<lambda>q. p_PacketNumber q \<noteq> p_PacketNumber p) (Iterate h)"
    using filter_other_pn [of "sh_highestPacketNumber h - int (length (a @ Some p # b)) + 1" a p b] assms(1)
    by (simp add: hist_inv_def Iterate_somes ab(1))
  have d: "DeclareLost h (p_PacketNumber p) = Ok (if a = [] then cleanupStart k else k)"
    using takeOut_law [OF assms(1) ab(1)] ab(2) by (simp add: DeclareLost_def k_def)
  have "hist_inv (if a = [] then cleanupStart k else k)"
  proof (cases "a = []")
    case True
    then show ?thesis
      using hist_inv_cleanup [of k "a @ None # b"] n k by (simp add: cleanupStart_def k_def)
  next
    case False
    then show ?thesis
      using n assms(1) by (auto simp: hist_inv_def ab(1) Iterate_somes k_def)
  qed
  with d show thesis
    using it by (intro that [of "if a = [] then cleanupStart k else k"]) (auto simp: k cleanupStart_def Iterate_somes)
qed

lemma cleanupSkipped_law:
  assumes "cleanupSkipped ps idx = (ps', idx')" "idx \<le> length ps" "numbered f ps"
  shows "length ps' = length ps" "drop idx ps' = drop idx ps" "numbered f ps'" "idx' \<le> idx"
    "filter (\<lambda>p. \<not> p_skippedPacket p) (somes ps') = filter (\<lambda>p. \<not> p_skippedPacket p) (somes ps)"
    "set (somes ps') \<subseteq> set (somes ps)" "idx' \<noteq> 0 \<Longrightarrow> ps' ! 0 = ps ! 0"
    "filter outstanding (somes ps') = filter outstanding (somes ps)"
proof -
  have "length ps' = length ps \<and> drop idx ps' = drop idx ps \<and> numbered f ps' \<and> idx' \<le> idx
    \<and> filter (\<lambda>p. \<not> p_skippedPacket p) (somes ps') = filter (\<lambda>p. \<not> p_skippedPacket p) (somes ps)
    \<and> set (somes ps') \<subseteq> set (somes ps) \<and> (idx' \<noteq> 0 \<longrightarrow> ps' ! 0 = ps ! 0) \<and> filter outstanding (somes ps') = filter outstanding (somes ps)"
    using assms
  proof (induction ps idx rule: cleanupSkipped.induct)
    case (2 ps idx)
    show ?case
    proof (cases "\<exists>p. ps ! idx = Some p \<and> p_skippedPacket p")
      case False
      then show ?thesis
        using 2(2,3,4) by (auto split: option.splits if_splits)
    next
      case True
      then obtain p where p: "ps ! idx = Some p" "p_skippedPacket p"
        by blast
      obtain a b where ab: "ps = a @ Some p # b" "length a = idx"
        using 2(3) p(1) by (metis Suc_le_lessD id_take_nth_drop length_take min.absorb2 less_imp_le)
      then have u: "ps[idx := None] = a @ None # b"
        by (simp add: ab(1) flip: ab(2))
      have c: "cleanupSkipped (ps[idx := None]) idx = (ps', idx')"
        using 2(2) p by simp
      have "\<not> \<not> p_skippedPacket p" "idx \<le> length (ps[idx := None])"
        using p(2) 2(3) by simp_all
      note IH = 2(1) [OF p(1) this(1) c this(2) numbered_upd [OF 2(4)], unfolded u]
      have "drop (Suc idx) ps' = tl (drop idx ps')"
        by (simp add: drop_Suc tl_drop)
      also have "drop idx ps' = drop idx (a @ None # b)"
        using IH by blast
      finally have d: "drop (Suc idx) ps' = drop (Suc idx) ps"
        using ab by (auto simp: drop_Suc)
      have z: "idx' \<noteq> 0 \<longrightarrow> ps' ! 0 = ps ! 0"
      proof
        assume "idx' \<noteq> 0"
        then have "a \<noteq> []" "ps' ! 0 = (a @ None # b) ! 0"
          using IH ab(2) by auto
        then show "ps' ! 0 = ps ! 0"
          by (simp add: ab(1) nth_append)
      qed
      have "filter (\<lambda>p. \<not> p_skippedPacket p) (somes (a @ None # b)) = filter (\<lambda>p. \<not> p_skippedPacket p) (somes ps)"
        "filter outstanding (somes (a @ None # b)) = filter outstanding (somes ps)" "set (somes (a @ None # b)) \<subseteq> set (somes ps)"
        "length (a @ None # b) = length ps"
        using p(2) by (auto simp: ab(1) outstanding_def)
      then show ?thesis
        using IH d z by (metis (no_types, lifting) le_SucI subset_trans)
    qed
  qed auto
  then show "length ps' = length ps" "drop idx ps' = drop idx ps" "numbered f ps'" "idx' \<le> idx"
    "filter (\<lambda>p. \<not> p_skippedPacket p) (somes ps') = filter (\<lambda>p. \<not> p_skippedPacket p) (somes ps)"
    "set (somes ps') \<subseteq> set (somes ps)" "idx' \<noteq> 0 \<Longrightarrow> ps' ! 0 = ps ! 0"
    "filter outstanding (somes ps') = filter outstanding (somes ps)"
    by blast+
qed


lemma Remove_law:
  assumes "hist_inv h" "p \<in> set (Iterate h)"
  obtains h' where "history_Remove h (p_PacketNumber p) = Ok h'" "hist_inv h'"
    "live h' = filter (\<lambda>q. p_PacketNumber q \<noteq> p_PacketNumber p) (live h)" "set (Iterate h') \<subseteq> set (Iterate h) - {p}"
    "\<forall>q \<in> set (Iterate h). p_PacketNumber p < p_PacketNumber q \<longrightarrow> q \<in> set (Iterate h')"
    "sh_highestPacketNumber h' = sh_highestPacketNumber h"
proof -
  obtain a b where ab: "sh_packets h = a @ Some p # b" "getIndex h (p_PacketNumber p) = Ok (Some (length a))"
    by (rule hist_at [OF assms])
  obtain ps i where c: "cleanupSkipped (a @ None # b) (length a) = (ps, i)"
    by fastforce
  define f where "f = sh_highestPacketNumber h - int (length (sh_packets h)) + 1"
  have f: "numbered f (a @ Some p # b)"
    using assms(1) by (simp add: hist_inv_def f_def flip: ab(1))
  then have n: "numbered f (a @ None # b)"
    by simp
  note law = cleanupSkipped_law [OF c _ n, simplified]
  obtain g where g: "takeOut h (length a) = Ok g" "sh_packets g = a @ None # b" "sh_highestPacketNumber g = sh_highestPacketNumber h"
      "sh_numOutstanding g = int (length (filter outstanding (somes (a @ None # b))))"
    by (rule that [OF takeOut_law [OF assms(1) ab(1)]]) simp_all
  define k where "k = g\<lparr>sh_packets := ps\<rparr>"
  define h' where "h' = (if i = 0 then cleanupStart k else k)"
  have k: "sh_packets k = ps" "sh_highestPacketNumber k = sh_highestPacketNumber h" "sh_numOutstanding k = int (length (filter outstanding (somes ps)))"
    using law(8) g by (simp_all add: k_def)
  have t: "history_Remove h (p_PacketNumber p) = (if sh_packets h' \<noteq> [] \<and> sh_packets h' ! 0 = None then Panic ''remove failed'' else Ok h')"
    by (simp add: history_Remove_def ab(2) g(1,2) c k_def h'_def Let_def)
  have it: "Iterate h' = somes ps" "sh_highestPacketNumber h' = sh_highestPacketNumber h"
    by (simp_all add: h'_def k cleanupStart_def Iterate_somes)
  have len: "length ps = length (sh_packets h)" "ps \<noteq> []"
    using law(1) by (auto simp: ab(1))
  have hi: "0 \<le> sh_highestPacketNumber h"
    using assms(1) ab(1) by (simp add: hist_inv_def)
  have inv: "hist_inv h'"
  proof (cases "i = 0")
    case True
    then show ?thesis
      using hist_inv_cleanup [of k ps] law(3) len hi by (simp add: h'_def k cleanupStart_def f_def)
  next
    case False
    then have "a \<noteq> []" "ps ! 0 = (a @ None # b) ! 0"
      using law(4,7) by auto
    then have "hd ps = hd (sh_packets h)"
      using len by (simp add: hd_conv_nth ab(1) nth_append)
    then show ?thesis
      using False law(3) len assms(1) ab(1) by (auto simp: h'_def k f_def hist_inv_def Iterate_somes)
  qed
  then have "sh_packets h' \<noteq> [] \<Longrightarrow> sh_packets h' ! 0 \<noteq> None"
    by (simp add: hist_inv_def hd_conv_nth)
  then have r: "history_Remove h (p_PacketNumber p) = Ok h'"
    using t by auto
  have o: "somes (a @ None # b) = filter (\<lambda>q. p_PacketNumber q \<noteq> p_PacketNumber p) (Iterate h)"
    using filter_other_pn [OF f] by (simp add: Iterate_somes ab(1))
  have l: "live h' = filter (\<lambda>q. p_PacketNumber q \<noteq> p_PacketNumber p) (live h)"
  proof -
    have "filter (\<lambda>p. \<not> p_skippedPacket p) (somes ps) = filter (\<lambda>p. \<not> p_skippedPacket p) (somes (a @ None # b))"
      using law(5) by simp
    then show ?thesis
      unfolding live_def it(1) o by (simp add: conj_commute)
  qed
  have s: "set (Iterate h') \<subseteq> set (Iterate h) - {p}"
  proof -
    have "set (somes ps) \<subseteq> set (somes (a @ None # b))"
      using law(6) by simp
    then show ?thesis
      unfolding it(1) o by auto
  qed
  have "q \<in> set (somes ps)" if q: "q \<in> set (Iterate h)" "p_PacketNumber p < p_PacketNumber q" for q
  proof -
    have "q \<in> set (somes a) \<or> q = p \<or> q \<in> set (somes b)"
      using q(1) by (auto simp: Iterate_somes ab(1))
    moreover have "q \<notin> set (somes a)"
      using numbered_bounds [of f a q] f q(2) by auto
    ultimately have "q \<in> set (somes (drop (length a) (a @ None # b)))"
      using q(2) by auto
    then have "q \<in> set (somes (drop (length a) ps))"
      using law(2) by simp
    then show ?thesis
      by (metis Un_iff append_take_drop_id set_append somes_simps(4))
  qed
  then show thesis
    using that [OF r inv l s _ it(2)] by (simp add: it(1))
qed

lemma FirstOutstanding_law:
  assumes "hist_inv h"
  shows "FirstOutstanding h = find outstanding (Iterate h)"
proof (cases "HasOutstandingPackets h")
  case False
  then have "filter outstanding (Iterate h) = []"
    using assms by (simp add: HasOutstandingPackets_def hist_inv_def)
  then have "find outstanding (Iterate h) = None"
    by (auto simp: find_None_iff filter_empty_conv)
  then show ?thesis
    using False by (simp add: FirstOutstanding_def)
qed (simp add: FirstOutstanding_def)

lemma HasOutstanding_law: "hist_inv h \<Longrightarrow> HasOutstandingPackets h \<longleftrightarrow> (\<exists>p \<in> set (Iterate h). outstanding p)"
  by (auto simp: HasOutstandingPackets_def hist_inv_def filter_empty_conv)

end
