(* ===== verification/CryptoStream.thy ===== *)
theory CryptoStream
  imports SorterRuns FrameParser
begin

text \<open>
  The crypto streams (\<^verbatim>\<open>src/crypto_stream.go\<close>) and their manager (\<^verbatim>\<open>src/crypto_stream_manager.go\<close>), which carry
  the TLS handshake: one stream per encryption level, without flow control, but with a limit.
\<close>

section \<open>The crypto stream\<close>

definition MaxCryptoStreamOffset :: ByteCount where
  "MaxCryptoStreamOffset = 16 * 2 ^ 10"

definition CryptoBufferExceeded :: u64 where
  "CryptoBufferExceeded = 0xd"

definition ProtocolViolation :: u64 where
  "ProtocolViolation = 0xa"

text \<open>\<^verbatim>\<open>msgBuf\<close> is \<^verbatim>\<open>nil\<close> exactly when it is empty: only non-empty data is appended.\<close>

record cryptoStreamImpl =
  cs_queue :: frameSorter
  cs_msgBuf :: "byte list"
  cs_highestOffset :: ByteCount
  cs_finished :: bool
  cs_writeOffset :: ByteCount
  cs_writeBuf :: "byte list"

definition newCryptoStream :: cryptoStreamImpl where
  "newCryptoStream = \<lparr>cs_queue = newFrameSorter, cs_msgBuf = [], cs_highestOffset = 0, cs_finished = False,
     cs_writeOffset = 0, cs_writeBuf = []\<rparr>"

lemma delete_shorter: "map_of q k = Some e \<Longrightarrow> length (AList.delete k q) < length q"
proof -
  assume "map_of q k = Some e"
  then have "(k, e) \<in> set q"
    by (rule map_of_SomeD)
  then have "length (filter (\<lambda>p. k \<noteq> fst p) q) < length q"
    by (intro length_filter_less [of "(k, e)"]) auto
  then show ?thesis
    by (simp add: AList.delete_eq case_prod_unfold)
qed

lemma Pop_shorter:
  assumes "frameSorter_Pop s = (s', Ok (off, Some d, cb))"
  shows "length (fso_queue s') < length (fso_queue s)"
proof (cases "map_of (fso_queue s) (fso_readPos s)")
  case (Some e)
  then show ?thesis
    using assms delete_shorter [OF Some] by (auto simp: frameSorter_Pop_def Let_def split: list.splits if_splits)
qed (use assms in \<open>simp add: frameSorter_Pop_def\<close>)

text \<open>The loop of \<^verbatim>\<open>HandleCryptoFrame\<close>: everything that is in order is moved to \<^verbatim>\<open>msgBuf\<close>.\<close>

function popAll :: "frameSorter \<Rightarrow> byte list \<Rightarrow> frameSorter \<times> byte list \<times> unit outcome" where
  "popAll q msgBuf =
     (case frameSorter_Pop q of
        (q', Ok (off, Some d, cb)) \<Rightarrow> popAll q' (msgBuf @ d)
      | (q', Ok (off, None, cb)) \<Rightarrow> (q', msgBuf, Ok ())
      | (q', Err e) \<Rightarrow> (q', msgBuf, Err e)
      | (q', Panic m) \<Rightarrow> (q', msgBuf, Panic m))"
  by pat_completeness auto
termination
  by (relation "measure (\<lambda>(q, msgBuf). length (fso_queue q))") (auto dest: Pop_shorter [OF sym])

declare popAll.simps [simp del]

definition cryptoStream_HandleCryptoFrame :: "cryptoStreamImpl \<Rightarrow> CryptoFrame \<Rightarrow> cryptoStreamImpl \<times> unit outcome" where
  "cryptoStream_HandleCryptoFrame s f =
     (let highestOffset = cf_Offset f + int (length (cf_Data f)) in
      if highestOffset > MaxCryptoStreamOffset
      then (s, Err (TransportError 0 CryptoBufferExceeded ''received invalid offset on crypto stream''))
      else if cs_finished s then
        if highestOffset > cs_highestOffset s
        then (s, Err (TransportError 0 ProtocolViolation ''received crypto data after change of encryption level''))
        else (s, Ok ())
      else
        let s = s\<lparr>cs_highestOffset := max (cs_highestOffset s) highestOffset\<rparr> in
        case frameSorter_Push (cs_queue s) (cf_Data f) (cf_Offset f) None of
          (q, Err e) \<Rightarrow> (s\<lparr>cs_queue := q\<rparr>, Err e)
        | (q, Panic m) \<Rightarrow> (s\<lparr>cs_queue := q\<rparr>, Panic m)
        | (q, Ok _) \<Rightarrow>
            let (q, buf, res) = popAll q (cs_msgBuf s)
            in (s\<lparr>cs_queue := q, cs_msgBuf := buf\<rparr>, res))"

definition GetCryptoData :: "cryptoStreamImpl \<Rightarrow> cryptoStreamImpl \<times> byte list" where
  "GetCryptoData s = (s\<lparr>cs_msgBuf := []\<rparr>, cs_msgBuf s)"

definition cryptoStream_Finish :: "cryptoStreamImpl \<Rightarrow> cryptoStreamImpl \<times> unit outcome" where
  "cryptoStream_Finish s =
     (if HasMoreData (cs_queue s)
      then (s, Err (TransportError 0 ProtocolViolation ''encryption level changed, but crypto stream has more data to read''))
      else (s\<lparr>cs_finished := True\<rparr>, Ok ()))"

definition cryptoStream_Write :: "cryptoStreamImpl \<Rightarrow> byte list \<Rightarrow> cryptoStreamImpl \<times> int" where
  "cryptoStream_Write s p = (s\<lparr>cs_writeBuf := cs_writeBuf s @ p\<rparr>, int (length p))"

definition cryptoStream_HasData :: "cryptoStreamImpl \<Rightarrow> bool" where
  "cryptoStream_HasData s \<longleftrightarrow> length (cs_writeBuf s) > 0"

definition PopCryptoFrame :: "cryptoStreamImpl \<Rightarrow> ByteCount \<Rightarrow> (cryptoStreamImpl \<times> CryptoFrame) outcome" where
  "PopCryptoFrame s maxLen =
     bindr (CryptoFrame_MaxDataLen \<lparr>cf_Offset = cs_writeOffset s, cf_Data = []\<rparr> maxLen) (\<lambda>m.
     let n = min m (int (length (cs_writeBuf s))) in
     if n < 0 then Panic ''slice bounds out of range''
     else Ok (s\<lparr>cs_writeBuf := drop (nat n) (cs_writeBuf s), cs_writeOffset := cs_writeOffset s + n\<rparr>,
              \<lparr>cf_Offset = cs_writeOffset s, cf_Data = take (nat n) (cs_writeBuf s)\<rparr>))"

section \<open>The manager\<close>

record cryptoStreamManager =
  csm_initialStream :: cryptoStreamImpl
  csm_handshakeStream :: cryptoStreamImpl
  csm_oneRTTStream :: cryptoStreamImpl

definition newCryptoStreamManager :: "cryptoStreamImpl \<Rightarrow> cryptoStreamImpl \<Rightarrow> cryptoStreamImpl \<Rightarrow> cryptoStreamManager" where
  "newCryptoStreamManager initialStream handshakeStream oneRTTStream =
     \<lparr>csm_initialStream = initialStream, csm_handshakeStream = handshakeStream, csm_oneRTTStream = oneRTTStream\<rparr>"

text \<open>
  The handler of TLS messages, \<^verbatim>\<open>HandleMessage\<close> of the crypto setup, is an argument with its own
  state. It does not touch the crypto streams, so the second pass through the loop finds no
  data.
\<close>

definition handleData :: "('h \<Rightarrow> byte list \<Rightarrow> EncryptionLevel \<Rightarrow> 'h \<times> unit outcome) \<Rightarrow> 'h \<Rightarrow> EncryptionLevel \<Rightarrow> cryptoStreamImpl
    \<Rightarrow> cryptoStreamImpl \<times> 'h \<times> unit outcome" where
  "handleData HandleMessage h encLevel str =
     (let (str, dat) = GetCryptoData str in
      if dat = [] then (str, h, Ok ()) else let (h, err) = HandleMessage h dat encLevel in (str, h, err))"

definition manager_HandleCryptoFrame ::
  "('h \<Rightarrow> byte list \<Rightarrow> EncryptionLevel \<Rightarrow> 'h \<times> unit outcome) \<Rightarrow> cryptoStreamManager \<Rightarrow> 'h \<Rightarrow> CryptoFrame \<Rightarrow> EncryptionLevel
   \<Rightarrow> cryptoStreamManager \<times> 'h \<times> unit outcome" where
  "manager_HandleCryptoFrame HandleMessage m h frame encLevel =
     (let handle = (\<lambda>str. case cryptoStream_HandleCryptoFrame str frame of
                       (str, Ok _) \<Rightarrow> handleData HandleMessage h encLevel str
                     | (str, err) \<Rightarrow> (str, h, err))
      in case encLevel of
           EncryptionInitial \<Rightarrow> let (str, h, err) = handle (csm_initialStream m) in (m\<lparr>csm_initialStream := str\<rparr>, h, err)
         | EncryptionHandshake \<Rightarrow> let (str, h, err) = handle (csm_handshakeStream m) in (m\<lparr>csm_handshakeStream := str\<rparr>, h, err)
         | Encryption1RTT \<Rightarrow> let (str, h, err) = handle (csm_oneRTTStream m) in (m\<lparr>csm_oneRTTStream := str\<rparr>, h, err)
         | Encryption0RTT \<Rightarrow> (m, h, Err (ErrorString ''received CRYPTO frame with unexpected encryption level'')))"

definition GetPostHandshakeData :: "cryptoStreamManager \<Rightarrow> ByteCount \<Rightarrow> (cryptoStreamManager \<times> CryptoFrame option) outcome" where
  "GetPostHandshakeData m maxSize =
     (if \<not> cryptoStream_HasData (csm_oneRTTStream m) then Ok (m, None)
      else bindr (PopCryptoFrame (csm_oneRTTStream m) maxSize) (\<lambda>(str, f). Ok (m\<lparr>csm_oneRTTStream := str\<rparr>, Some f)))"

definition manager_Drop :: "cryptoStreamManager \<Rightarrow> EncryptionLevel \<Rightarrow> cryptoStreamManager \<times> unit outcome" where
  "manager_Drop m encLevel =
     (case encLevel of
        EncryptionInitial \<Rightarrow> let (str, err) = cryptoStream_Finish (csm_initialStream m) in (m\<lparr>csm_initialStream := str\<rparr>, err)
      | EncryptionHandshake \<Rightarrow> let (str, err) = cryptoStream_Finish (csm_handshakeStream m) in (m\<lparr>csm_handshakeStream := str\<rparr>, err)
      | _ \<Rightarrow> (m, Panic ''dropped unexpected encryption level''))"

end
