(* ===== verification/SentPackets.thy ===== *)
theory SentPackets
  imports SentHistory CryptoStream
begin

text \<open>
  Loss detection (\<^verbatim>\<open>internal/ackhandler/sent_packet_handler.go\<close>): the handler of sent packets with
  all its operations. The congestion controller and the ECN tracker are those of the other
  theories. The calls of frame handlers are recorded in order; the tracer and the logger are left
  out. The value of \<^verbatim>\<open>time.Now()\<close> within a call is its argument \<open>now\<close>. An operation that returns
  an error returns it with the new state; \<^const>\<open>Panic\<close> stands for a panic, which includes using a
  packet number space after it was dropped.
\<close>

section \<open>The state\<close>

record packetNumberSpace =
  pns_history :: sentPacketHistory
  pns_pns :: packetNumberGenerator
  pns_lossTime :: Time
  pns_lastAckElicitingPacketTime :: Time
  pns_largestAcked :: PacketNumber
  pns_largestSent :: PacketNumber

definition SkipPacketInitialPeriod :: PacketNumber where
  "SkipPacketInitialPeriod = 256"

definition SkipPacketMaxPeriod :: PacketNumber where
  "SkipPacketMaxPeriod = 128 * 1024"

definition newPacketNumberSpace :: "Rand \<Rightarrow> PacketNumber \<Rightarrow> bool \<Rightarrow> packetNumberSpace" where
  "newPacketNumberSpace rng initialPN skipPNs =
     \<lparr>pns_history = newSentPacketHistory,
      pns_pns = (if skipPNs then newSkippingPacketNumberGenerator rng initialPN SkipPacketInitialPeriod SkipPacketMaxPeriod
                 else newSequentialPacketNumberGenerator initialPN),
      pns_lossTime = 0, pns_lastAckElicitingPacketTime = 0, pns_largestAcked = InvalidPacketNumber,
      pns_largestSent = InvalidPacketNumber\<rparr>"

datatype SendMode = SendNone | SendAck | SendPTOInitial | SendPTOHandshake | SendPTOAppData | SendPacingLimited | SendAny

text \<open>The calls of frame handlers.\<close>

datatype handlerCall = OnAcked frameHandler Frame | OnLost frameHandler Frame

record sentPacketHandler =
  sph_initialPackets :: "packetNumberSpace option"
  sph_handshakePackets :: "packetNumberSpace option"
  sph_appDataPackets :: packetNumberSpace
  sph_peerCompletedAddressValidation :: bool
  sph_bytesReceived :: ByteCount
  sph_bytesSent :: ByteCount
  sph_peerAddressValidated :: bool
  sph_handshakeConfirmed :: bool
  sph_lowestNotConfirmedAcked :: PacketNumber
  sph_bytesInFlight :: ByteCount
  sph_congestion :: cubicSender
  sph_rttStats :: RTTStats
  sph_ptoCount :: "32 word"
  sph_ptoMode :: SendMode
  sph_numProbesToSend :: int
  sph_alarm :: Time
  sph_enableECN :: bool
  sph_ecnTracker :: "ecnTracker option"
  sph_perspective :: Perspective
  sph_calls :: "handlerCall list"

definition newSentPacketHandler :: "Rand \<Rightarrow> PacketNumber \<Rightarrow> ByteCount \<Rightarrow> RTTStats \<Rightarrow> bool \<Rightarrow> bool \<Rightarrow> Perspective \<Rightarrow> sentPacketHandler" where
  "newSentPacketHandler rng initialPN mds rttStats clientAddressValidated enableECN pers =
     \<lparr>sph_initialPackets = Some (newPacketNumberSpace rng initialPN False),
      sph_handshakePackets = Some (newPacketNumberSpace rng 0 False),
      sph_appDataPackets = newPacketNumberSpace rng 0 True,
      sph_peerCompletedAddressValidation = (pers = PerspectiveServer), sph_bytesReceived = 0, sph_bytesSent = 0,
      sph_peerAddressValidated = (pers = PerspectiveClient \<or> clientAddressValidated), sph_handshakeConfirmed = False,
      sph_lowestNotConfirmedAcked = 0, sph_bytesInFlight = 0, sph_congestion = NewCubicSender rttStats mds,
      sph_rttStats = rttStats, sph_ptoCount = 0, sph_ptoMode = SendNone, sph_numProbesToSend = 0, sph_alarm = 0,
      sph_enableECN = enableECN, sph_ecnTracker = (if enableECN then Some newECNTracker else None),
      sph_perspective = pers, sph_calls = []\<rparr>"

abbreviation nilPointer :: string where
  "nilPointer \<equiv> ''invalid memory address or nil pointer dereference''"

fun getPacketNumberSpace :: "sentPacketHandler \<Rightarrow> EncryptionLevel \<Rightarrow> packetNumberSpace option" where
  "getPacketNumberSpace h EncryptionInitial = sph_initialPackets h"
| "getPacketNumberSpace h EncryptionHandshake = sph_handshakePackets h"
| "getPacketNumberSpace h Encryption0RTT = Some (sph_appDataPackets h)"
| "getPacketNumberSpace h Encryption1RTT = Some (sph_appDataPackets h)"

text \<open>The space that a pointer refers to, and a change through the pointer.\<close>

definition theSpace :: "sentPacketHandler \<Rightarrow> EncryptionLevel \<Rightarrow> packetNumberSpace outcome" where
  "theSpace h encLevel = (case getPacketNumberSpace h encLevel of None \<Rightarrow> Panic nilPointer | Some s \<Rightarrow> Ok s)"

fun putSpace :: "sentPacketHandler \<Rightarrow> EncryptionLevel \<Rightarrow> packetNumberSpace \<Rightarrow> sentPacketHandler" where
  "putSpace h EncryptionInitial s = h\<lparr>sph_initialPackets := Some s\<rparr>"
| "putSpace h EncryptionHandshake s = h\<lparr>sph_handshakePackets := Some s\<rparr>"
| "putSpace h Encryption0RTT s = h\<lparr>sph_appDataPackets := s\<rparr>"
| "putSpace h Encryption1RTT s = h\<lparr>sph_appDataPackets := s\<rparr>"

section \<open>Timers\<close>

definition timeThreshold :: rat where
  "timeThreshold = 9 / 8"

definition packetThreshold :: int where
  "packetThreshold = 3"

definition amplificationFactor :: int where
  "amplificationFactor = 3"

definition minRTTAfterRetry :: Duration where
  "minRTTAfterRetry = 5000000"

definition maxPTODuration :: Duration where
  "maxPTODuration = 60000000000"

definition isAmplificationLimited :: "sentPacketHandler \<Rightarrow> bool" where
  "isAmplificationLimited h \<longleftrightarrow>
     (if sph_peerAddressValidated h then False else sph_bytesSent h \<ge> amplificationFactor * sph_bytesReceived h)"

definition getLossTimeAndSpace :: "sentPacketHandler \<Rightarrow> Time \<times> EncryptionLevel" where
  "getLossTimeAndSpace h =
     (let (lossTime, encLevel) =
            (case sph_initialPackets h of None \<Rightarrow> (0, EncryptionInitial) | Some s \<Rightarrow> (pns_lossTime s, EncryptionInitial));
          (lossTime, encLevel) =
            (case sph_handshakePackets h of
               None \<Rightarrow> (lossTime, encLevel)
             | Some s \<Rightarrow>
                 if IsZero lossTime \<or> \<not> IsZero (pns_lossTime s) \<and> pns_lossTime s < lossTime
                 then (pns_lossTime s, EncryptionHandshake) else (lossTime, encLevel));
          s = sph_appDataPackets h
      in if IsZero lossTime \<or> \<not> IsZero (pns_lossTime s) \<and> pns_lossTime s < lossTime
         then (pns_lossTime s, Encryption1RTT) else (lossTime, encLevel))"

definition getScaledPTO :: "sentPacketHandler \<Rightarrow> bool \<Rightarrow> Duration" where
  "getScaledPTO h includeMaxAckDelay =
     (let pto = wrap_i64 (push_bit (unat (sph_ptoCount h)) (PTO (sph_rttStats h) includeMaxAckDelay))
      in if pto > maxPTODuration \<or> pto \<le> 0 then maxPTODuration else pto)"

definition hasOutstandingCryptoPackets :: "sentPacketHandler \<Rightarrow> bool" where
  "hasOutstandingCryptoPackets h \<longleftrightarrow>
     (case sph_initialPackets h of Some s \<Rightarrow> HasOutstandingPackets (pns_history s) | None \<Rightarrow> False)
     \<or> (case sph_handshakePackets h of Some s \<Rightarrow> HasOutstandingPackets (pns_history s) | None \<Rightarrow> False)"

definition hasOutstandingPackets :: "sentPacketHandler \<Rightarrow> bool" where
  "hasOutstandingPackets h \<longleftrightarrow> HasOutstandingPackets (pns_history (sph_appDataPackets h)) \<or> hasOutstandingCryptoPackets h"

text \<open>The earlier one of a time and the probe timeout of a space.\<close>

definition earlierPTO :: "Time \<times> EncryptionLevel \<Rightarrow> packetNumberSpace \<Rightarrow> Duration \<Rightarrow> EncryptionLevel \<Rightarrow> Time \<times> EncryptionLevel" where
  "earlierPTO best s dur encLevel =
     (if IsZero (pns_lastAckElicitingPacketTime s) then best
      else
        let t = pns_lastAckElicitingPacketTime s + dur
        in if IsZero (fst best) \<or> \<not> IsZero t \<and> t < fst best then (t, encLevel) else best)"

definition getPTOTimeAndSpace :: "Time \<Rightarrow> sentPacketHandler \<Rightarrow> (Time \<times> EncryptionLevel) option" where
  "getPTOTimeAndSpace now h =
     (if \<not> sph_handshakeConfirmed h \<and> \<not> hasOutstandingCryptoPackets h then
        if sph_peerCompletedAddressValidation h then None
        else
          let t = now + getScaledPTO h False
          in Some (t, if sph_initialPackets h \<noteq> None then EncryptionInitial else EncryptionHandshake)
      else
        let best = (case sph_initialPackets h of
                      None \<Rightarrow> (0, EncryptionInitial)
                    | Some s \<Rightarrow> (if IsZero (pns_lastAckElicitingPacketTime s) then 0
                                 else pns_lastAckElicitingPacketTime s + getScaledPTO h False, EncryptionInitial));
            best = (case sph_handshakePackets h of
                      None \<Rightarrow> best
                    | Some s \<Rightarrow> earlierPTO best s (getScaledPTO h False) EncryptionHandshake)
        in Some (if sph_handshakeConfirmed h then earlierPTO best (sph_appDataPackets h) (getScaledPTO h True) Encryption1RTT
                 else best))"

definition setLossDetectionTimer :: "Time \<Rightarrow> sentPacketHandler \<Rightarrow> sentPacketHandler" where
  "setLossDetectionTimer now h =
     (let (lossTime, encLevel) = getLossTimeAndSpace h in
      if \<not> IsZero lossTime then h\<lparr>sph_alarm := lossTime\<rparr>
      else if isAmplificationLimited h then h\<lparr>sph_alarm := 0\<rparr>
      else if \<not> hasOutstandingPackets h \<and> sph_peerCompletedAddressValidation h then h\<lparr>sph_alarm := 0\<rparr>
      else case getPTOTimeAndSpace now h of
             None \<Rightarrow> h\<lparr>sph_alarm := 0\<rparr>
           | Some (ptoTime, encLevel) \<Rightarrow> h\<lparr>sph_alarm := ptoTime\<rparr>)"

section \<open>Sending\<close>

definition removeFromBytesInFlight :: "sentPacketHandler \<Rightarrow> packet \<Rightarrow> sentPacketHandler outcome" where
  "removeFromBytesInFlight h p =
     (if p_includedInBytesInFlight p then
        if p_Length p > sph_bytesInFlight h then Panic ''negative bytes_in_flight''
        else Ok (h\<lparr>sph_bytesInFlight := sph_bytesInFlight h - p_Length p\<rparr>)
      else Ok h)"

definition ReceivedBytes :: "Time \<Rightarrow> sentPacketHandler \<Rightarrow> ByteCount \<Rightarrow> sentPacketHandler" where
  "ReceivedBytes now h n =
     (let wasAmplificationLimit = isAmplificationLimited h;
          h = h\<lparr>sph_bytesReceived := sph_bytesReceived h + n\<rparr>
      in if wasAmplificationLimit \<and> \<not> isAmplificationLimited h then setLossDetectionTimer now h else h)"

definition sent_ReceivedPacket :: "Time \<Rightarrow> sentPacketHandler \<Rightarrow> EncryptionLevel \<Rightarrow> sentPacketHandler" where
  "sent_ReceivedPacket now h l =
     (if sph_perspective h = PerspectiveServer \<and> l = EncryptionHandshake \<and> \<not> sph_peerAddressValidated h
      then setLossDetectionTimer now (h\<lparr>sph_peerAddressValidated := True\<rparr>) else h)"

definition packetsInFlight :: "sentPacketHandler \<Rightarrow> int" where
  "packetsInFlight h =
     history_Len (pns_history (sph_appDataPackets h))
     + (case sph_handshakePackets h of Some s \<Rightarrow> history_Len (pns_history s) | None \<Rightarrow> 0)
     + (case sph_initialPackets h of Some s \<Rightarrow> history_Len (pns_history s) | None \<Rightarrow> 0)"

text \<open>The part of \<^verbatim>\<open>SentPacket\<close> that informs the congestion controller and the ECN tracker.\<close>

definition informSent :: "sentPacketHandler \<Rightarrow> Time \<Rightarrow> PacketNumber \<Rightarrow> EncryptionLevel \<Rightarrow> ECN \<Rightarrow> ByteCount \<Rightarrow> bool \<Rightarrow> sentPacketHandler outcome" where
  "informSent h t pn encLevel ecn len isAckEliciting =
     (let h = h\<lparr>sph_congestion := cubic_OnPacketSent (sph_congestion h) (sph_rttStats h) t pn len isAckEliciting\<rparr>
      in if encLevel = Encryption1RTT then
           (case sph_ecnTracker h of
              None \<Rightarrow> Ok h
            | Some e \<Rightarrow> bindr (ecn_SentPacket e pn ecn) (\<lambda>e. Ok (h\<lparr>sph_ecnTracker := Some e\<rparr>)))
         else Ok h)"

definition SentPacket ::
  "Time \<Rightarrow> sentPacketHandler \<Rightarrow> Time \<Rightarrow> PacketNumber \<Rightarrow> PacketNumber \<Rightarrow> ackhandler_StreamFrame list \<Rightarrow> ackhandler_Frame list
   \<Rightarrow> EncryptionLevel \<Rightarrow> ECN \<Rightarrow> ByteCount \<Rightarrow> bool \<Rightarrow> sentPacketHandler outcome" where
  "SentPacket now h t pn largestAcked streamFrames frames encLevel ecn len isPathMTUProbePacket =
     bindr (theSpace h encLevel) (\<lambda>pnSpace.
     let h = h\<lparr>sph_bytesSent := sph_bytesSent h + len\<rparr>;
         pnSpace = pnSpace\<lparr>pns_largestSent := pn\<rparr>;
         isAckEliciting = (length streamFrames > 0 \<or> length frames > 0);
         pnSpace = (if isAckEliciting then pnSpace\<lparr>pns_lastAckElicitingPacketTime := t\<rparr> else pnSpace);
         h = (if isAckEliciting
              then h\<lparr>sph_bytesInFlight := sph_bytesInFlight h + len,
                     sph_numProbesToSend := if sph_numProbesToSend h > 0 then sph_numProbesToSend h - 1 else sph_numProbesToSend h\<rparr>
              else h)
     in bindr (informSent h t pn encLevel ecn len isAckEliciting) (\<lambda>h.
        if \<not> isAckEliciting then
          bindr (SentNonAckElicitingPacket (pns_history pnSpace) pn) (\<lambda>hist.
          let h = putSpace h encLevel (pnSpace\<lparr>pns_history := hist\<rparr>)
          in Ok (if \<not> sph_peerCompletedAddressValidation h then setLossDetectionTimer now h else h))
        else
          let p = getPacket\<lparr>p_SendTime := t, p_PacketNumber := pn, p_EncryptionLevel := encLevel, p_Length := len,
                   p_LargestAcked := largestAcked, p_StreamFrames := streamFrames, p_Frames := frames,
                   p_IsPathMTUProbePacket := isPathMTUProbePacket, p_includedInBytesInFlight := True\<rparr>
          in bindr (SentAckElicitingPacket (pns_history pnSpace) p) (\<lambda>hist.
             Ok (setLossDetectionTimer now (putSpace h encLevel (pnSpace\<lparr>pns_history := hist\<rparr>))))))"

definition PeekPacketNumber :: "sentPacketHandler \<Rightarrow> EncryptionLevel \<Rightarrow> (PacketNumber \<times> nat) outcome" where
  "PeekPacketNumber h encLevel =
     bindr (theSpace h encLevel) (\<lambda>pnSpace.
     let pn = generator_Peek (pns_pns pnSpace)
     in Ok (pn, GetPacketNumberLengthForHeader pn (pns_largestAcked pnSpace)))"

definition PopPacketNumber :: "sentPacketHandler \<Rightarrow> EncryptionLevel \<Rightarrow> (sentPacketHandler \<times> PacketNumber) outcome" where
  "PopPacketNumber h encLevel =
     bindr (theSpace h encLevel) (\<lambda>pnSpace.
     let (g, skipped, pn) = generator_Pop (pns_pns pnSpace);
         pnSpace = pnSpace\<lparr>pns_pns := g\<rparr>
     in if skipped then
          bindr (SkippedPacket (pns_history pnSpace) (pn - 1)) (\<lambda>hist.
          Ok (putSpace h encLevel (pnSpace\<lparr>pns_history := hist\<rparr>), pn))
        else Ok (putSpace h encLevel pnSpace, pn))"

definition ECNMode :: "sentPacketHandler \<Rightarrow> bool \<Rightarrow> (sentPacketHandler \<times> ECN) outcome" where
  "ECNMode h isShortHeaderPacket =
     (if \<not> sph_enableECN h then Ok (h, ECNUnsupported)
      else if \<not> isShortHeaderPacket then Ok (h, ECNNon)
      else case sph_ecnTracker h of
             None \<Rightarrow> Panic nilPointer
           | Some e \<Rightarrow> let (e, m) = ecn_Mode e in Ok (h\<lparr>sph_ecnTracker := Some e\<rparr>, m))"

section \<open>Acknowledgements and losses\<close>

definition call_OnAcked :: "frameHandler \<Rightarrow> Frame \<Rightarrow> handlerCall list" where
  "call_OnAcked fh f = (if fh = NoHandler then [] else [OnAcked fh f])"

definition call_OnLost :: "frameHandler \<Rightarrow> Frame \<Rightarrow> handlerCall list" where
  "call_OnLost fh f = (if fh = NoHandler then [] else [OnLost fh f])"

definition queueFramesForRetransmission :: "sentPacketHandler \<Rightarrow> packet \<Rightarrow> sentPacketHandler outcome" where
  "queueFramesForRetransmission h p =
     (if length (p_Frames p) = 0 \<and> length (p_StreamFrames p) = 0 then Panic ''no frames''
      else Ok (h\<lparr>sph_calls := sph_calls h @ concat (map (\<lambda>(f, fh). call_OnLost fh f) (p_Frames p))
                                      @ concat (map (\<lambda>(f, fh). call_OnLost fh (FStream f)) (p_StreamFrames p))\<rparr>))"

text \<open>
  The loop over the acknowledged packets that are still in the history. The index \<open>j\<close> is the one of
  the current range, \<^verbatim>\<open>len(ack.AckRanges)-1-ackRangeIndex\<close>, which counts down.
\<close>

fun advanceRange :: "AckRange list \<Rightarrow> PacketNumber \<Rightarrow> nat \<Rightarrow> nat" where
  "advanceRange rs pn 0 = 0"
| "advanceRange rs pn (Suc j) = (if pn > ar_Largest (rs ! Suc j) then advanceRange rs pn j else Suc j)"

fun collectAcked :: "AckFrame \<Rightarrow> PacketNumber \<Rightarrow> PacketNumber \<Rightarrow> packet list \<Rightarrow> nat \<Rightarrow> packet list \<times> go_error option" where
  "collectAcked ack lowestAcked largestAcked [] j = ([], None)"
| "collectAcked ack lowestAcked largestAcked (p # ps) j =
     (if p_PacketNumber p < lowestAcked then collectAcked ack lowestAcked largestAcked ps j
      else if p_PacketNumber p > largestAcked then ([], None)
      else
        let j = (if HasMissingRanges ack then advanceRange (af_AckRanges ack) (p_PacketNumber p) j else j);
            ackRange = af_AckRanges ack ! j
        in if HasMissingRanges ack \<and> p_PacketNumber p < ar_Smallest ackRange
           then collectAcked ack lowestAcked largestAcked ps j
           else if HasMissingRanges ack \<and> p_PacketNumber p > ar_Largest ackRange
           then ([], Some (ErrorString ''BUG: ackhandler would have acked wrong packet''))
           else if p_skippedPacket p
           then ([], Some (TransportError 0 ProtocolViolation ''received an ACK for skipped packet number''))
           else
             let (acked, err) = collectAcked ack lowestAcked largestAcked ps j
             in (p # acked, err))"

text \<open>The second loop, which reports the frames and removes the packets. It returns the error of \<^verbatim>\<open>Remove\<close>.\<close>

fun removeAcked :: "sentPacketHandler \<Rightarrow> EncryptionLevel \<Rightarrow> packet list \<Rightarrow> (sentPacketHandler \<times> go_error option) outcome" where
  "removeAcked h encLevel [] = Ok (h, None)"
| "removeAcked h encLevel (p # ps) =
     (let h = (if p_LargestAcked p \<noteq> InvalidPacketNumber \<and> encLevel = Encryption1RTT
               then h\<lparr>sph_lowestNotConfirmedAcked := max (sph_lowestNotConfirmedAcked h) (p_LargestAcked p + 1)\<rparr> else h);
          h = h\<lparr>sph_calls := sph_calls h @ concat (map (\<lambda>(f, fh). call_OnAcked fh f) (p_Frames p))
                                   @ concat (map (\<lambda>(f, fh). call_OnAcked fh (FStream f)) (p_StreamFrames p))\<rparr>
      in bindr (theSpace h encLevel) (\<lambda>pnSpace.
         case history_Remove (pns_history pnSpace) (p_PacketNumber p) of
           Panic m \<Rightarrow> Panic m
         | Err e \<Rightarrow> Ok (h, Some e)
         | Ok hist \<Rightarrow> removeAcked (putSpace h encLevel (pnSpace\<lparr>pns_history := hist\<rparr>)) encLevel ps))"

definition detectAndRemoveAckedPackets ::
  "sentPacketHandler \<Rightarrow> AckFrame \<Rightarrow> EncryptionLevel \<Rightarrow> (sentPacketHandler \<times> packet list \<times> go_error option) outcome" where
  "detectAndRemoveAckedPackets h ack encLevel =
     bindr (theSpace h encLevel) (\<lambda>pnSpace.
     bindr (LowestAcked ack) (\<lambda>lowestAcked.
     bindr (LargestAcked ack) (\<lambda>largestAcked.
     let (acked, err) = collectAcked ack lowestAcked largestAcked (Iterate (pns_history pnSpace)) (length (af_AckRanges ack) - 1)
     in bindr (removeAcked h encLevel acked) (\<lambda>(h, e).
        case e of Some e \<Rightarrow> Ok (h, [], Some e) | None \<Rightarrow> Ok (h, acked, err)))))"

text \<open>What is done with a packet that is lost, after it was taken out of the history.\<close>

definition lostPacket :: "sentPacketHandler \<Rightarrow> EncryptionLevel \<Rightarrow> packet \<Rightarrow> sentPacketHandler outcome" where
  "lostPacket h encLevel p =
     (if p_skippedPacket p then Ok h
      else
        bindr (removeFromBytesInFlight h p) (\<lambda>h.
        bindr (queueFramesForRetransmission h p) (\<lambda>h.
        let h = (if \<not> p_IsPathMTUProbePacket p
                 then h\<lparr>sph_congestion := OnCongestionEvent (sph_congestion h) (p_PacketNumber p)\<rparr> else h)
        in Ok (if encLevel = Encryption1RTT
               then h\<lparr>sph_ecnTracker := map_option (\<lambda>e. ecn_LostPacket e (p_PacketNumber p)) (sph_ecnTracker h)\<rparr> else h))))"

fun detectLost_loop :: "Time \<Rightarrow> Duration \<Rightarrow> EncryptionLevel \<Rightarrow> sentPacketHandler \<Rightarrow> packet list \<Rightarrow> sentPacketHandler outcome" where
  "detectLost_loop now lossDelay encLevel h [] = Ok h"
| "detectLost_loop now lossDelay encLevel h (p # ps) =
     bindr (theSpace h encLevel) (\<lambda>pnSpace.
     if p_PacketNumber p > pns_largestAcked pnSpace then Ok h
     else if p_SendTime p < now - lossDelay \<or> pns_largestAcked pnSpace \<ge> p_PacketNumber p + packetThreshold then
       bindr (DeclareLost (pns_history pnSpace) (p_PacketNumber p)) (\<lambda>hist.
       bindr (lostPacket (putSpace h encLevel (pnSpace\<lparr>pns_history := hist\<rparr>)) encLevel p) (\<lambda>h.
       detectLost_loop now lossDelay encLevel h ps))
     else if IsZero (pns_lossTime pnSpace) then
       detectLost_loop now lossDelay encLevel (putSpace h encLevel (pnSpace\<lparr>pns_lossTime := p_SendTime p + lossDelay\<rparr>)) ps
     else detectLost_loop now lossDelay encLevel h ps)"

definition lossDelay_of :: "RTTStats \<Rightarrow> Duration" where
  "lossDelay_of rtt =
     max (float_to_int (float64 (timeThreshold * float64 (of_int (max (rtt_latestRTT rtt) (rtt_smoothedRTT rtt)))))) TimerGranularity"

definition detectLostPackets :: "Time \<Rightarrow> sentPacketHandler \<Rightarrow> EncryptionLevel \<Rightarrow> sentPacketHandler outcome" where
  "detectLostPackets now h encLevel =
     bindr (theSpace h encLevel) (\<lambda>pnSpace.
     detectLost_loop now (lossDelay_of (sph_rttStats h)) encLevel (putSpace h encLevel (pnSpace\<lparr>pns_lossTime := 0\<rparr>))
       (Iterate (pns_history pnSpace)))"

text \<open>The last loop of \<^verbatim>\<open>ReceivedAck\<close>; whether a 1-RTT packet was acknowledged is its second result.\<close>

fun creditAcked :: "sentPacketHandler \<Rightarrow> ByteCount \<Rightarrow> packet list \<Rightarrow> (sentPacketHandler \<times> bool) outcome" where
  "creditAcked h priorInFlight [] = Ok (h, False)"
| "creditAcked h priorInFlight (p # ps) =
     (let h = (if p_includedInBytesInFlight p \<and> \<not> p_declaredLost p
               then h\<lparr>sph_congestion := cubic_OnPacketAcked (sph_congestion h) (p_PacketNumber p) priorInFlight\<rparr> else h)
      in bindr (removeFromBytesInFlight h p) (\<lambda>h.
         bindr (creditAcked h priorInFlight ps) (\<lambda>(h, acked1RTT).
         Ok (h, p_EncryptionLevel p = Encryption1RTT \<or> acked1RTT))))"

text \<open>The update of the round-trip time when the largest acknowledged packet is newly acknowledged.\<close>

definition measureRTT :: "Time \<Rightarrow> sentPacketHandler \<Rightarrow> AckFrame \<Rightarrow> PacketNumber \<Rightarrow> EncryptionLevel \<Rightarrow> packet \<Rightarrow> sentPacketHandler" where
  "measureRTT rcvTime h ack largestAcked encLevel p =
     (if p_PacketNumber p = largestAcked then
        let ackDelay = (if encLevel = Encryption1RTT then min (af_DelayTime ack) (rtt_maxAckDelay (sph_rttStats h)) else 0);
            h = h\<lparr>sph_rttStats := UpdateRTT (sph_rttStats h) (Time_Sub rcvTime (p_SendTime p)) ackDelay\<rparr>
        in h\<lparr>sph_congestion := MaybeExitSlowStart (sph_congestion h) (sph_rttStats h)\<rparr>
      else h)"

definition informECN :: "sentPacketHandler \<Rightarrow> AckFrame \<Rightarrow> PacketNumber \<Rightarrow> EncryptionLevel \<Rightarrow> PacketNumber \<Rightarrow> packet list \<Rightarrow> sentPacketHandler" where
  "informECN h ack largestAcked encLevel spaceLargestAcked acked =
     (case sph_ecnTracker h of
        None \<Rightarrow> h
      | Some e \<Rightarrow>
          if encLevel = Encryption1RTT \<and> largestAcked > spaceLargestAcked then
            let (e, congested) = HandleNewlyAcked e (map p_PacketNumber acked) (to_i64 (af_ECT0 ack)) (to_i64 (af_ECT1 ack)) (to_i64 (af_ECNCE ack));
                h = h\<lparr>sph_ecnTracker := Some e\<rparr>
            in if congested then h\<lparr>sph_congestion := OnCongestionEvent (sph_congestion h) largestAcked\<rparr> else h
          else h)"

definition ReceivedAck ::
  "Time \<Rightarrow> sentPacketHandler \<Rightarrow> AckFrame \<Rightarrow> EncryptionLevel \<Rightarrow> Time \<Rightarrow> (sentPacketHandler \<times> bool \<times> go_error option) outcome" where
  "ReceivedAck now h ack encLevel rcvTime =
     bindr (LargestAcked ack) (\<lambda>largestAcked.
     bindr (theSpace h encLevel) (\<lambda>pnSpace.
     if largestAcked > pns_largestSent pnSpace
     then Ok (h, False, Some (TransportError 0 ProtocolViolation ''received ACK for an unsent packet''))
     else
       let h = (if sph_perspective h = PerspectiveClient \<and> \<not> sph_peerCompletedAddressValidation h
                     \<and> (encLevel = EncryptionHandshake \<or> encLevel = Encryption1RTT)
                then setLossDetectionTimer now (h\<lparr>sph_peerCompletedAddressValidation := True\<rparr>) else h);
           priorInFlight = sph_bytesInFlight h
       in bindr (detectAndRemoveAckedPackets h ack encLevel) (\<lambda>(h, acked, err).
          if err \<noteq> None \<or> acked = [] then Ok (h, False, err)
          else
            let h = measureRTT rcvTime h ack largestAcked encLevel (last acked);
                h = informECN h ack largestAcked encLevel (pns_largestAcked pnSpace) acked
            in bindr (theSpace h encLevel) (\<lambda>pnSpace.
               let h = putSpace h encLevel (pnSpace\<lparr>pns_largestAcked := max (pns_largestAcked pnSpace) largestAcked\<rparr>)
               in bindr (detectLostPackets rcvTime h encLevel) (\<lambda>h.
                  bindr (creditAcked h priorInFlight acked) (\<lambda>(h, acked1RTTPacket).
                  let h = (if sph_peerCompletedAddressValidation h then h\<lparr>sph_ptoCount := 0\<rparr> else h)
                  in Ok (setLossDetectionTimer now (h\<lparr>sph_numProbesToSend := 0\<rparr>), acked1RTTPacket, None)))))))"

section \<open>Timeouts and probes\<close>

text \<open>\<^verbatim>\<open>OnLossDetectionTimeout\<close> without the deferred call that sets the timer.\<close>

definition lossDetectionTimeout :: "Time \<Rightarrow> sentPacketHandler \<Rightarrow> (sentPacketHandler \<times> go_error option) outcome" where
  "lossDetectionTimeout now h =
     (let (earliestLossTime, encLevel) = getLossTimeAndSpace h in
      if \<not> IsZero earliestLossTime then bindr (detectLostPackets now h encLevel) (\<lambda>h. Ok (h, None))
      else if sph_bytesInFlight h = 0 \<and> \<not> sph_peerCompletedAddressValidation h then
        let h = h\<lparr>sph_ptoCount := sph_ptoCount h + 1, sph_numProbesToSend := sph_numProbesToSend h + 1\<rparr>
        in if sph_initialPackets h \<noteq> None then Ok (h\<lparr>sph_ptoMode := SendPTOInitial\<rparr>, None)
           else if sph_handshakePackets h \<noteq> None then Ok (h\<lparr>sph_ptoMode := SendPTOHandshake\<rparr>, None)
           else Ok (h, Some (ErrorString ''sentPacketHandler BUG: PTO fired, but bytes_in_flight is 0 and Initial and Handshake already dropped''))
      else case getPTOTimeAndSpace now h of
             None \<Rightarrow> Ok (h, None)
           | Some (_, encLevel) \<Rightarrow>
               bindr (theSpace h encLevel) (\<lambda>ps.
               if \<not> HasOutstandingPackets (pns_history ps) \<and> \<not> sph_peerCompletedAddressValidation h then Ok (h, None)
               else
                 let h = h\<lparr>sph_ptoCount := sph_ptoCount h + 1, sph_numProbesToSend := sph_numProbesToSend h + 2\<rparr>
                 in case encLevel of
                      EncryptionInitial \<Rightarrow> Ok (h\<lparr>sph_ptoMode := SendPTOInitial\<rparr>, None)
                    | EncryptionHandshake \<Rightarrow> Ok (h\<lparr>sph_ptoMode := SendPTOHandshake\<rparr>, None)
                    | Encryption1RTT \<Rightarrow>
                        bindr (PopPacketNumber h Encryption1RTT) (\<lambda>(h, pn).
                        bindr (theSpace h Encryption1RTT) (\<lambda>s.
                        bindr (SkippedPacket (pns_history s) pn) (\<lambda>hist.
                        Ok ((putSpace h Encryption1RTT (s\<lparr>pns_history := hist\<rparr>))\<lparr>sph_ptoMode := SendPTOAppData\<rparr>, None))))
                    | Encryption0RTT \<Rightarrow> Ok (h, Some (ErrorString ''PTO timer in unexpected encryption level''))))"

definition OnLossDetectionTimeout :: "Time \<Rightarrow> sentPacketHandler \<Rightarrow> (sentPacketHandler \<times> go_error option) outcome" where
  "OnLossDetectionTimeout now h = bindr (lossDetectionTimeout now h) (\<lambda>(h, err). Ok (setLossDetectionTimer now h, err))"

definition MaxOutstandingSentPackets :: int where
  "MaxOutstandingSentPackets = 2 * MaxCongestionWindowPackets"

definition MaxTrackedSentPackets :: int where
  "MaxTrackedSentPackets = MaxOutstandingSentPackets * 5 div 4"

definition handler_SendMode :: "sentPacketHandler \<Rightarrow> Time \<Rightarrow> SendMode" where
  "handler_SendMode h now =
     (let numTrackedPackets = packetsInFlight h in
      if isAmplificationLimited h then SendNone
      else if numTrackedPackets \<ge> MaxTrackedSentPackets then SendNone
      else if sph_numProbesToSend h > 0 then sph_ptoMode h
      else if \<not> CanSend (sph_congestion h) (sph_bytesInFlight h) then SendAck
      else if numTrackedPackets \<ge> MaxOutstandingSentPackets then SendAck
      else if \<not> HasPacingBudget (sph_congestion h) (sph_rttStats h) now then SendPacingLimited
      else SendAny)"

definition handler_TimeUntilSend :: "sentPacketHandler \<Rightarrow> Time outcome" where
  "handler_TimeUntilSend h = cubic_TimeUntilSend (sph_congestion h) (sph_rttStats h)"

definition handler_SetMaxDatagramSize :: "sentPacketHandler \<Rightarrow> ByteCount \<Rightarrow> sentPacketHandler outcome" where
  "handler_SetMaxDatagramSize h s = bindr (cubic_SetMaxDatagramSize (sph_congestion h) s) (\<lambda>c. Ok (h\<lparr>sph_congestion := c\<rparr>))"

definition QueueProbePacket :: "sentPacketHandler \<Rightarrow> EncryptionLevel \<Rightarrow> (sentPacketHandler \<times> bool) outcome" where
  "QueueProbePacket h encLevel =
     bindr (theSpace h encLevel) (\<lambda>pnSpace.
     case FirstOutstanding (pns_history pnSpace) of
       None \<Rightarrow> Ok (h, False)
     | Some p \<Rightarrow>
         bindr (queueFramesForRetransmission h p) (\<lambda>h.
         bindr (removeFromBytesInFlight h p) (\<lambda>h.
         bindr (DeclareLost (pns_history pnSpace) (p_PacketNumber p)) (\<lambda>hist.
         Ok (putSpace h encLevel (pnSpace\<lparr>pns_history := hist\<rparr>), True)))))"

section \<open>Dropping packets\<close>

fun removeAllFromBytesInFlight :: "sentPacketHandler \<Rightarrow> packet list \<Rightarrow> sentPacketHandler outcome" where
  "removeAllFromBytesInFlight h [] = Ok h"
| "removeAllFromBytesInFlight h (p # ps) = bindr (removeFromBytesInFlight h p) (\<lambda>h. removeAllFromBytesInFlight h ps)"

text \<open>The loop over the 0-RTT packets; the error of \<^verbatim>\<open>Remove\<close> is ignored.\<close>

fun drop0RTT :: "sentPacketHandler \<Rightarrow> packet list \<Rightarrow> sentPacketHandler outcome" where
  "drop0RTT h [] = Ok h"
| "drop0RTT h (p # ps) =
     (if p_EncryptionLevel p \<noteq> Encryption0RTT \<and> \<not> p_skippedPacket p then Ok h
      else
        bindr (removeFromBytesInFlight h p) (\<lambda>h.
        let s = sph_appDataPackets h
        in case history_Remove (pns_history s) (p_PacketNumber p) of
             Panic m \<Rightarrow> Panic m
           | Err e \<Rightarrow> drop0RTT h ps
           | Ok hist \<Rightarrow> drop0RTT (h\<lparr>sph_appDataPackets := s\<lparr>pns_history := hist\<rparr>\<rparr>) ps))"

definition sent_DropPackets :: "Time \<Rightarrow> sentPacketHandler \<Rightarrow> EncryptionLevel \<Rightarrow> sentPacketHandler outcome" where
  "sent_DropPackets now h encLevel =
     (let h = (if sph_perspective h = PerspectiveClient \<and> encLevel = EncryptionHandshake
               then h\<lparr>sph_peerCompletedAddressValidation := True\<rparr> else h);
          finish = (\<lambda>h. Ok (setLossDetectionTimer now (h\<lparr>sph_ptoCount := 0, sph_numProbesToSend := 0, sph_ptoMode := SendNone\<rparr>)))
      in case encLevel of
           EncryptionInitial \<Rightarrow>
             (case sph_initialPackets h of
                None \<Rightarrow> Ok h
              | Some s \<Rightarrow> bindr (removeAllFromBytesInFlight h (Iterate (pns_history s))) (\<lambda>h. finish (h\<lparr>sph_initialPackets := None\<rparr>)))
         | EncryptionHandshake \<Rightarrow>
             (case sph_handshakePackets h of
                None \<Rightarrow> Ok h
              | Some s \<Rightarrow> bindr (removeAllFromBytesInFlight h (Iterate (pns_history s))) (\<lambda>h. finish (h\<lparr>sph_handshakePackets := None\<rparr>)))
         | Encryption0RTT \<Rightarrow> bindr (drop0RTT h (Iterate (pns_history (sph_appDataPackets h)))) finish
         | Encryption1RTT \<Rightarrow> Panic ''Cannot drop keys for encryption level'')"

fun queueAllForRetransmission :: "sentPacketHandler \<Rightarrow> packet list \<Rightarrow> sentPacketHandler outcome" where
  "queueAllForRetransmission h [] = Ok h"
| "queueAllForRetransmission h (p # ps) =
     (if p_declaredLost p \<or> p_skippedPacket p then queueAllForRetransmission h ps
      else bindr (queueFramesForRetransmission h p) (\<lambda>h. queueAllForRetransmission h ps))"

definition ResetForRetry :: "Rand \<Rightarrow> Time \<Rightarrow> sentPacketHandler \<Rightarrow> sentPacketHandler outcome" where
  "ResetForRetry rng now h =
     (case sph_initialPackets h of
        None \<Rightarrow> Panic nilPointer
      | Some initial \<Rightarrow>
          let h = h\<lparr>sph_bytesInFlight := 0\<rparr>;
              sendTimes = filter (\<lambda>t. \<not> IsZero t) (map p_SendTime (Iterate (pns_history initial)));
              firstPacketSendTime = (case sendTimes of [] \<Rightarrow> 0 | t # _ \<Rightarrow> t)
          in bindr (queueAllForRetransmission h (Iterate (pns_history initial))) (\<lambda>h.
             bindr (queueAllForRetransmission h (Iterate (pns_history (sph_appDataPackets h)))) (\<lambda>h.
             let h = (if sph_ptoCount h = 0
                      then h\<lparr>sph_rttStats := UpdateRTT (sph_rttStats h) (max minRTTAfterRetry (Time_Sub now firstPacketSendTime)) 0\<rparr>
                      else h)
             in Ok (h\<lparr>sph_initialPackets := Some (newPacketNumberSpace rng (generator_Peek (pns_pns initial)) False),
                     sph_appDataPackets := newPacketNumberSpace rng (generator_Peek (pns_pns (sph_appDataPackets h))) True,
                     sph_alarm := 0, sph_ptoCount := 0\<rparr>))))"

definition SetHandshakeConfirmed :: "Time \<Rightarrow> sentPacketHandler \<Rightarrow> sentPacketHandler outcome" where
  "SetHandshakeConfirmed now h =
     (if sph_initialPackets h \<noteq> None then Panic ''didn't drop initial correctly''
      else if sph_handshakePackets h \<noteq> None then Panic ''didn't drop handshake correctly''
      else Ok (setLossDetectionTimer now (h\<lparr>sph_handshakeConfirmed := True\<rparr>)))"

end
