(* ===== verification/Spec2Isabelle.thy ===== *)
theory Spec2Isabelle
  imports RepairQueue DatagramQueue Protocol FlowControl ReceivedPackets SorterRuns SendRuns RetransmissionQueue
    FramerLaws Headers SentPackets
begin

text \<open>
  A verification library for 0xFEC, the fork of quic-go with forward erasure correction.
\<close>

section \<open>Delivery of a stream\<close>

text \<open>
  The frames of a set arrive at a frame sorter, in any order and any number of times, and
  what is ready is read in between.
\<close>

inductive delivery :: "StreamFrame set \<Rightarrow> frameSorter \<Rightarrow> StreamFrame set \<Rightarrow> byte list \<Rightarrow> bool"
  for F :: "StreamFrame set" where
  empty: "delivery F newFrameSorter {} []"
| arrive: "delivery F s P out \<Longrightarrow> f \<in> F \<Longrightarrow> frameSorter_Push s (sf_Data f) (sf_Offset f) doneCb = (s', Ok ()) \<Longrightarrow>
    delivery F s' (insert f P) out"
| read: "delivery F s P out \<Longrightarrow> frameSorter_Pop s = (s', Ok (offset, dat, doneCb)) \<Longrightarrow>
    delivery F s' P (out @ (case dat of None \<Rightarrow> [] | Some d \<Rightarrow> d))"

lemma delivery_run:
  assumes "delivery F s P out"
    and F: "\<forall>f \<in> F. 0 \<le> sf_Offset f \<and> sf_Offset f + int (length (sf_Data f)) < MaxByteCount
      \<and> (\<forall>n < length (sf_Data f). sf_Data f ! n = str (sf_Offset f + int n))"
  shows "P \<subseteq> F \<and> (\<exists>given handed. sorter_run str s (covers P) out given handed)"
  using assms(1)
proof (induction rule: delivery.induct)
  case empty
  then show ?case
    using sorter_run.start by auto
next
  case (arrive s P out f doneCb s')
  then obtain given handed where "sorter_run str s (covers P) out given handed" "P \<subseteq> F"
    by blast
  moreover have "covers (insert f P) = covers P \<union> {sf_Offset f ..< sf_Offset f + int (length (sf_Data f))}"
    by auto
  ultimately show ?case
    using sorter_run.push [of str s "covers P" out given handed "sf_Offset f" "sf_Data f" doneCb s'] F arrive.hyps by auto
next
  case (read s P out s' offset dat doneCb)
  then show ?case
    using sorter_run.pop by blast
qed

text \<open>
  C3 (delivery). The send stream of one peer and the frame sorter of the other together
  implement a byte stream. Whatever frames the sender has produced and the network delivers,
  what is read is a prefix of what was written; and when all that was written has arrived
  and nothing more can be read, everything was read.
\<close>

theorem stream_delivery:
  assumes run: "send_step\<^sup>*\<^sup>* (send_init sid fc fec) r"
    and fc: "fits_i sid" "fc_bytesSent fc = 0" "0 \<le> fc_sendWindow fc" "fc_sendWindow fc \<le> MaxByteCount"
    and w: "fc_sendWindow (ss_flowController (sr_stream r)) < MaxByteCount"
    and del: "delivery (set (sr_sent r)) s P out"
  shows "out = take (length out) (accepted r)
    \<and> ({0 ..< int (length (accepted r))} \<subseteq> covers P \<and> (\<exists>s' off cb. frameSorter_Pop s = (s', Ok (off, None, cb))) \<longrightarrow> out = accepted r)"
proof -
  define str where "str = (\<lambda>i. accepted r ! nat i)"
  have F: "\<forall>f \<in> set (sr_sent r). 0 \<le> sf_Offset f \<and> sf_Offset f + int (length (sf_Data f)) \<le> int (length (accepted r))
      \<and> sf_Offset f + int (length (sf_Data f)) < MaxByteCount \<and> (\<forall>n < length (sf_Data f). sf_Data f ! n = str (sf_Offset f + int n))"
    using sent_frames [OF run fc] w by (fastforce simp: str_def nat_add_distrib)
  then obtain given handed where P: "P \<subseteq> set (sr_sent r)" and run': "sorter_run str s (covers P) out given handed"
    using delivery_run [OF del, of str] by blast
  have cv: "covers P \<subseteq> {0 ..< int (length (accepted r))}"
    using P F by (force simp: covers_def)
  note popped = sorter_run_popped [OF run']
  have len: "length out \<le> length (accepted r)"
    using popped(1) [of "length out - 1"] cv by (cases "length out") auto
  have pre: "out = take (length out) (accepted r)"
    by (rule nth_equalityI) (use len popped(2) in \<open>auto simp: str_def\<close>)
  moreover have "out = accepted r" if "{0 ..< int (length (accepted r))} \<subseteq> covers P" "frameSorter_Pop s = (s', Ok (off, None, cb))" for s' off cb
  proof -
    have "\<not> length out < length (accepted r)"
      using sorter_run_stuck [OF run' that(2)] subsetD [OF that(1), of "int (length out)"] by auto
    then show ?thesis
      using pre len by simp
  qed
  ultimately show ?thesis
    by blast
qed

theorem stream_delivery_witness:
  "\<exists>r s. send_step\<^sup>*\<^sup>* (send_init 4 sample_fc False) r \<and> delivery (set (sr_sent r)) s (set (sr_sent r)) [7, 8, 9] \<and> accepted r = [7, 8, 9]"
proof -
  obtain r where r: "send_step\<^sup>*\<^sup>* (send_init 4 sample_fc False) r" "sr_sent r = [sample_frame]" "accepted r = [7, 8, 9]"
      "fc_sendWindow (ss_flowController (sr_stream r)) = 100"
    using sample_send_run by blast
  define s1 where "s1 = fst (frameSorter_Push newFrameSorter [7, 8, 9] 0 None)"
  define s2 where "s2 = fst (frameSorter_Pop s1)"
  have p: "frameSorter_Push newFrameSorter [7, 8, 9] 0 None = (s1, Ok ())" "frameSorter_Pop s1 = (s2, Ok (0, Some [7, 8, 9], None))"
      "frameSorter_Pop s2 = (s2, Ok (3, None, None))"
    unfolding s2_def s1_def by code_simp+
  have f: "sf_Data sample_frame = [7, 8, 9]" "sf_Offset sample_frame = 0"
    by (simp_all add: sample_frame_def)
  have d: "delivery {sample_frame} s2 {sample_frame} [7, 8, 9]"
    using delivery.read [OF delivery.arrive [OF delivery.empty [of "{sample_frame}"], of sample_frame None s1] p(2)] p(1) by (simp add: f)
  have l: "length (accepted r) = 3"
    using r(3) by simp
  have "[7, 8, 9] = accepted r"
    using stream_delivery [OF r(1) sample_fc_ok, of s2 "{sample_frame}" "[7, 8, 9]"] d p(3) r(2,4) f l
    by (simp add: MaxByteCount_def)
  then show ?thesis
    using r(1,2) d by (intro exI [of _ r] exI [of _ s2]) simp
qed

end
